(* ===== verification/Prelude.thy ===== *)
theory Prelude
  imports Main "HOL-Library.Sublist" "HOL-Library.AList"
begin

text \<open>
  Shared vocabulary of the development: the error-or-value convention, finite maps as
  association lists (Go maps whose keys are enumerated), prefixes of lists, and the
  collections of rewrite rules that the component theories add to.
\<close>

named_theorems path_simps "lexical path computations"
named_theorems fs_simps "reads and writes of the file system model"
named_theorems err_simps "construction and inspection of Go errors"

section \<open>Results\<close>

text \<open>
  A Go function returning \<open>(T, error)\<close> is modelled by the sum \<open>error + T\<close>: \<open>Inl\<close> for
  a non-nil error, \<open>Inr\<close> for the value returned with a nil error.
\<close>

definition is_ok :: "'e + 'a \<Rightarrow> bool" where
  "is_ok r = (case r of Inl _ \<Rightarrow> False | Inr _ \<Rightarrow> True)"

lemma is_ok_simps [simp]: "is_ok (Inr x)" "\<not> is_ok (Inl e)"
  by (simp_all add: is_ok_def)

lemma is_okE: "is_ok r \<Longrightarrow> (\<And>x. r = Inr x \<Longrightarrow> thesis) \<Longrightarrow> thesis"
  by (cases r) auto

section \<open>Maps as association lists\<close>

lemma map_of_update_same [simp]: "map_of (AList.update k v m) k = Some v"
  by (simp add: update_conv')

lemma map_of_update_other [simp]: "k \<noteq> k' \<Longrightarrow> map_of (AList.update k v m) k' = map_of m k'"
  by (simp add: update_conv')

lemma map_of_delete_same [simp]: "map_of (AList.delete k m) k = None"
  by (simp add: delete_conv')

lemma map_of_delete_other [simp]: "k \<noteq> k' \<Longrightarrow> map_of (AList.delete k m) k' = map_of m k'"
  by (simp add: delete_conv')

lemma keys_update: "fst ` set (AList.update k v m) = insert k (fst ` set m)"
  by (simp add: dom_update)

lemma map_of_fold_update_notin:
  "k \<notin> fst ` set xs \<Longrightarrow> map_of (fold (\<lambda>(k, v). AList.update k v) xs m) k = map_of m k"
  by (induction xs arbitrary: m) (auto simp: update_conv')

lemma map_of_None_iff: "map_of m k = None \<longleftrightarrow> k \<notin> fst ` set m"
  by (simp add: map_of_eq_None_iff)

section \<open>The contract of a keyed store\<close>

text \<open>
  The registries of the agent (workspaces, proposals, tools) keep one record per identifier.
  Their clients rely on one law: a lookup returns the record last stored under the key.
\<close>

locale keyed_store =
  fixes ins :: "'k \<Rightarrow> 'v \<Rightarrow> 's \<Rightarrow> 's"
    and look :: "'s \<Rightarrow> 'k \<Rightarrow> 'v option"
  assumes look_ins: "look (ins k v s) k' = (if k' = k then Some v else look s k')"
begin

lemma stored: "look (ins k v s) k = Some v"
  by (simp add: look_ins)

lemma untouched: "k' \<noteq> k \<Longrightarrow> look (ins k v s) k' = look s k'"
  by (simp add: look_ins)

lemma last_wins: "look (ins k v (ins k w s)) = look (ins k v s)"
  by (rule ext) (simp add: look_ins)

lemma commutes: "k \<noteq> k' \<Longrightarrow> look (ins k v (ins k' w s)) = look (ins k' w (ins k v s))"
  by (rule ext) (simp add: look_ins)

lemma stored_all:
  "look (fold (\<lambda>(k, v). ins k v) kvs s) k = (case map_of (rev kvs) k of Some v \<Rightarrow> Some v | None \<Rightarrow> look s k)"
  by (induction kvs arbitrary: s) (auto simp: look_ins map_add_def split: option.splits)

end

section \<open>Lists\<close>

lemma butlast_prefix: "prefix (butlast xs) xs"
  by (metis append_butlast_last_id butlast.simps(1) prefix_def prefix_order.order_refl)

lemma strict_prefix_snoc: "strict_prefix p (xs @ [x]) \<longleftrightarrow> prefix p xs"
  by (auto simp: strict_prefix_def)

lemma strict_prefix_butlast: "q \<noteq> [] \<Longrightarrow> strict_prefix p q \<longleftrightarrow> prefix p (butlast q)"
  by (metis append_butlast_last_id strict_prefix_snoc)

lemma prefix_appendE:
  assumes "prefix p (xs @ ys)"
  obtains "prefix p xs" | zs where "p = xs @ zs" "prefix zs ys" "zs \<noteq> []"
  using assms by (metis append_Nil2 prefix_append prefix_order.order_refl)

lemma list_all_replicate [simp]: "list_all P (replicate n x) \<longleftrightarrow> n = 0 \<or> P x"
  by (auto simp: list_all_iff)

end
