(* ===== verification/Go_Strings.thy ===== *)
theory Go_Strings
  imports Prelude "HOL-Library.Char_ord" "HOL-Library.List_Lexorder" "HOL-Library.Word"
begin

unbundle bit_operations_syntax

text \<open>
  The parts of Go's \<open>strings\<close>, \<open>strconv\<close>, \<open>unicode/utf8\<close> and \<open>encoding/hex\<close> packages that
  the repository uses. A Go string is a sequence of bytes; so is an Isabelle \<open>string\<close>
  (\<open>char\<close> has eight bits). The order on strings is the bytewise lexicographic one of Go.
\<close>

section \<open>Prefixes, splitting and searching\<close>

definition newline :: char where
  "newline = CHR 0x0A"

definition slash :: char where
  "slash = CHR ''/''"

abbreviation byte :: "char \<Rightarrow> nat" where
  "byte \<equiv> of_char"

definition has_prefix :: "string \<Rightarrow> string \<Rightarrow> bool" where
  "has_prefix s p \<longleftrightarrow> take (length p) s = p"

definition has_suffix :: "string \<Rightarrow> string \<Rightarrow> bool" where
  "has_suffix s p \<longleftrightarrow> length p \<le> length s \<and> drop (length s - length p) s = p"

definition trim_prefix :: "string \<Rightarrow> string \<Rightarrow> string" where
  "trim_prefix s p = (if has_prefix s p then drop (length p) s else s)"

text \<open>\<open>strings.Split\<close> with a one-byte separator: never empty, keeps empty fields.\<close>

fun split_on :: "char \<Rightarrow> string \<Rightarrow> string list" where
  "split_on c [] = [[]]"
| "split_on c (x # xs) =
     (if x = c then [] # split_on c xs
      else (case split_on c xs of [] \<Rightarrow> [[x]] | y # ys \<Rightarrow> (x # y) # ys))"

fun join_with :: "char \<Rightarrow> string list \<Rightarrow> string" where
  "join_with c [] = []"
| "join_with c [x] = x"
| "join_with c (x # y # ys) = x @ c # join_with c (y # ys)"

fun index_byte :: "string \<Rightarrow> char \<Rightarrow> nat option" where
  "index_byte [] c = None"
| "index_byte (x # xs) c = (if x = c then Some 0 else map_option Suc (index_byte xs c))"

fun index_str :: "string \<Rightarrow> string \<Rightarrow> nat option" where
  "index_str [] sub = (if sub = [] then Some 0 else None)"
| "index_str (x # xs) sub =
     (if has_prefix (x # xs) sub then Some 0 else map_option Suc (index_str xs sub))"

definition contains :: "string \<Rightarrow> string \<Rightarrow> bool" where
  "contains s sub \<longleftrightarrow> index_str s sub \<noteq> None"

lemma has_prefix_iff: "has_prefix s p \<longleftrightarrow> prefix p s"
  unfolding has_prefix_def by (metis append_eq_conv_conj prefix_def take_is_prefix)

lemma has_suffix_iff: "has_suffix s p \<longleftrightarrow> suffix p s"
proof
  assume "has_suffix s p"
  then have "s = take (length s - length p) s @ p"
    by (metis append_take_drop_id has_suffix_def)
  then show "suffix p s" by (rule suffixI)
qed (auto simp: has_suffix_def suffix_def)

lemma split_on_neq_Nil [simp]: "split_on c s \<noteq> []"
  by (induction s) (auto split: list.splits)

lemma split_on_no_sep: "x \<in> set (split_on c s) \<Longrightarrow> c \<notin> set x"
  by (induction s arbitrary: x) (fastforce split: list.splits if_splits)+

lemma join_with_Cons_char: "join_with c ((x # a) # xs) = x # join_with c (a # xs)"
  by (cases xs) auto

lemma join_with_Nil_Cons: "xs \<noteq> [] \<Longrightarrow> join_with c ([] # xs) = c # join_with c xs"
  by (cases xs) auto

lemma join_split [simp]: "join_with c (split_on c s) = s"
  by (induction s) (auto simp: join_with_Cons_char join_with_Nil_Cons split: list.splits)

lemma split_on_append_sep: "c \<notin> set x \<Longrightarrow> split_on c (x @ c # s) = x # split_on c s"
  by (induction x) auto

lemma split_on_no_sep_id: "c \<notin> set x \<Longrightarrow> split_on c x = [x]"
  by (induction x) auto

lemma split_join: "xs \<noteq> [] \<Longrightarrow> (\<And>x. x \<in> set xs \<Longrightarrow> c \<notin> set x) \<Longrightarrow> split_on c (join_with c xs) = xs"
  by (induction c xs rule: join_with.induct) (auto simp: split_on_append_sep split_on_no_sep_id)

lemma index_str_Some: "index_str s sub = Some i \<Longrightarrow> has_prefix (drop i s) sub"
  by (induction s sub arbitrary: i rule: index_str.induct)
    (auto simp: has_prefix_def split: if_splits)

lemma contains_iff: "contains s sub \<longleftrightarrow> sublist sub s"
proof (induction s)
  case Nil
  then show ?case by (auto simp: contains_def)
next
  case (Cons x xs)
  then show ?case
    by (auto simp: contains_def has_prefix_iff sublist_Cons_right)
qed

section \<open>White space\<close>

text \<open>
  \<open>strings.TrimSpace\<close> removes the runes of Unicode's White Space property from both ends.
  Those runes are finitely many; they are listed by their UTF-8 encodings. A suffix match
  of an encoding is the last rune of the string because an encoding starts with a byte
  that is no continuation byte.
\<close>

definition space_runes :: "string list" where
  "space_runes =
     [[CHR 0x09], [CHR 0x0A], [CHR 0x0B], [CHR 0x0C], [CHR 0x0D], [CHR 0x20],
      [CHR 0xC2, CHR 0x85], [CHR 0xC2, CHR 0xA0], [CHR 0xE1, CHR 0x9A, CHR 0x80],
      [CHR 0xE2, CHR 0x80, CHR 0x80], [CHR 0xE2, CHR 0x80, CHR 0x81],
      [CHR 0xE2, CHR 0x80, CHR 0x82], [CHR 0xE2, CHR 0x80, CHR 0x83],
      [CHR 0xE2, CHR 0x80, CHR 0x84], [CHR 0xE2, CHR 0x80, CHR 0x85],
      [CHR 0xE2, CHR 0x80, CHR 0x86], [CHR 0xE2, CHR 0x80, CHR 0x87],
      [CHR 0xE2, CHR 0x80, CHR 0x88], [CHR 0xE2, CHR 0x80, CHR 0x89],
      [CHR 0xE2, CHR 0x80, CHR 0x8A], [CHR 0xE2, CHR 0x80, CHR 0xA8],
      [CHR 0xE2, CHR 0x80, CHR 0xA9], [CHR 0xE2, CHR 0x80, CHR 0xAF],
      [CHR 0xE2, CHR 0x81, CHR 0x9F], [CHR 0xE3, CHR 0x80, CHR 0x80]]"

text \<open>
  The number of bytes of the space rune a string starts with (0 for none), read off the
  list of candidate encodings; the reversed list serves the other end.
\<close>

fun leading_len :: "string list \<Rightarrow> string \<Rightarrow> nat" where
  "leading_len [] s = 0"
| "leading_len (r # rs) s = (if has_prefix s r then length r else leading_len rs s)"

function strip_runes :: "string list \<Rightarrow> string \<Rightarrow> string" where
  "strip_runes rs s =
     (let n = leading_len rs s in
      if n = 0 \<or> s = [] then s else strip_runes rs (drop n s))"
  by pat_completeness auto
termination
  by (relation "measure (\<lambda>(rs, s). length s)") auto

declare strip_runes.simps [simp del]

definition trim_space :: "string \<Rightarrow> string" where
  "trim_space s = rev (strip_runes (map rev space_runes) (rev (strip_runes space_runes s)))"

lemma strip_runes_id: "leading_len rs s = 0 \<Longrightarrow> strip_runes rs s = s"
  by (subst strip_runes.simps) simp

lemma strip_runes_Nil [simp]: "strip_runes rs [] = []"
  by (subst strip_runes.simps) simp

lemma trim_space_Nil [simp]: "trim_space [] = []"
  by (simp add: trim_space_def)

lemma trim_space_id:
  "leading_len space_runes s = 0 \<Longrightarrow> leading_len (map rev space_runes) (rev s) = 0 \<Longrightarrow>
   trim_space s = s"
  by (simp add: trim_space_def strip_runes_id)

lemma set_strip_runes: "set (strip_runes rs s) \<subseteq> set s"
proof (induction rs s rule: strip_runes.induct)
  case (1 rs s)
  show ?case
  proof (cases "leading_len rs s = 0 \<or> s = []")
    case False
    then have "strip_runes rs s = strip_runes rs (drop (leading_len rs s) s)"
      by (subst strip_runes.simps) (simp add: Let_def)
    with "1" [OF refl False] show ?thesis using set_drop_subset by force
  qed (subst strip_runes.simps, simp)
qed

lemma set_trim_space: "set (trim_space s) \<subseteq> set s"
proof -
  have "set (trim_space s) \<subseteq> set (rev (strip_runes space_runes s))"
    unfolding trim_space_def set_rev [of "strip_runes _ (rev _)"] by (rule set_strip_runes)
  also have "\<dots> \<subseteq> set s" by (simp add: set_strip_runes)
  finally show ?thesis .
qed

text \<open>
  Bytes that neither begin nor end the encoding of a space rune stop the trimming; this is
  enough for every identifier and version string of the protocol.
\<close>

definition plain_byte :: "char \<Rightarrow> bool" where
  "plain_byte c \<longleftrightarrow> 0x20 < byte c \<and> (byte c :: nat) < 0x80"

lemma leading_len_0:
  "(\<And>r. r \<in> set rs \<Longrightarrow> r \<noteq> [] \<Longrightarrow> hd r \<noteq> c) \<Longrightarrow> leading_len rs (c # s) = 0"
proof (induction rs)
  case (Cons r rs)
  have "r = [] \<or> \<not> has_prefix (c # s) r"
    using Cons.prems [of r] by (cases r) (auto simp: has_prefix_def)
  moreover have "leading_len rs (c # s) = 0" using Cons by simp
  ultimately show ?case by auto
qed simp

lemma space_runes_not_plain:
  "list_all (\<lambda>r. \<not> plain_byte (hd r) \<and> \<not> plain_byte (last r)) space_runes"
  by (simp add: space_runes_def plain_byte_def)

lemma leading_len_plain:
  "plain_byte c \<Longrightarrow> leading_len space_runes (c # s) = 0"
  "plain_byte c \<Longrightarrow> leading_len (map rev space_runes) (c # s) = 0"
  using space_runes_not_plain
  by (auto intro!: leading_len_0 simp: list_all_iff hd_rev)

lemma trim_space_plain:
  assumes "s \<noteq> []" "plain_byte (hd s)" "plain_byte (last s)"
  shows "trim_space s = s"
proof (rule trim_space_id)
  show "leading_len space_runes s = 0"
    using assms by (cases s) (auto simp: leading_len_plain)
  have "rev s = last s # rev (butlast s)"
    using assms(1) by (metis append_butlast_last_id rev_eq_Cons_iff rev_rev_ident)
  then show "leading_len (map rev space_runes) (rev s) = 0"
    by (simp only: leading_len_plain(2) [OF assms(3)])
qed

section \<open>Letter case\<close>

text \<open>
  \<open>strings.ToLower\<close> and \<open>strings.ToUpper\<close> up to comparison with ASCII text: besides the
  ASCII letters, the only runes that Unicode maps to an ASCII letter are U+0130 and U+212A
  (to lower case) and U+0131 and U+017F (to upper case). All other runes are left as they
  are, so a result equals an ASCII literal here exactly when it does in Go.
\<close>

definition lower_char :: "char \<Rightarrow> char" where
  "lower_char c = (if 65 \<le> byte c \<and> byte c \<le> (90::nat) then char_of (byte c + 32 :: nat) else c)"

definition upper_char :: "char \<Rightarrow> char" where
  "upper_char c = (if 97 \<le> byte c \<and> byte c \<le> (122::nat) then char_of (byte c - 32 :: nat) else c)"

fun to_lower :: "string \<Rightarrow> string" where
  "to_lower [] = []"
| "to_lower (c # s) =
     (if has_prefix (c # s) [CHR 0xC4, CHR 0xB0] then CHR ''i'' # to_lower (drop 1 s)
      else if has_prefix (c # s) [CHR 0xE2, CHR 0x84, CHR 0xAA] then CHR ''k'' # to_lower (drop 2 s)
      else lower_char c # to_lower s)"

fun to_upper :: "string \<Rightarrow> string" where
  "to_upper [] = []"
| "to_upper (c # s) =
     (if has_prefix (c # s) [CHR 0xC4, CHR 0xB1] then CHR ''I'' # to_upper (drop 1 s)
      else if has_prefix (c # s) [CHR 0xC5, CHR 0xBF] then CHR ''S'' # to_upper (drop 1 s)
      else upper_char c # to_upper s)"

text \<open>The first \<open>n\<close> bytes, as a slice or a \<open>LimitReader\<close> gives them.\<close>

definition clip :: "int \<Rightarrow> string \<Rightarrow> string" where
  "clip n s = (if int (length s) \<le> n then s else take (nat n) s)"

lemma clip_take: "clip n s = take (nat n) s"
  by (simp add: clip_def nat_le_iff)

section \<open>Decimal numbers\<close>

definition digit_char :: "nat \<Rightarrow> char" where
  "digit_char d = char_of (48 + d)"

definition digit_val :: "char \<Rightarrow> nat option" where
  "digit_val c = (if 48 \<le> byte c \<and> byte c \<le> (57::nat) then Some (byte c - 48) else None)"

fun nat_digits :: "nat \<Rightarrow> string" where
  "nat_digits n = (if n < 10 then [digit_char n] else nat_digits (n div 10) @ [digit_char (n mod 10)])"

declare nat_digits.simps [simp del]

definition itoa :: "int \<Rightarrow> string" where
  "itoa i = (if i < 0 then CHR ''-'' # nat_digits (nat (- i)) else nat_digits (nat i))"

fun digits_val :: "nat \<Rightarrow> string \<Rightarrow> nat option" where
  "digits_val acc [] = Some acc"
| "digits_val acc (c # s) = (case digit_val c of None \<Rightarrow> None | Some d \<Rightarrow> digits_val (10 * acc + d) s)"

text \<open>
  \<open>strconv.Atoi\<close> and \<open>strconv.ParseInt(s, 10, 64)\<close>: an optional sign, at least one digit,
  nothing else, and a value that fits 64 bits; \<open>None\<close> stands for any error.
\<close>

definition int64_range :: "int \<Rightarrow> bool" where
  "int64_range i \<longleftrightarrow> - (2 ^ 63) \<le> i \<and> i < 2 ^ 63"

text \<open>The value an \<open>int64\<close> holds after an operation: the result wrapped to 64 bits, signed.\<close>

definition int64_wrap :: "int \<Rightarrow> int" where
  "int64_wrap i = signed_take_bit 63 i"

lemma int64_wrap_id: "int64_range i \<Longrightarrow> int64_wrap i = i"
  by (simp add: int64_wrap_def int64_range_def signed_take_bit_int_eq_self)

definition parse_int :: "string \<Rightarrow> int option" where
  "parse_int s =
     (let neg = (s \<noteq> [] \<and> hd s = CHR ''-'');
          body = (if s \<noteq> [] \<and> (hd s = CHR ''-'' \<or> hd s = CHR ''+'') then tl s else s)
      in if body = [] then None
         else case digits_val 0 body of
           None \<Rightarrow> None
         | Some n \<Rightarrow>
             let i = (if neg then - int n else int n) in
             if int64_range i then Some i else None)"

lemma digit_val_char [simp]: "d < 10 \<Longrightarrow> digit_val (digit_char d) = Some d"
  by (simp add: digit_val_def digit_char_def)

lemma digits_val_append:
  "digits_val acc (s @ t) = (case digits_val acc s of None \<Rightarrow> None | Some a \<Rightarrow> digits_val a t)"
  by (induction s arbitrary: acc) (auto split: option.splits)

lemma nat_digits_neq_Nil [simp]: "nat_digits n \<noteq> []"
  by (subst nat_digits.simps) simp

lemma digits_val_nat_digits: "digits_val 0 (nat_digits n) = Some n"
proof (induction n rule: nat_digits.induct)
  case (1 n)
  then show ?case
    by (subst nat_digits.simps) (auto simp: digits_val_append)
qed

lemma digit_val_Some: "digit_val c = Some d \<Longrightarrow> c = digit_char d \<and> d < 10"
  by (auto simp: digit_val_def digit_char_def split: if_splits)

lemma set_nat_digits: "c \<in> set (nat_digits n) \<Longrightarrow> \<exists>d<10. c = digit_char d"
proof (induction n rule: nat_digits.induct)
  case (1 n)
  from "1.prems" show ?case
    by (subst (asm) nat_digits.simps)
      (use "1.IH" in \<open>auto split: if_splits intro: exI [of _ "n mod 10"]\<close>)
qed

lemma digit_char_plain:
  assumes "d < 10"
  shows "plain_byte (digit_char d)" "digit_char d \<noteq> CHR ''-''" "digit_char d \<noteq> CHR ''+''"
    "digit_char d \<noteq> CHR ''.''" "digit_char d \<noteq> slash" "digit_char d \<noteq> newline"
proof -
  have b: "byte (digit_char d) = (48 + d :: nat)"
    using assms by (simp add: digit_char_def)
  then show "plain_byte (digit_char d)" using assms by (simp add: plain_byte_def)
  show "digit_char d \<noteq> CHR ''-''" "digit_char d \<noteq> CHR ''+''"
    "digit_char d \<noteq> CHR ''.''" "digit_char d \<noteq> slash" "digit_char d \<noteq> newline"
    using b by (auto simp: slash_def newline_def)
qed

lemma parse_int_itoa: "int64_range i \<Longrightarrow> parse_int (itoa i) = Some i"
proof -
  assume r: "int64_range i"
  have hd: "hd (nat_digits n) \<noteq> CHR ''-''" "hd (nat_digits n) \<noteq> CHR ''+''" for n
  proof -
    obtain d where "d < 10" "hd (nat_digits n) = digit_char d"
      using set_nat_digits [of "hd (nat_digits n)" n] by auto
    then show "hd (nat_digits n) \<noteq> CHR ''-''" "hd (nat_digits n) \<noteq> CHR ''+''"
      by (simp_all add: digit_char_plain)
  qed
  show ?thesis
  proof (cases "i < 0")
    case True
    with r show ?thesis by (simp add: parse_int_def itoa_def digits_val_nat_digits)
  next
    case False
    with r hd show ?thesis by (simp add: parse_int_def itoa_def digits_val_nat_digits)
  qed
qed

section \<open>UTF-8\<close>

definition continuation :: "char \<Rightarrow> bool" where
  "continuation c \<longleftrightarrow> 0x80 \<le> byte c \<and> byte c \<le> (0xBF::nat)"

text \<open>The length of the valid encoding a string starts with, 0 when there is none.\<close>

fun rune_size :: "string \<Rightarrow> nat" where
  "rune_size [] = 0"
| "rune_size (a # s) =
     (let x = (byte a :: nat) in
      if x < 0x80 then 1
      else if 0xC2 \<le> x \<and> x \<le> 0xDF then
        (case s of b # _ \<Rightarrow> if continuation b then 2 else 0 | [] \<Rightarrow> 0)
      else if 0xE0 \<le> x \<and> x \<le> 0xEF then
        (case s of b # c # _ \<Rightarrow>
           if (if x = 0xE0 then 0xA0 else 0x80) \<le> (byte b :: nat)
              \<and> byte b \<le> (if x = 0xED then 0x9F else 0xBF :: nat) \<and> continuation c then 3 else 0
         | _ \<Rightarrow> 0)
      else if 0xF0 \<le> x \<and> x \<le> 0xF4 then
        (case s of b # c # d # _ \<Rightarrow>
           if (if x = 0xF0 then 0x90 else 0x80) \<le> (byte b :: nat)
              \<and> byte b \<le> (if x = 0xF4 then 0x8F else 0xBF :: nat)
              \<and> continuation c \<and> continuation d then 4 else 0
         | _ \<Rightarrow> 0)
      else 0)"

function utf8_valid :: "string \<Rightarrow> bool" where
  "utf8_valid s =
     (if s = [] then True
      else if rune_size s = 0 then False
      else utf8_valid (drop (rune_size s) s))"
  by pat_completeness auto
termination
  by (relation "measure length") auto

declare utf8_valid.simps [simp del]

lemma utf8_valid_Nil [simp]: "utf8_valid []"
  by (subst utf8_valid.simps) simp

lemma utf8_valid_ascii: "byte c < (0x80::nat) \<Longrightarrow> utf8_valid (c # s) = utf8_valid s"
  by (subst utf8_valid.simps) simp

lemma utf8_valid_ascii_append:
  "(\<And>c. c \<in> set t \<Longrightarrow> byte c < (0x80::nat)) \<Longrightarrow> utf8_valid (t @ s) = utf8_valid s"
  by (induction t) (auto simp: utf8_valid_ascii)

section \<open>Hexadecimal\<close>

type_synonym u8 = "8 word"

definition hex_digit :: "nat \<Rightarrow> char" where
  "hex_digit n = char_of (if n < 10 then 48 + n else 87 + n)"

definition hex_val :: "char \<Rightarrow> nat option" where
  "hex_val c =
     (let x = (byte c :: nat) in
      if 48 \<le> x \<and> x \<le> 57 then Some (x - 48)
      else if 97 \<le> x \<and> x \<le> 102 then Some (x - 87)
      else if 65 \<le> x \<and> x \<le> 70 then Some (x - 55)
      else None)"

definition hex_byte :: "u8 \<Rightarrow> string" where
  "hex_byte b = [hex_digit (unat b div 16), hex_digit (unat b mod 16)]"

definition hex_encode :: "u8 list \<Rightarrow> string" where
  "hex_encode bs = concat (map hex_byte bs)"

fun hex_decode :: "string \<Rightarrow> u8 list option" where
  "hex_decode [] = Some []"
| "hex_decode [c] = None"
| "hex_decode (c # d # s) =
     (case (hex_val c, hex_val d) of
        (Some h, Some l) \<Rightarrow> map_option ((#) (of_nat (16 * h + l))) (hex_decode s)
      | _ \<Rightarrow> None)"

lemma hex_val_digit [simp]: "n < 16 \<Longrightarrow> hex_val (hex_digit n) = Some n"
  by (auto simp: hex_val_def hex_digit_def Let_def)

lemma unat_u8_bound: "unat (b :: u8) < 256"
  using unsigned_less [of b, where ?'a = nat] by simp

lemma hex_decode_encode: "hex_decode (hex_encode bs) = Some bs"
proof (induction bs)
  case (Cons b bs)
  have "unat b div 16 < 16" using unat_u8_bound [of b] by simp
  moreover have "16 * (unat b div 16) + unat b mod 16 = unat b" by simp
  ultimately show ?case
    using Cons by (simp add: hex_encode_def hex_byte_def)
qed (simp add: hex_encode_def)

lemma length_hex_encode [simp]: "length (hex_encode bs) = 2 * length bs"
  by (induction bs) (auto simp: hex_encode_def hex_byte_def)

lemma hex_decode_length: "hex_decode s = Some bs \<Longrightarrow> length s = 2 * length bs"
  by (induction s arbitrary: bs rule: hex_decode.induct) (auto split: option.splits)

end
