(* ===== verification/Go_Json.thy ===== *)
theory Go_Json
  imports Go_Strings
begin

text \<open>
  Values of \<open>encoding/json\<close>: the dynamic type \<open>any\<close> as the code builds and inspects it, and
  the rules by which \<open>json.Unmarshal\<close> fills a struct field from an object. A
  \<open>map[string]any\<close> is an association list without order; numbers keep their literal. A
  \<open>json.RawMessage\<close> is modelled by the value it denotes, \<open>None\<close> when it is not valid JSON.
\<close>

datatype json =
    JNull
  | JBool bool
  | JNum string
  | JStr string
  | JArr "json list"
  | JObj "(string \<times> json) list"

type_synonym jmap = "(string \<times> json) list"

text \<open>\<open>s, _ := m[k].(string)\<close>: the empty string when the key is absent or no string.\<close>

definition get_str :: "jmap \<Rightarrow> string \<Rightarrow> string" where
  "get_str m k = (case map_of m k of Some (JStr s) \<Rightarrow> s | _ \<Rightarrow> [])"

definition get_any :: "jmap \<Rightarrow> string \<Rightarrow> json" where
  "get_any m k = (case map_of m k of Some v \<Rightarrow> v | None \<Rightarrow> JNull)"

definition put :: "string \<Rightarrow> json \<Rightarrow> jmap \<Rightarrow> jmap" where
  "put k v m = AList.update k v m"

definition remove_key :: "string \<Rightarrow> jmap \<Rightarrow> jmap" where
  "remove_key k m = AList.delete k m"

lemma map_of_put: "map_of (put k v m) k' = (if k' = k then Some v else map_of m k')"
  by (simp add: put_def update_conv')

lemma map_of_remove_key: "map_of (remove_key k m) k' = (if k' = k then None else map_of m k')"
  by (simp add: remove_key_def delete_conv')

lemma get_any_put: "get_any (put k v m) k' = (if k' = k then v else get_any m k')"
  by (simp add: get_any_def map_of_put)

lemma get_str_put:
  "get_str (put k v m) k' = (if k' = k then (case v of JStr s \<Rightarrow> s | _ \<Rightarrow> []) else get_str m k')"
  by (simp add: get_str_def map_of_put)

section \<open>Struct fields\<close>

text \<open>
  \<open>json.Unmarshal\<close> matches an object key with a field name exactly or up to case folding
  (ASCII letters, the long s and the Kelvin sign); a later key overwrites an earlier one.
\<close>

fun fold_name :: "string \<Rightarrow> string" where
  "fold_name [] = []"
| "fold_name (c # s) =
     (if has_prefix (c # s) [CHR 0xC5, CHR 0xBF] then CHR ''s'' # fold_name (drop 1 s)
      else if has_prefix (c # s) [CHR 0xE2, CHR 0x84, CHR 0xAA] then CHR ''k'' # fold_name (drop 2 s)
      else lower_char c # fold_name s)"

declare fold_name.simps [simp del]

definition field_values :: "string \<Rightarrow> jmap \<Rightarrow> json list" where
  "field_values f m = map snd (filter (\<lambda>(k, _). k = f \<or> fold_name k = fold_name f) m)"

text \<open>
  A string field: JSON \<open>null\<close> leaves it as it is, any other non-string value is a type error
  (\<open>None\<close>), and the last string wins.
\<close>

fun assign_strings :: "string \<Rightarrow> json list \<Rightarrow> string option" where
  "assign_strings acc [] = Some acc"
| "assign_strings acc (JStr s # vs) = assign_strings s vs"
| "assign_strings acc (JNull # vs) = assign_strings acc vs"
| "assign_strings acc (_ # vs) = None"

definition string_field :: "string \<Rightarrow> jmap \<Rightarrow> string option" where
  "string_field f m = assign_strings [] (field_values f m)"

section \<open>Reading JSON text\<close>

text \<open>
  \<open>json.Unmarshal\<close> into \<open>any\<close>: a recursive descent over the bytes. Strings are unescaped to
  UTF-8; an invalid byte or surrogate becomes U+FFFD, as Go's decoder does. The guards on
  lengths only serve termination: a parser always returns a shorter rest.
\<close>

definition is_ws :: "char \<Rightarrow> bool" where
  "is_ws c \<longleftrightarrow> c = CHR 0x20 \<or> c = CHR 0x09 \<or> c = CHR 0x0A \<or> c = CHR 0x0D"

definition skip_ws :: "string \<Rightarrow> string" where
  "skip_ws s = dropWhile is_ws s"

definition utf8_encode :: "nat \<Rightarrow> string" where
  "utf8_encode r =
     (if r < 0x80 then [char_of r]
      else if r < 0x800 then [char_of (0xC0 + r div 64), char_of (0x80 + r mod 64)]
      else if r < 0x10000 then
        [char_of (0xE0 + r div 4096), char_of (0x80 + r div 64 mod 64), char_of (0x80 + r mod 64)]
      else
        [char_of (0xF0 + r div 262144), char_of (0x80 + r div 4096 mod 64),
         char_of (0x80 + r div 64 mod 64), char_of (0x80 + r mod 64)])"

definition replacement :: string where
  "replacement = [CHR 0xEF, CHR 0xBF, CHR 0xBD]"

text \<open>The code unit of an escape \<open>\u\<close> (whose two characters are already gone).\<close>

fun hex4 :: "string \<Rightarrow> nat option" where
  "hex4 (a # b # c # d # s) =
     (case (hex_val a, hex_val b, hex_val c, hex_val d) of
        (Some w, Some x, Some y, Some z) \<Rightarrow> Some (((w * 16 + x) * 16 + y) * 16 + z)
      | _ \<Rightarrow> None)"
| "hex4 _ = None"

definition unicode_escape :: "string \<Rightarrow> (string \<times> nat) option" where
  "unicode_escape s =
     (case hex4 s of
        None \<Rightarrow> None
      | Some r \<Rightarrow>
          if 0xD800 \<le> r \<and> r \<le> 0xDFFF then
            (case (if has_prefix (drop 4 s) [CHR 0x5C, CHR ''u''] then hex4 (drop 6 s) else None) of
               Some r2 \<Rightarrow>
                 if r < 0xDC00 \<and> 0xDC00 \<le> r2 \<and> r2 \<le> 0xDFFF
                 then Some (utf8_encode (0x10000 + (r - 0xD800) * 1024 + (r2 - 0xDC00)), 10)
                 else Some (replacement, 4)
             | None \<Rightarrow> Some (replacement, 4))
          else Some (utf8_encode r, 4))"

definition simple_escape :: "char \<Rightarrow> char option" where
  "simple_escape e =
     (if e = CHR 0x22 \<or> e = CHR 0x5C \<or> e = CHR ''/'' then Some e
      else if e = CHR ''b'' then Some (CHR 0x08)
      else if e = CHR ''f'' then Some (CHR 0x0C)
      else if e = CHR ''n'' then Some (CHR 0x0A)
      else if e = CHR ''r'' then Some (CHR 0x0D)
      else if e = CHR ''t'' then Some (CHR 0x09)
      else None)"

function parse_string :: "string \<Rightarrow> (string \<times> string) option" where
  "parse_string [] = None"
| "parse_string (c # s) =
     (if c = CHR 0x22 then Some ([], s)
      else if c = CHR 0x5C then
        (case s of
           [] \<Rightarrow> None
         | e # t \<Rightarrow>
             if e = CHR ''u'' then
               (case unicode_escape t of
                  None \<Rightarrow> None
                | Some (x, n) \<Rightarrow> map_option (map_prod ((@) x) id) (parse_string (drop n t)))
             else
               (case simple_escape e of
                  None \<Rightarrow> None
                | Some x \<Rightarrow> map_option (map_prod ((#) x) id) (parse_string t)))
      else if byte c < (0x20 :: nat) then None
      else if rune_size (c # s) = 0
        then map_option (map_prod ((@) replacement) id) (parse_string s)
      else map_option (map_prod ((@) (take (rune_size (c # s)) (c # s))) id)
             (parse_string (drop (rune_size (c # s) - 1) s)))"
  by pat_completeness auto
termination
  by (relation "measure length") auto

fun take_digits :: "string \<Rightarrow> string \<times> string" where
  "take_digits s = (takeWhile (\<lambda>c. digit_val c \<noteq> None) s, dropWhile (\<lambda>c. digit_val c \<noteq> None) s)"

definition parse_number :: "string \<Rightarrow> (string \<times> string) option" where
  "parse_number s =
     (let (sgn, s1) = (if has_prefix s ''-'' then (''-'', drop 1 s) else ([], s));
          (ip, s2) = (if has_prefix s1 ''0'' then (''0'', drop 1 s1) else take_digits s1);
          (fp, s3, ok1) =
            (if has_prefix s2 ''.''
             then (let (d, r) = take_digits (drop 1 s2) in (CHR ''.'' # d, r, d \<noteq> []))
             else ([], s2, True));
          (ep, s4, ok2) =
            (if has_prefix s3 ''e'' \<or> has_prefix s3 ''E''
             then (let t = drop 1 s3;
                       (sg, t1) = (if has_prefix t ''+'' \<or> has_prefix t ''-''
                                   then (take 1 t, drop 1 t) else ([], t));
                       (d, r) = take_digits t1
                   in (take 1 s3 @ sg @ d, r, d \<noteq> []))
             else ([], s3, True))
      in if ip = [] \<or> \<not> ok1 \<or> \<not> ok2 then None else Some (sgn @ ip @ fp @ ep, s4))"

function parse_value :: "string \<Rightarrow> (json \<times> string) option"
  and parse_elems :: "string \<Rightarrow> (json list \<times> string) option"
  and parse_members :: "string \<Rightarrow> (jmap \<times> string) option"
where
  "parse_value [] = None"
| "parse_value (c # s) =
     (if has_prefix (c # s) ''null'' then Some (JNull, drop 3 s)
      else if has_prefix (c # s) ''true'' then Some (JBool True, drop 3 s)
      else if has_prefix (c # s) ''false'' then Some (JBool False, drop 4 s)
      else if c = CHR 0x22 then map_option (map_prod JStr id) (parse_string s)
      else if c = CHR ''['' then
        (let t = skip_ws s in
         if has_prefix t '']'' then Some (JArr [], drop 1 t)
         else if length t \<le> length s then map_option (map_prod JArr id) (parse_elems t) else None)
      else if c = CHR ''{'' then
        (let t = skip_ws s in
         if has_prefix t ''}'' then Some (JObj [], drop 1 t)
         else if length t \<le> length s then map_option (map_prod JObj id) (parse_members t) else None)
      else map_option (map_prod JNum id) (parse_number (c # s)))"
| "parse_elems s =
     (case parse_value s of
        None \<Rightarrow> None
      | Some (v, r) \<Rightarrow>
          let t = skip_ws r in
          if has_prefix t '']'' then Some ([v], drop 1 t)
          else if has_prefix t '','' then
            (let u = skip_ws (drop 1 t) in
             if length u < length s then map_option (map_prod ((#) v) id) (parse_elems u) else None)
          else None)"
| "parse_members s =
     (if \<not> has_prefix s [CHR 0x22] then None
      else case parse_string (drop 1 s) of
        None \<Rightarrow> None
      | Some (k, r) \<Rightarrow>
          let t = skip_ws r in
          if \<not> has_prefix t '':'' then None
          else
            let u = skip_ws (drop 1 t) in
            if length s \<le> length u then None
            else case parse_value u of
              None \<Rightarrow> None
            | Some (v, r2) \<Rightarrow>
                let w = skip_ws r2 in
                if has_prefix w ''}'' then Some ([(k, v)], drop 1 w)
                else if has_prefix w '','' then
                  (let x = skip_ws (drop 1 w) in
                   if length x < length s then map_option (map_prod ((#) (k, v)) id) (parse_members x)
                   else None)
                else None)"
  by pat_completeness auto
termination
  by (relation "measure (\<lambda>x. case x of Inl s \<Rightarrow> 2 * length s
        | Inr (Inl s) \<Rightarrow> 2 * length s + 1 | Inr (Inr s) \<Rightarrow> 2 * length s + 1)") auto

declare parse_value.simps [simp del] parse_elems.simps [simp del] parse_members.simps [simp del]
  parse_string.simps [simp del]

definition json_parse :: "string \<Rightarrow> json option" where
  "json_parse s =
     (case parse_value (skip_ws s) of
        Some (v, r) \<Rightarrow> if skip_ws r = [] then Some v else None
      | None \<Rightarrow> None)"

text \<open>
  Decoding into \<open>any\<close>: an object becomes a Go map, which keeps the last value of a repeated
  key, at every depth.
\<close>

fun to_any :: "json \<Rightarrow> json"
  and to_fields :: "jmap \<Rightarrow> jmap \<Rightarrow> jmap"
  and to_items :: "json list \<Rightarrow> json list" where
  "to_any (JObj m) = JObj (to_fields m [])"
| "to_any (JArr xs) = JArr (to_items xs)"
| "to_any j = j"
| "to_fields [] acc = acc"
| "to_fields ((k, v) # m) acc = to_fields m (AList.update k (to_any v) acc)"
| "to_items [] = []"
| "to_items (x # xs) = to_any x # to_items xs"

definition to_map :: "jmap \<Rightarrow> jmap" where
  "to_map kvs = to_fields kvs []"

end
