(* ===== verification/Protocol_Errors.thy ===== *)
theory Protocol_Errors
  imports Go_Json
begin

text \<open>
  \<open>protocol/errors/errors.go\<close>: the catalogue of error codes with their category and retry
  flag, the constructor that admits catalogued codes only, and the two kinds of Go error the
  callers tell apart (a \<open>*protoerr.Error\<close> or any other error).
\<close>

section \<open>Categories and codes\<close>

text \<open>
  \<open>Category\<close> and \<open>Code\<close> are Go string types: the declared constants are constructors, any
  other string is covered by the last one.
\<close>

datatype category =
    CategoryProtocol | CategoryAuth | CategoryPermission | CategoryProject
  | CategoryWorkspace | CategoryTool | CategoryBuild | CategoryTest | CategoryGit
  | CategoryDependency | CategorySecurity | CategoryGuide | CategoryContext
  | CategoryUser | CategoryTimeout | CategorySystem
  | OtherCategory string

datatype code =
    ProtocolVersionUnsupported | InvalidRequest | InvalidArgument
  | PermissionDenied | ApprovalRequired | ApprovalRejected | ApprovalInvalid
  | ProjectNotFound
  | WorkspaceNotFound | WorkspaceFileNotFound | WorkspaceFileChanged | WorkspaceStale
  | InvalidPath | PathOutsideWorkspace | SymlinkEscape | FileTooLarge | FileHashMismatch
  | InvalidChangeSet | ChangeSetNotFound | DiffMismatch | ApplyFailed
  | ToolNotSupported
  | BuildToolNotFound | BuildFailed | TestFailed | ProcessTimeout | ProcessCancelled
  | GitNotAvailable | GitConflict | GitDirtyWorktree
  | DependencyNotFound | DependencyVulnerable | SecurityPolicyViolation
  | GuideNotFound | ContextNotFound | UserInputRequired
  | Timeout | InternalError
  | OtherCode string

fun category_text :: "category \<Rightarrow> string" where
  "category_text CategoryProtocol = ''PROTOCOL''"
| "category_text CategoryAuth = ''AUTH''"
| "category_text CategoryPermission = ''PERMISSION''"
| "category_text CategoryProject = ''PROJECT''"
| "category_text CategoryWorkspace = ''WORKSPACE''"
| "category_text CategoryTool = ''TOOL''"
| "category_text CategoryBuild = ''BUILD''"
| "category_text CategoryTest = ''TEST''"
| "category_text CategoryGit = ''GIT''"
| "category_text CategoryDependency = ''DEPENDENCY''"
| "category_text CategorySecurity = ''SECURITY''"
| "category_text CategoryGuide = ''GUIDE''"
| "category_text CategoryContext = ''CONTEXT''"
| "category_text CategoryUser = ''USER''"
| "category_text CategoryTimeout = ''TIMEOUT''"
| "category_text CategorySystem = ''SYSTEM''"
| "category_text (OtherCategory s) = s"

fun code_text :: "code \<Rightarrow> string" where
  "code_text ProtocolVersionUnsupported = ''PROTOCOL_VERSION_UNSUPPORTED''"
| "code_text InvalidRequest = ''INVALID_REQUEST''"
| "code_text InvalidArgument = ''INVALID_ARGUMENT''"
| "code_text PermissionDenied = ''PERMISSION_DENIED''"
| "code_text ApprovalRequired = ''APPROVAL_REQUIRED''"
| "code_text ApprovalRejected = ''APPROVAL_REJECTED''"
| "code_text ApprovalInvalid = ''APPROVAL_INVALID''"
| "code_text ProjectNotFound = ''PROJECT_NOT_FOUND''"
| "code_text WorkspaceNotFound = ''WORKSPACE_NOT_FOUND''"
| "code_text WorkspaceFileNotFound = ''WORKSPACE_FILE_NOT_FOUND''"
| "code_text WorkspaceFileChanged = ''WORKSPACE_FILE_CHANGED''"
| "code_text WorkspaceStale = ''WORKSPACE_STALE''"
| "code_text InvalidPath = ''INVALID_PATH''"
| "code_text PathOutsideWorkspace = ''PATH_OUTSIDE_WORKSPACE''"
| "code_text SymlinkEscape = ''SYMLINK_ESCAPE''"
| "code_text FileTooLarge = ''FILE_TOO_LARGE''"
| "code_text FileHashMismatch = ''FILE_HASH_MISMATCH''"
| "code_text InvalidChangeSet = ''INVALID_CHANGE_SET''"
| "code_text ChangeSetNotFound = ''CHANGE_SET_NOT_FOUND''"
| "code_text DiffMismatch = ''DIFF_MISMATCH''"
| "code_text ApplyFailed = ''APPLY_FAILED''"
| "code_text ToolNotSupported = ''TOOL_NOT_SUPPORTED''"
| "code_text BuildToolNotFound = ''BUILD_TOOL_NOT_FOUND''"
| "code_text BuildFailed = ''BUILD_FAILED''"
| "code_text TestFailed = ''TEST_FAILED''"
| "code_text ProcessTimeout = ''PROCESS_TIMEOUT''"
| "code_text ProcessCancelled = ''PROCESS_CANCELLED''"
| "code_text GitNotAvailable = ''GIT_NOT_AVAILABLE''"
| "code_text GitConflict = ''GIT_CONFLICT''"
| "code_text GitDirtyWorktree = ''GIT_DIRTY_WORKTREE''"
| "code_text DependencyNotFound = ''DEPENDENCY_NOT_FOUND''"
| "code_text DependencyVulnerable = ''DEPENDENCY_VULNERABLE''"
| "code_text SecurityPolicyViolation = ''SECURITY_POLICY_VIOLATION''"
| "code_text GuideNotFound = ''GUIDE_NOT_FOUND''"
| "code_text ContextNotFound = ''CONTEXT_NOT_FOUND''"
| "code_text UserInputRequired = ''USER_INPUT_REQUIRED''"
| "code_text Timeout = ''TIMEOUT''"
| "code_text InternalError = ''INTERNAL_ERROR''"
| "code_text (OtherCode s) = s"

section \<open>The catalogue\<close>

record meta =
  meta_category :: category
  meta_retryable :: bool

fun catalog :: "code \<Rightarrow> meta option" where
  "catalog ProtocolVersionUnsupported = Some \<lparr>meta_category = CategoryProtocol, meta_retryable = False\<rparr>"
| "catalog InvalidRequest = Some \<lparr>meta_category = CategoryProtocol, meta_retryable = False\<rparr>"
| "catalog InvalidArgument = Some \<lparr>meta_category = CategoryProtocol, meta_retryable = False\<rparr>"
| "catalog PermissionDenied = Some \<lparr>meta_category = CategoryPermission, meta_retryable = False\<rparr>"
| "catalog ApprovalRequired = Some \<lparr>meta_category = CategoryPermission, meta_retryable = False\<rparr>"
| "catalog ApprovalRejected = Some \<lparr>meta_category = CategoryPermission, meta_retryable = False\<rparr>"
| "catalog ApprovalInvalid = Some \<lparr>meta_category = CategoryPermission, meta_retryable = False\<rparr>"
| "catalog ProjectNotFound = Some \<lparr>meta_category = CategoryProject, meta_retryable = False\<rparr>"
| "catalog WorkspaceNotFound = Some \<lparr>meta_category = CategoryWorkspace, meta_retryable = False\<rparr>"
| "catalog WorkspaceFileNotFound = Some \<lparr>meta_category = CategoryWorkspace, meta_retryable = False\<rparr>"
| "catalog WorkspaceFileChanged = Some \<lparr>meta_category = CategoryWorkspace, meta_retryable = False\<rparr>"
| "catalog WorkspaceStale = Some \<lparr>meta_category = CategoryWorkspace, meta_retryable = False\<rparr>"
| "catalog InvalidPath = Some \<lparr>meta_category = CategoryWorkspace, meta_retryable = False\<rparr>"
| "catalog PathOutsideWorkspace = Some \<lparr>meta_category = CategoryWorkspace, meta_retryable = False\<rparr>"
| "catalog SymlinkEscape = Some \<lparr>meta_category = CategoryWorkspace, meta_retryable = False\<rparr>"
| "catalog FileTooLarge = Some \<lparr>meta_category = CategoryWorkspace, meta_retryable = False\<rparr>"
| "catalog FileHashMismatch = Some \<lparr>meta_category = CategoryWorkspace, meta_retryable = False\<rparr>"
| "catalog InvalidChangeSet = Some \<lparr>meta_category = CategoryWorkspace, meta_retryable = False\<rparr>"
| "catalog ChangeSetNotFound = Some \<lparr>meta_category = CategoryWorkspace, meta_retryable = False\<rparr>"
| "catalog DiffMismatch = Some \<lparr>meta_category = CategoryWorkspace, meta_retryable = False\<rparr>"
| "catalog ApplyFailed = Some \<lparr>meta_category = CategoryWorkspace, meta_retryable = False\<rparr>"
| "catalog ToolNotSupported = Some \<lparr>meta_category = CategoryTool, meta_retryable = False\<rparr>"
| "catalog BuildToolNotFound = Some \<lparr>meta_category = CategoryBuild, meta_retryable = False\<rparr>"
| "catalog BuildFailed = Some \<lparr>meta_category = CategoryBuild, meta_retryable = False\<rparr>"
| "catalog TestFailed = Some \<lparr>meta_category = CategoryTest, meta_retryable = False\<rparr>"
| "catalog ProcessTimeout = Some \<lparr>meta_category = CategoryTimeout, meta_retryable = True\<rparr>"
| "catalog ProcessCancelled = Some \<lparr>meta_category = CategoryTool, meta_retryable = False\<rparr>"
| "catalog GitNotAvailable = Some \<lparr>meta_category = CategoryGit, meta_retryable = False\<rparr>"
| "catalog GitConflict = Some \<lparr>meta_category = CategoryGit, meta_retryable = False\<rparr>"
| "catalog GitDirtyWorktree = Some \<lparr>meta_category = CategoryGit, meta_retryable = False\<rparr>"
| "catalog DependencyNotFound = Some \<lparr>meta_category = CategoryDependency, meta_retryable = False\<rparr>"
| "catalog DependencyVulnerable = Some \<lparr>meta_category = CategorySecurity, meta_retryable = False\<rparr>"
| "catalog SecurityPolicyViolation = Some \<lparr>meta_category = CategorySecurity, meta_retryable = False\<rparr>"
| "catalog GuideNotFound = Some \<lparr>meta_category = CategoryGuide, meta_retryable = False\<rparr>"
| "catalog ContextNotFound = Some \<lparr>meta_category = CategoryContext, meta_retryable = False\<rparr>"
| "catalog UserInputRequired = Some \<lparr>meta_category = CategoryUser, meta_retryable = False\<rparr>"
| "catalog Timeout = Some \<lparr>meta_category = CategoryTimeout, meta_retryable = True\<rparr>"
| "catalog InternalError = Some \<lparr>meta_category = CategorySystem, meta_retryable = False\<rparr>"
| "catalog (OtherCode _) = None"

definition known_code :: "code \<Rightarrow> bool" where
  "known_code c = (catalog c \<noteq> None)"

definition codes :: "code list" where
  "codes = filter known_code
     [ProtocolVersionUnsupported, InvalidRequest, InvalidArgument, PermissionDenied,
      ApprovalRequired, ApprovalRejected, ApprovalInvalid, ProjectNotFound, WorkspaceNotFound,
      WorkspaceFileNotFound, WorkspaceFileChanged, WorkspaceStale, InvalidPath,
      PathOutsideWorkspace, SymlinkEscape, FileTooLarge, FileHashMismatch, InvalidChangeSet,
      ChangeSetNotFound, DiffMismatch, ApplyFailed, ToolNotSupported, BuildToolNotFound,
      BuildFailed, TestFailed, ProcessTimeout, ProcessCancelled, GitNotAvailable, GitConflict,
      GitDirtyWorktree, DependencyNotFound, DependencyVulnerable, SecurityPolicyViolation,
      GuideNotFound, ContextNotFound, UserInputRequired, Timeout, InternalError]"

definition code_of_text :: "string \<Rightarrow> code" where
  "code_of_text s = (case find (\<lambda>c. code_text c = s) codes of Some c \<Rightarrow> c | None \<Rightarrow> OtherCode s)"

definition category_of :: "code \<Rightarrow> category \<times> bool" where
  "category_of c =
     (case catalog c of Some m \<Rightarrow> (meta_category m, True) | None \<Rightarrow> (OtherCategory [], False))"

definition retryable_code :: "code \<Rightarrow> bool" where
  "retryable_code c = (case catalog c of Some m \<Rightarrow> meta_retryable m | None \<Rightarrow> False)"

section \<open>Errors\<close>

record proto_error =
  err_code :: code
  err_category :: category
  err_message :: string
  err_retryable :: bool
  err_details :: "jmap option"

text \<open>
  The \<open>%q\<close> verb on the strings that occur in messages: quotes, backslashes and control bytes
  are escaped; bytes of printable non-ASCII runes stay.
\<close>

definition quote_char :: "char \<Rightarrow> string" where
  "quote_char c =
     (if c = CHR 0x22 then [CHR 0x5C, CHR 0x22]
      else if c = CHR 0x5C then [CHR 0x5C, CHR 0x5C]
      else if c = CHR 0x0A then [CHR 0x5C, CHR ''n'']
      else if c = CHR 0x0D then [CHR 0x5C, CHR ''r'']
      else if c = CHR 0x09 then [CHR 0x5C, CHR ''t'']
      else if c = CHR 0x07 then [CHR 0x5C, CHR ''a'']
      else if c = CHR 0x08 then [CHR 0x5C, CHR ''b'']
      else if c = CHR 0x0B then [CHR 0x5C, CHR ''v'']
      else if c = CHR 0x0C then [CHR 0x5C, CHR ''f'']
      else if byte c < (0x20 :: nat) \<or> c = CHR 0x7F
        then [CHR 0x5C, CHR ''x'', hex_digit (byte c div 16), hex_digit (byte c mod 16)]
      else [c])"

definition go_quote :: "string \<Rightarrow> string" where
  "go_quote s = CHR 0x22 # concat (map quote_char s) @ [CHR 0x22]"

definition new_error :: "code \<Rightarrow> string \<Rightarrow> string + proto_error" where
  "new_error c message =
     (case catalog c of
        None \<Rightarrow> Inl (''unknown error code '' @ go_quote (code_text c))
      | Some m \<Rightarrow>
          let message = (if message = [] then code_text c else message) in
          Inr \<lparr>err_code = c, err_category = meta_category m, err_message = message,
               err_retryable = meta_retryable m, err_details = None\<rparr>)"

definition error_string :: "proto_error \<Rightarrow> string" where
  "error_string e = code_text (err_code e) @ '': '' @ err_message e"

text \<open>A Go \<open>error\<close>: a protocol error, or any other one, of which callers see its text.\<close>

datatype go_error = ProtoError proto_error | PlainError string

fun error_text :: "go_error \<Rightarrow> string" where
  "error_text (ProtoError e) = error_string e"
| "error_text (PlainError s) = s"

fun error_code :: "go_error \<Rightarrow> code option" where
  "error_code (ProtoError e) = Some (err_code e)"
| "error_code (PlainError _) = None"

text \<open>
  The helpers \<open>mustErr\<close> and \<open>wrap\<close> that the agent's packages declare on top of \<open>New\<close>
  (\<open>workspace.go\<close>, \<open>approval.go\<close>, \<open>git.go\<close>, \<open>maven.go\<close>, \<open>idesession/apply.go\<close>).
\<close>

definition must_err :: "code \<Rightarrow> string \<Rightarrow> go_error" where
  "must_err c msg = (case new_error c msg of Inl e \<Rightarrow> PlainError e | Inr e \<Rightarrow> ProtoError e)"

definition wrap_err :: "code \<Rightarrow> string \<Rightarrow> string \<Rightarrow> go_error" where
  "wrap_err c msg err =
     (case new_error c (msg @ '': '' @ err) of Inl e \<Rightarrow> PlainError e | Inr e \<Rightarrow> ProtoError e)"

lemma known_code_iff: "known_code c \<longleftrightarrow> c \<in> set codes"
  by (cases c) (simp_all add: known_code_def codes_def)

lemma error_code_must_err [err_simps, simp]: "known_code c \<Longrightarrow> error_code (must_err c m) = Some c"
  by (auto simp: must_err_def new_error_def known_code_def Let_def)

lemma error_code_wrap_err [err_simps, simp]: "known_code c \<Longrightarrow> error_code (wrap_err c m e) = Some c"
  by (auto simp: wrap_err_def new_error_def known_code_def Let_def)

lemma known_code_simps [simp]:
  "known_code c \<longleftrightarrow> (\<forall>s. c \<noteq> OtherCode s)"
  by (cases c) (simp_all add: known_code_def)

end
