(* ===== verification/Go_Files.thy ===== *)
theory Go_Files
  imports Protocol_Errors
begin

text \<open>
  Go's \<open>path/filepath\<close> on Unix and the operating system calls of package \<open>os\<close> that the
  repository makes. A cleaned absolute path is the list of its names (the root directory is
  the empty list); relative paths are strings. The file system maps paths to nodes: a
  directory, a file with content and permission bits, or a symbolic link (its target split
  into names, absolute or relative). Name resolution follows links as the kernel does, up
  to its limit. Calls that change the file system may be refused or, for a write, stop half
  way, by a schedule of faults that is part of the operating system state: one schedule for
  ordinary calls and one for the calls of a rollback.

  Not modelled: permission checks, hard links, limits on name length, concurrent changes by
  other processes.
\<close>

section \<open>Lexical paths\<close>

type_synonym path = "string list"

text \<open>\<open>filepath.Clean\<close> over the names between slashes; the stack is reversed.\<close>

fun clean_names :: "bool \<Rightarrow> path \<Rightarrow> string list \<Rightarrow> path" where
  "clean_names rooted st [] = rev st"
| "clean_names rooted st (c # cs) =
     (if c = [] \<or> c = ''.'' then clean_names rooted st cs
      else if c = ''..'' then
        (case st of
           [] \<Rightarrow> if rooted then clean_names rooted [] cs else clean_names rooted [''..''] cs
         | t # st' \<Rightarrow> if t = ''..'' then clean_names rooted (''..'' # st) cs
                     else clean_names rooted st' cs)
      else clean_names rooted (c # st) cs)"

definition is_abs :: "string \<Rightarrow> bool" where
  "is_abs s = has_prefix s ''/''"

definition clean :: "string \<Rightarrow> string" where
  "clean s =
     (if s = [] then ''.''
      else
        let names = clean_names (is_abs s) [] (split_on slash s) in
        if is_abs s then slash # join_with slash names
        else if names = [] then ''.'' else join_with slash names)"

text \<open>\<open>filepath.Join(p, s)\<close> for an absolute cleaned \<open>p\<close>; \<open>filepath.Dir\<close> and \<open>Base\<close>.\<close>

definition join_path :: "path \<Rightarrow> string \<Rightarrow> path" where
  "join_path p s = clean_names True (rev p) (split_on slash s)"

definition dir_path :: "path \<Rightarrow> path" where
  "dir_path p = butlast p"

definition base_name :: "path \<Rightarrow> string" where
  "base_name p = (if p = [] then ''/'' else last p)"

definition path_string :: "path \<Rightarrow> string" where
  "path_string p = slash # join_with slash p"

text \<open>\<open>filepath.Rel\<close> for two absolute cleaned paths, as a list of names.\<close>

fun rel_names :: "path \<Rightarrow> path \<Rightarrow> string list" where
  "rel_names [] cand = cand"
| "rel_names (r # rs) [] = replicate (Suc (length rs)) ''..''"
| "rel_names (r # rs) (c # cs) =
     (if r = c then rel_names rs cs else replicate (Suc (length rs)) ''..'' @ c # cs)"

section \<open>The file system\<close>

type_synonym perm = "9 word"

datatype node =
    Dir
  | File string perm
  | Link bool "string list"

type_synonym fs = "(path \<times> node) list"

definition node_at :: "fs \<Rightarrow> path \<Rightarrow> node option" where
  "node_at fs p = (if p = [] then Some Dir else map_of fs p)"

datatype errno = ENOENT | ENOTDIR | EISDIR | EEXIST | ENOTEMPTY | ELOOP | EINVAL | EBUSY | EIO

fun errno_text :: "errno \<Rightarrow> string" where
  "errno_text ENOENT = ''no such file or directory''"
| "errno_text ENOTDIR = ''not a directory''"
| "errno_text EISDIR = ''is a directory''"
| "errno_text EEXIST = ''file exists''"
| "errno_text ENOTEMPTY = ''directory not empty''"
| "errno_text ELOOP = ''too many levels of symbolic links''"
| "errno_text EINVAL = ''invalid argument''"
| "errno_text EBUSY = ''device or resource busy''"
| "errno_text EIO = ''input/output error''"

text \<open>The text of a \<open>*PathError\<close>.\<close>

definition path_error :: "string \<Rightarrow> path \<Rightarrow> errno \<Rightarrow> string" where
  "path_error call p e = call @ '' '' @ path_string p @ '': '' @ errno_text e"

text \<open>
  Name resolution from directory \<open>dest\<close> (already resolved) along the names left, with a
  budget of links. The result is the resolved path and its node, \<open>None\<close> when only the last
  name is missing. \<open>follow\<close> says whether a link in last position is followed.
\<close>

function walk :: "fs \<Rightarrow> bool \<Rightarrow> nat \<Rightarrow> path \<Rightarrow> string list \<Rightarrow> errno + path \<times> node option" where
  "walk fs follow n dest [] = Inr (dest, node_at fs dest)"
| "walk fs follow n dest (c # cs) =
     (if c = ''.'' then walk fs follow n dest cs
      else if c = ''..'' then walk fs follow n (butlast dest) cs
      else
        let p = dest @ [c] in
        case node_at fs p of
          None \<Rightarrow> if cs = [] then Inr (p, None) else Inl ENOENT
        | Some Dir \<Rightarrow> walk fs follow n p cs
        | Some (File d m) \<Rightarrow> if cs = [] then Inr (p, Some (File d m)) else Inl ENOTDIR
        | Some (Link ab t) \<Rightarrow>
            if cs = [] \<and> \<not> follow then Inr (p, Some (Link ab t))
            else (case n of
                0 \<Rightarrow> Inl ELOOP
              | Suc k \<Rightarrow> walk fs follow k (if ab then [] else dest) (t @ cs)))"
  by pat_completeness auto
termination
  by (relation "measures [\<lambda>(fs, f, n, d, cs). n, \<lambda>(fs, f, n, d, cs). length cs]") auto

definition kernel_links :: nat where
  "kernel_links = 40"

definition eval_links :: nat where
  "eval_links = 255"

definition has_nul :: "path \<Rightarrow> bool" where
  "has_nul p = list_ex (\<lambda>c. CHR 0x00 \<in> set c) p"

definition lstat :: "fs \<Rightarrow> path \<Rightarrow> errno + node" where
  "lstat fs p =
     (if has_nul p then Inl EINVAL
      else case walk fs False kernel_links [] p of
        Inl e \<Rightarrow> Inl e
      | Inr (_, None) \<Rightarrow> Inl ENOENT
      | Inr (_, Some nd) \<Rightarrow> Inr nd)"

definition stat :: "fs \<Rightarrow> path \<Rightarrow> errno + node" where
  "stat fs p =
     (if has_nul p then Inl EINVAL
      else case walk fs True kernel_links [] p of
        Inl e \<Rightarrow> Inl e
      | Inr (_, None) \<Rightarrow> Inl ENOENT
      | Inr (_, Some nd) \<Rightarrow> Inr nd)"

definition eval_symlinks :: "fs \<Rightarrow> path \<Rightarrow> errno + path" where
  "eval_symlinks fs p =
     (if has_nul p then Inl EINVAL
      else case walk fs True eval_links [] p of
        Inl e \<Rightarrow> Inl e
      | Inr (_, None) \<Rightarrow> Inl ENOENT
      | Inr (q, Some _) \<Rightarrow> Inr q)"

definition read_content :: "fs \<Rightarrow> path \<Rightarrow> errno + string" where
  "read_content fs p =
     (case stat fs p of
        Inl e \<Rightarrow> Inl e
      | Inr (File d m) \<Rightarrow> Inr d
      | Inr _ \<Rightarrow> Inl EISDIR)"

section \<open>Calls that change the file system\<close>

datatype fault = Pass | Refuse | Partial nat

record os =
  files :: fs
  umask :: perm
  faults :: "fault list"
  undo_faults :: "fault list"

definition next_fault :: "os \<Rightarrow> fault \<times> os" where
  "next_fault os =
     (case faults os of [] \<Rightarrow> (Pass, os) | f # fl \<Rightarrow> (f, os\<lparr>faults := fl\<rparr>))"

definition fs_put :: "path \<Rightarrow> node \<Rightarrow> os \<Rightarrow> os" where
  "fs_put p nd os = os\<lparr>files := AList.update p nd (files os)\<rparr>"

definition fs_del :: "path \<Rightarrow> os \<Rightarrow> os" where
  "fs_del p os = os\<lparr>files := AList.delete p (files os)\<rparr>"

text \<open>\<open>os.ReadFile\<close> while applying: a read may be refused as well.\<close>

definition read_file :: "os \<Rightarrow> path \<Rightarrow> os \<times> (errno + string)" where
  "read_file os0 p =
     (let (f, os) = next_fault os0 in
      if f \<noteq> Pass then (os, Inl EIO) else (os, read_content (files os) p))"

text \<open>
  \<open>os.WriteFile\<close>: opens through links, creates or truncates, keeps the permission bits of an
  existing file. A partial write leaves a prefix of the data.
\<close>

definition write_file :: "os \<Rightarrow> path \<Rightarrow> string \<Rightarrow> perm \<Rightarrow> os \<times> errno option" where
  "write_file os0 p data mode =
     (let (f, os) = next_fault os0 in
      if has_nul p then (os, Some EINVAL)
      else if f = Refuse then (os, Some EIO)
      else case walk (files os) True kernel_links [] p of
        Inl e \<Rightarrow> (os, Some e)
      | Inr (q, Some Dir) \<Rightarrow> (os, Some EISDIR)
      | Inr (q, Some (Link _ _)) \<Rightarrow> (os, Some ELOOP)
      | Inr (q, nd) \<Rightarrow>
          let m = (case nd of Some (File _ m) \<Rightarrow> m | _ \<Rightarrow> mode AND NOT (umask os)) in
          (case f of
             Partial k \<Rightarrow> (fs_put q (File (take k data) m) os, Some EIO)
           | _ \<Rightarrow> (fs_put q (File data m) os, None)))"

definition has_children :: "fs \<Rightarrow> path \<Rightarrow> bool" where
  "has_children fs p = list_ex (\<lambda>(q, _). q \<noteq> [] \<and> butlast q = p) fs"

text \<open>\<open>os.Remove\<close>: a file, a link (not its target) or an empty directory.\<close>

definition remove_path :: "os \<Rightarrow> path \<Rightarrow> os \<times> errno option" where
  "remove_path os0 p =
     (let (f, os) = next_fault os0 in
      if has_nul p then (os, Some EINVAL)
      else if f \<noteq> Pass then (os, Some EIO)
      else case walk (files os) False kernel_links [] p of
        Inl e \<Rightarrow> (os, Some e)
      | Inr (q, None) \<Rightarrow> (os, Some ENOENT)
      | Inr (q, Some Dir) \<Rightarrow>
          if q = [] then (os, Some EBUSY)
          else if has_children (files os) q then (os, Some ENOTEMPTY)
          else (fs_del q os, None)
      | Inr (q, Some _) \<Rightarrow> (fs_del q os, None))"

text \<open>
  \<open>os.Rename\<close> of a file or link: an existing directory in the way is refused, an existing
  file is replaced. (Renaming a directory does not occur in the code.)
\<close>

definition rename_path :: "os \<Rightarrow> path \<Rightarrow> path \<Rightarrow> os \<times> errno option" where
  "rename_path os0 p p' =
     (let (f, os) = next_fault os0 in
      if has_nul p \<or> has_nul p' then (os, Some EINVAL)
      else if f \<noteq> Pass then (os, Some EIO)
      else case walk (files os) False kernel_links [] p of
        Inl e \<Rightarrow> (os, Some e)
      | Inr (q, None) \<Rightarrow> (os, Some ENOENT)
      | Inr (q, Some Dir) \<Rightarrow> (os, Some EISDIR)
      | Inr (q, Some nd) \<Rightarrow>
          (case walk (files os) False kernel_links [] p' of
             Inl e \<Rightarrow> (os, Some e)
           | Inr (q', Some Dir) \<Rightarrow> (os, Some EEXIST)
           | Inr (q', _) \<Rightarrow>
               if q' = q then (os, None) else (fs_put q' nd (fs_del q os), None)))"

definition make_dir :: "os \<Rightarrow> path \<Rightarrow> os \<times> errno option" where
  "make_dir os0 p =
     (let (f, os) = next_fault os0 in
      if has_nul p then (os, Some EINVAL)
      else if f \<noteq> Pass then (os, Some EIO)
      else case walk (files os) False kernel_links [] p of
        Inl e \<Rightarrow> (os, Some e)
      | Inr (q, None) \<Rightarrow> (fs_put q Dir os, None)
      | Inr (q, Some _) \<Rightarrow> (os, Some EEXIST))"

function mkdir_all :: "os \<Rightarrow> path \<Rightarrow> os \<times> errno option" where
  "mkdir_all os p =
     (case stat (files os) p of
        Inr Dir \<Rightarrow> (os, None)
      | Inr _ \<Rightarrow> (os, Some ENOTDIR)
      | Inl e \<Rightarrow>
          if p = [] then (os, Some e)
          else case mkdir_all os (butlast p) of
            (os1, Some e1) \<Rightarrow> (os1, Some e1)
          | (os1, None) \<Rightarrow>
              (case make_dir os1 p of
                 (os2, None) \<Rightarrow> (os2, None)
               | (os2, Some e2) \<Rightarrow>
                   (case lstat (files os2) p of
                      Inr Dir \<Rightarrow> (os2, None)
                    | _ \<Rightarrow> (os2, Some e2))))"
  by pat_completeness auto
termination
  by (relation "measure (\<lambda>(os, p). length p)") auto

declare mkdir_all.simps [simp del]

section \<open>Facts about lexical paths\<close>

text \<open>A name as it can stand in a cleaned absolute path.\<close>

definition proper :: "string \<Rightarrow> bool" where
  "proper c \<longleftrightarrow> c \<noteq> [] \<and> c \<noteq> ''.'' \<and> c \<noteq> ''..'' \<and> slash \<notin> set c"

abbreviation proper_path :: "path \<Rightarrow> bool" where
  "proper_path p \<equiv> list_all proper p"

text \<open>
  The stack of an unrooted path is a block of parent references under proper names; the
  stack of a rooted one has proper names only.
\<close>

definition clean_stack :: "bool \<Rightarrow> path \<Rightarrow> bool" where
  "clean_stack rooted ns \<longleftrightarrow>
     (\<exists>k ms. ns = replicate k ''..'' @ ms \<and> proper_path ms \<and> (rooted \<longrightarrow> k = 0))"

lemma clean_stack_Nil [simp]: "clean_stack r []"
  by (auto simp: clean_stack_def)

lemma clean_stack_snoc:
  "clean_stack r ns \<Longrightarrow> proper c \<Longrightarrow> clean_stack r (ns @ [c])"
proof -
  assume "clean_stack r ns" "proper c"
  then obtain k ms where "ns = replicate k ''..'' @ ms" "proper_path ms" "r \<longrightarrow> k = 0"
    by (auto simp: clean_stack_def)
  with \<open>proper c\<close> show ?thesis
    unfolding clean_stack_def by (intro exI [of _ k] exI [of _ "ms @ [c]"]) simp
qed

lemma clean_stack_up:
  "clean_stack False (ns @ [''..'']) \<Longrightarrow> clean_stack False (ns @ [''..'', ''..''])"
proof -
  assume "clean_stack False (ns @ [''..''])"
  then obtain k ms where km: "ns @ [''..''] = replicate k ''..'' @ ms" "proper_path ms"
    by (auto simp: clean_stack_def)
  have "ms = []"
  proof (rule ccontr)
    assume ms: "ms \<noteq> []"
    then have "last ms = ''..''" using km(1) by (metis last_appendR last_snoc)
    moreover have "proper (last ms)" using km(2) ms by (simp add: list_all_iff)
    ultimately show False by (simp add: proper_def)
  qed
  then have "ns @ [''..'', ''..''] = replicate (Suc k) ''..'' @ []"
    using km(1) by (metis append.assoc append_Cons append_Nil append_Nil2 replicate_append_same replicate_Suc)
  then show ?thesis
    unfolding clean_stack_def by (intro exI [of _ "Suc k"] exI [of _ "[]"]) simp
qed

lemma clean_stack_butlast: "clean_stack r (ns @ [c]) \<Longrightarrow> clean_stack r ns"
proof -
  assume "clean_stack r (ns @ [c])"
  then obtain k ms where km: "ns @ [c] = replicate k ''..'' @ ms" "proper_path ms" "r \<longrightarrow> k = 0"
    by (auto simp: clean_stack_def)
  show ?thesis
  proof (cases ms rule: rev_cases)
    case Nil
    then have "ns = replicate (k - 1) ''..'' @ []"
      using km(1) arg_cong [OF km(1), of butlast]
      by (cases k) (auto simp flip: replicate_append_same)
    with km(3) show ?thesis
      unfolding clean_stack_def by (intro exI [of _ "k - 1"] exI [of _ "[]"]) simp
  next
    case (snoc ms' x)
    with km have "ns = replicate k ''..'' @ ms'" "proper_path ms'" by auto
    with km(3) show ?thesis unfolding clean_stack_def by blast
  qed
qed

lemma clean_names_stack:
  assumes "clean_stack r (rev st)" "\<And>c. c \<in> set cs \<Longrightarrow> slash \<notin> set c"
  shows "clean_stack r (clean_names r st cs)"
  using assms
proof (induction r st cs rule: clean_names.induct)
  case (2 r st c cs)
  show ?case
  proof (cases "c = [] \<or> c = ''.''")
    case True
    with 2 show ?thesis by auto
  next
    case plain: False
    show ?thesis
    proof (cases "c = ''..''")
      case dots: True
      show ?thesis
      proof (cases st)
        case Nil
        have "clean_stack False [''..'']"
          unfolding clean_stack_def by (rule exI [of _ 1], rule exI [of _ "[]"]) simp
        with Nil dots "2.IH"(2,3) [OF plain dots Nil] "2.prems" show ?thesis by auto
      next
        case (Cons t st')
        show ?thesis
        proof (cases "t = ''..''")
          case True
          have "\<not> r"
          proof
            assume r
            then have "proper ''..''" using "2.prems"(1) Cons True
              by (auto simp: clean_stack_def list_all_iff)
            then show False by (simp add: proper_def)
          qed
          then have "clean_stack r (rev (''..'' # st))"
            using clean_stack_up [of "rev st'"] "2.prems"(1) Cons True by simp
          with 2 Cons dots True show ?thesis by auto
        next
          case False
          have "clean_stack r (rev st')"
            using clean_stack_butlast "2.prems"(1) Cons by simp
          with 2 Cons dots False show ?thesis by auto
        qed
      qed
    next
      case False
      with plain have "proper c" using "2.prems"(2) by (simp add: proper_def)
      then have "clean_stack r (rev (c # st))"
        using clean_stack_snoc "2.prems"(1) by simp
      with 2 plain False show ?thesis by auto
    qed
  qed
qed simp

lemma clean_names_append_proper:
  "proper_path ms \<Longrightarrow> clean_names r st ms = rev st @ ms"
  by (induction ms arbitrary: st) (auto simp: proper_def)

lemma clean_stack_rooted: "clean_stack True ns \<longleftrightarrow> proper_path ns"
  by (auto simp: clean_stack_def)

lemma join_path_proper: "proper_path p \<Longrightarrow> proper_path (join_path p s)"
  unfolding join_path_def
  by (subst clean_stack_rooted [symmetric], rule clean_names_stack)
    (auto simp: clean_stack_rooted dest: split_on_no_sep)

lemma clean_stack_no_escape:
  assumes "clean_stack False ns" "ns \<noteq> []" "hd ns \<noteq> ''..''"
  shows "proper_path ns"
proof -
  obtain k ms where "ns = replicate k ''..'' @ ms" "proper_path ms"
    using assms(1) by (auto simp: clean_stack_def)
  with assms(2,3) show ?thesis by (cases k) auto
qed

lemma proper_path_split_join:
  "proper_path ns \<Longrightarrow> ns \<noteq> [] \<Longrightarrow> split_on slash (join_with slash ns) = ns"
  by (rule split_join) (auto simp: list_all_iff proper_def)

lemma rel_names_prefix: "rel_names p (p @ q) = q"
  by (induction p) auto

lemma rel_names_escape:
  "\<not> prefix p q \<Longrightarrow> rel_names p q \<noteq> [] \<and> hd (rel_names p q) = ''..''"
  by (induction p q rule: rel_names.induct) auto

section \<open>Facts about nodes\<close>

lemma node_at_Nil [simp]: "node_at fs [] = Some Dir"
  by (simp add: node_at_def)

lemma node_at_put [fs_simps]:
  "p \<noteq> [] \<Longrightarrow> node_at (files (fs_put p nd os)) q = (if q = p then Some nd else node_at (files os) q)"
  by (auto simp: node_at_def fs_put_def update_conv')

lemma node_at_del [fs_simps]:
  "p \<noteq> [] \<Longrightarrow> node_at (files (fs_del p os)) q = (if q = p then None else node_at (files os) q)"
  by (auto simp: node_at_def fs_del_def delete_conv')

lemma has_children_iff: "has_children fs p \<longleftrightarrow> (\<exists>c. node_at fs (p @ [c]) \<noteq> None)"
proof
  assume "has_children fs p"
  then obtain q nd where "(q, nd) \<in> set fs" "q \<noteq> []" "butlast q = p"
    by (auto simp: has_children_def list_ex_iff)
  then show "\<exists>c. node_at fs (p @ [c]) \<noteq> None"
    by (metis append_butlast_last_id fst_conv image_eqI map_of_None_iff node_at_def)
next
  assume "\<exists>c. node_at fs (p @ [c]) \<noteq> None"
  then obtain c nd where "map_of fs (p @ [c]) = Some nd"
    by (auto simp: node_at_def)
  then have "(p @ [c], nd) \<in> set fs" by (rule map_of_SomeD)
  then show "has_children fs p" by (force simp: has_children_def list_ex_iff)
qed

text \<open>
  Well-formed file systems: names are proper and the parent of every node is a directory.
  The executable form is for concrete file systems.
\<close>

definition fs_wf :: "fs \<Rightarrow> bool" where
  "fs_wf fs \<longleftrightarrow>
     (\<forall>p. p \<noteq> [] \<longrightarrow> node_at fs p \<noteq> None \<longrightarrow>
        node_at fs (butlast p) = Some Dir \<and> proper_path p \<and> \<not> has_nul p)"

definition fs_ok :: "fs \<Rightarrow> bool" where
  "fs_ok fs =
     list_all (\<lambda>(p, _). p = [] \<or> (node_at fs (butlast p) = Some Dir \<and> proper_path p \<and> \<not> has_nul p)) fs"

lemma fs_wf_proper: "fs_wf fs \<Longrightarrow> node_at fs p = Some nd \<Longrightarrow> proper_path p \<and> \<not> has_nul p"
  by (cases "p = []") (auto simp: fs_wf_def has_nul_def)

lemma fs_ok_wf: "fs_ok fs \<Longrightarrow> fs_wf fs"
  unfolding fs_wf_def fs_ok_def list_all_iff
  by (fastforce simp: node_at_def dest!: map_of_SomeD split: if_splits)

lemma fs_wfD: "fs_wf fs \<Longrightarrow> p \<noteq> [] \<Longrightarrow> node_at fs p = Some nd \<Longrightarrow> node_at fs (butlast p) = Some Dir"
  by (auto simp: fs_wf_def)

lemma fs_wf_prefix:
  assumes "fs_wf fs" "strict_prefix q p" "node_at fs p \<noteq> None"
  shows "node_at fs q = Some Dir"
proof -
  obtain r where "p = q @ r" "r \<noteq> []" using assms(2) by (auto simp: strict_prefix_def prefix_def)
  then show ?thesis using assms(3)
  proof (induction r arbitrary: p rule: rev_induct)
    case (snoc x r)
    have "butlast p = q @ r" "p \<noteq> []" using snoc.prems(1) by (simp_all add: butlast_append)
    then have parent: "node_at fs (q @ r) = Some Dir"
      using assms(1) snoc.prems(3) unfolding fs_wf_def by metis
    show ?case
    proof (cases "r = []")
      case True
      with parent show ?thesis by simp
    next
      case False
      with snoc.IH [of "q @ r"] parent show ?thesis by simp
    qed
  qed simp
qed

lemma fs_wf_absent:
  "fs_wf fs \<Longrightarrow> node_at fs q = None \<Longrightarrow> prefix q p \<Longrightarrow> node_at fs p = None"
  by (metis fs_wf_prefix option.distinct(1) prefix_order.dual_order.not_eq_order_implies_strict)

section \<open>Facts about name resolution\<close>

text \<open>
  A path is plain when no strict prefix of it is a link or a file: resolving it touches
  nothing else.
\<close>

definition plain_path :: "fs \<Rightarrow> path \<Rightarrow> bool" where
  "plain_path fs p \<longleftrightarrow>
     (\<forall>q. strict_prefix q p \<longrightarrow> node_at fs q = Some Dir \<or> node_at fs q = None)"

text \<open>A real path: its strict prefixes are directories.\<close>

definition real_path :: "fs \<Rightarrow> path \<Rightarrow> bool" where
  "real_path fs p \<longleftrightarrow> (\<forall>q. strict_prefix q p \<longrightarrow> node_at fs q = Some Dir)"

lemma real_path_Nil [simp]: "real_path fs []"
  by (simp add: real_path_def)

lemma real_path_snoc:
  "real_path fs (p @ [c]) \<longleftrightarrow> real_path fs p \<and> node_at fs p = Some Dir"
  by (auto simp: real_path_def strict_prefix_snoc prefix_order.le_less)

lemma real_path_butlast:
  "real_path fs p \<Longrightarrow> real_path fs (butlast p) \<and> node_at fs (butlast p) = Some Dir"
  by (cases p rule: rev_cases) (auto simp: real_path_snoc)

lemma walk_result:
  assumes "walk fs follow n dest cs = Inr (q, nd)" "real_path fs dest" "node_at fs dest = Some Dir"
  shows "nd = node_at fs q \<and> real_path fs q \<and> (follow \<longrightarrow> (\<forall>ab t. nd \<noteq> Some (Link ab t)))"
  using assms
proof (induction fs follow n dest cs rule: walk.induct)
  case (2 fs follow n dest c cs)
  let ?p = "dest @ [c]"
  have up: "real_path fs (butlast dest)" "node_at fs (butlast dest) = Some Dir"
    using real_path_butlast "2.prems"(2,3) by (metis butlast.simps(1) node_at_Nil)+
  have down: "real_path fs ?p" using "2.prems"(2,3) by (simp add: real_path_snoc)
  show ?case
  proof (cases "c = ''.'' \<or> c = ''..''")
    case True
    with 2 up show ?thesis by auto
  next
    case False
    show ?thesis
    proof (cases "node_at fs ?p")
      case None
      with "2.prems" False down show ?thesis by (auto split: if_splits)
    next
      case (Some nd')
      show ?thesis
      proof (cases nd')
        case Dir
        with 2 Some False down show ?thesis by auto
      next
        case (File d m)
        with "2.prems" Some False down show ?thesis by (auto split: if_splits)
      next
        case (Link ab t)
        show ?thesis
        proof (cases "cs = [] \<and> \<not> follow")
          case True
          with "2.prems" Some Link False down show ?thesis by auto
        next
          case F: False
          then obtain k where k: "n = Suc k"
            "walk fs follow k (if ab then [] else dest) (t @ cs) = Inr (q, nd)"
            using "2.prems"(1) Some Link False by (auto split: nat.splits)
          have "real_path fs (if ab then [] else dest)" "node_at fs (if ab then [] else dest) = Some Dir"
            using "2.prems" by auto
          with "2.IH"(4) False refl Some Link F k show ?thesis by blast
        qed
      qed
    qed
  qed
qed auto

lemma walk_real:
  assumes "real_path fs (dest @ cs)" "proper_path cs"
    "\<not> follow \<or> (\<forall>ab t. node_at fs (dest @ cs) \<noteq> Some (Link ab t))"
    "cs = [] \<longrightarrow> node_at fs dest = Some Dir"
  shows "walk fs follow n dest cs = Inr (dest @ cs, node_at fs (dest @ cs))"
  using assms
proof (induction cs arbitrary: dest)
  case (Cons c cs)
  have c: "c \<noteq> ''.''" "c \<noteq> ''..''" using Cons.prems(2) by (auto simp: proper_def)
  show ?case
  proof (cases "cs = []")
    case True
    with Cons.prems c show ?thesis by (auto simp: Let_def split: option.splits node.splits)
  next
    case False
    then have "strict_prefix (dest @ [c]) (dest @ c # cs)"
      by (simp add: strict_prefix_def)
    then have "node_at fs (dest @ [c]) = Some Dir"
      using Cons.prems(1) by (simp add: real_path_def)
    with Cons.IH [of "dest @ [c]"] Cons.prems False c show ?thesis by (simp add: Let_def)
  qed
qed simp

lemma walk_real0:
  assumes "real_path fs p" "proper_path p" "\<not> follow \<or> (\<forall>ab t. node_at fs p \<noteq> Some (Link ab t))"
  shows "walk fs follow n [] p = Inr (p, node_at fs p)"
  using walk_real [of fs "[]" p follow n] assms by simp

lemma walk_snoc:
  assumes "walk fs True N dest cs = Inr (ev, nd)" "walk fs follow n dest (cs @ [m]) = R"
    "R \<noteq> Inl ELOOP" "node_at fs dest = Some Dir" "real_path fs dest"
  shows "(nd = Some Dir \<and> (\<exists>k. walk fs follow k ev [m] = R)) \<or> (R = Inl ENOENT \<and> nd = None)
    \<or> (R = Inl ENOTDIR \<and> (\<exists>d p. nd = Some (File d p)))"
  using assms
proof (induction fs "True" N dest cs arbitrary: n rule: walk.induct)
  case (2 fs N dest c cs)
  let ?p = "dest @ [c]"
  have up: "real_path fs (butlast dest)" "node_at fs (butlast dest) = Some Dir"
    using real_path_butlast "2.prems"(4,5) by (metis butlast.simps(1) node_at_Nil)+
  have down: "real_path fs ?p" using "2.prems"(4,5) by (simp add: real_path_snoc)
  show ?case
  proof (cases "c = ''.'' \<or> c = ''..''")
    case True
    show ?thesis
    proof (cases "c = ''.''")
      case dot: True
      have "walk fs True N dest cs = Inr (ev, nd)" "walk fs follow n dest (cs @ [m]) = R"
        using "2.prems"(1,2) dot by simp_all
      then show ?thesis using "2.hyps"(1) [OF dot] "2.prems"(3,4,5) by metis
    next
      case False
      with True have dots: "c = ''..''" by blast
      have "walk fs True N (butlast dest) cs = Inr (ev, nd)"
        "walk fs follow n (butlast dest) (cs @ [m]) = R"
        using "2.prems"(1,2) dots by simp_all
      then show ?thesis using "2.hyps"(2) [OF False dots] "2.prems"(3) up by metis
    qed
  next
    case names: False
    show ?thesis
    proof (cases "node_at fs ?p")
      case None
      with "2.prems" names show ?thesis by (auto simp: Let_def split: if_splits)
    next
      case (Some nd')
      show ?thesis
      proof (cases nd')
        case Dir
        with 2 Some names down show ?thesis by (auto simp: Let_def)
      next
        case (File d pm)
        then have "R = Inl ENOTDIR" "nd = Some (File d pm)"
          using "2.prems"(1,2) Some names by (auto simp: Let_def split: if_splits)
        then show ?thesis by blast
      next
        case (Link ab t)
        then obtain N' where N': "N = Suc N'"
          "walk fs True N' (if ab then [] else dest) (t @ cs) = Inr (ev, nd)"
          using "2.prems"(1) Some names by (auto simp: Let_def split: nat.splits)
        have follow: "walk fs follow n dest ((c # cs) @ [m]) =
            (case n of 0 \<Rightarrow> Inl ELOOP
             | Suc k \<Rightarrow> walk fs follow k (if ab then [] else dest) ((t @ cs) @ [m]))"
          using Some Link names by (auto simp: Let_def split: nat.splits)
        then obtain k where k: "walk fs follow k (if ab then [] else dest) ((t @ cs) @ [m]) = R"
          using "2.prems"(2,3) by (auto split: nat.splits)
        have "node_at fs (if ab then [] else dest) = Some Dir" "real_path fs (if ab then [] else dest)"
          using "2.prems"(4,5) by auto
        with "2.hyps"(4) [OF _ _ refl Some Link _ N'(1) N'(2) k "2.prems"(3)] names show ?thesis by auto
      qed
    qed
  qed
qed auto

lemma walk_plain:
  assumes "plain_path fs p" "proper_path p" "fs_wf fs"
    "\<not> follow \<or> (\<forall>ab t. node_at fs p \<noteq> Some (Link ab t))"
  shows "walk fs follow n [] p =
    (if p \<noteq> [] \<and> node_at fs (butlast p) = None then Inl ENOENT else Inr (p, node_at fs p))"
proof (cases "p = [] \<or> node_at fs (butlast p) \<noteq> None")
  case True
  have "real_path fs p"
  proof (cases "p = []")
    case False
    with True have b: "node_at fs (butlast p) \<noteq> None" by simp
    have "strict_prefix (butlast p) p" using False by (simp add: strict_prefix_butlast)
    with b assms(1) have "node_at fs (butlast p) = Some Dir" by (auto simp: plain_path_def)
    then show ?thesis
      using fs_wf_prefix [OF assms(3), of _ "butlast p"] False
      by (auto simp: real_path_def strict_prefix_butlast prefix_order.le_less)
  qed simp
  with True walk_real0 [OF _ assms(2,4)] show ?thesis by auto
next
  case False
  have "walk fs follow n dest (ds @ [c]) = Inl ENOENT"
    if "dest @ ds @ [c] = p" "node_at fs dest = Some Dir" "node_at fs (dest @ ds) = None" for dest ds c
    using that
  proof (induction ds arbitrary: dest)
    case (Cons d ds)
    have "proper d" using assms(2) Cons.prems(1) by auto
    then have d: "d \<noteq> ''.''" "d \<noteq> ''..''" by (auto simp: proper_def)
    have "strict_prefix (dest @ [d]) p" using Cons.prems(1) by (auto simp: strict_prefix_def)
    then have "node_at fs (dest @ [d]) = Some Dir \<or> node_at fs (dest @ [d]) = None"
      using assms(1) by (simp add: plain_path_def)
    with Cons d show ?case by (auto simp: Let_def)
  qed simp
  from this [of "[]" "butlast p" "last p"] False show ?thesis by simp
qed

text \<open>
  The calls on a plain path: they act on the node of that very path.
\<close>

definition no_link :: "fs \<Rightarrow> path \<Rightarrow> bool" where
  "no_link fs p \<longleftrightarrow> (\<forall>ab t. node_at fs p \<noteq> Some (Link ab t))"

definition safe_path :: "fs \<Rightarrow> path \<Rightarrow> bool" where
  "safe_path fs p \<longleftrightarrow> plain_path fs p \<and> no_link fs p \<and> proper_path p \<and> \<not> has_nul p"

lemma walk_safe:
  "safe_path fs p \<Longrightarrow> fs_wf fs \<Longrightarrow> walk fs follow n [] p =
    (if p \<noteq> [] \<and> node_at fs (butlast p) = None then Inl ENOENT else Inr (p, node_at fs p))"
  by (rule walk_plain) (auto simp: safe_path_def no_link_def)

lemma safe_path_prefix:
  assumes "safe_path fs p" "prefix q p"
  shows "safe_path fs q"
proof -
  have "plain_path fs q"
    using assms by (meson plain_path_def prefix_order.less_le_trans safe_path_def)
  moreover have "no_link fs q"
  proof (cases "q = p")
    case False
    with assms(2) have "strict_prefix q p" by (simp add: strict_prefix_def)
    with assms(1) show ?thesis by (auto simp: safe_path_def plain_path_def no_link_def)
  qed (use assms in \<open>simp add: safe_path_def\<close>)
  moreover have "proper_path q" "\<not> has_nul q"
    using assms set_mono_prefix [OF assms(2)] by (auto simp: safe_path_def list_all_iff has_nul_def list_ex_iff)
  ultimately show ?thesis by (simp add: safe_path_def)
qed

lemma absent_below:
  "fs_wf fs \<Longrightarrow> p \<noteq> [] \<Longrightarrow> node_at fs (butlast p) = None \<Longrightarrow> node_at fs p = None"
  by (rule fs_wf_absent [OF _ _ butlast_prefix])

lemma stat_safe:
  assumes "safe_path fs p" "fs_wf fs"
  shows "lstat fs p = (case node_at fs p of None \<Rightarrow> Inl ENOENT | Some nd \<Rightarrow> Inr nd)"
    "stat fs p = (case node_at fs p of None \<Rightarrow> Inl ENOENT | Some nd \<Rightarrow> Inr nd)"
  using assms walk_safe [OF assms] absent_below [OF assms(2), of p]
  by (auto simp: lstat_def stat_def safe_path_def split: option.splits)

lemma read_content_safe:
  "safe_path fs p \<Longrightarrow> fs_wf fs \<Longrightarrow> read_content fs p =
    (case node_at fs p of None \<Rightarrow> Inl ENOENT | Some (File d m) \<Rightarrow> Inr d | _ \<Rightarrow> Inl EISDIR)"
  by (simp add: read_content_def stat_safe split: option.splits node.splits)

end
