(* ===== verification/Protocol_Ids.thy ===== *)
theory Protocol_Ids
  imports Protocol_Errors
begin

text \<open>
  \<open>protocol/ids/ids.go\<close>: identifiers of the form \<open>KIND-uuid\<close> with a version 7 UUID, their
  construction from random bytes and the clock, and the parser that validates them.
\<close>

section \<open>Kinds\<close>

datatype kind =
    KMessage | KCall | KSession | KProject | KWorkspace | KWorkItem | KWorkflow
  | KApproval | KChangeSet | KTask | KExecution
  | OtherKind string

fun kind_text :: "kind \<Rightarrow> string" where
  "kind_text KMessage = ''MSG''"
| "kind_text KCall = ''CALL''"
| "kind_text KSession = ''SES''"
| "kind_text KProject = ''PRJ''"
| "kind_text KWorkspace = ''WS''"
| "kind_text KWorkItem = ''WI''"
| "kind_text KWorkflow = ''WF''"
| "kind_text KApproval = ''APR''"
| "kind_text KChangeSet = ''CHG''"
| "kind_text KTask = ''TASK''"
| "kind_text KExecution = ''EXEC''"
| "kind_text (OtherKind s) = s"

definition kind_prefixes :: "kind list" where
  "kind_prefixes =
     [KMessage, KCall, KSession, KProject, KWorkspace,
      KWorkItem, KWorkflow, KApproval, KChangeSet, KTask, KExecution]"

fun known_kind :: "kind \<Rightarrow> bool" where
  "known_kind (OtherKind _) = False"
| "known_kind _ = True"

text \<open>The conversion \<open>Kind(s)\<close>.\<close>

definition kind_of_text :: "string \<Rightarrow> kind" where
  "kind_of_text s =
     (case find (\<lambda>k. kind_text k = s) kind_prefixes of Some k \<Rightarrow> k | None \<Rightarrow> OtherKind s)"

section \<open>UUIDs\<close>

text \<open>
  \<open>NewV7\<close>: sixteen random bytes (\<open>None\<close> when the random source fails), the first six
  overwritten by the millisecond clock, then version and variant bits.
\<close>

definition new_v7 :: "u8 list option \<Rightarrow> int \<Rightarrow> string + u8 list" where
  "new_v7 rnd now =
     (case rnd of
        None \<Rightarrow> Inl ''random source failed''
      | Some u \<Rightarrow>
          let ms = (word_of_int now :: 64 word);
              u = u[0 := ucast (drop_bit 40 ms), 1 := ucast (drop_bit 32 ms),
                    2 := ucast (drop_bit 24 ms), 3 := ucast (drop_bit 16 ms),
                    4 := ucast (drop_bit 8 ms), 5 := ucast ms];
              u = u[6 := (u ! 6 AND 0x0F) OR 0x70];
              u = u[8 := (u ! 8 AND 0x3F) OR 0x80]
          in Inr u)"

definition slice :: "nat \<Rightarrow> nat \<Rightarrow> 'a list \<Rightarrow> 'a list" where
  "slice i j xs = take (j - i) (drop i xs)"

definition format_uuid :: "u8 list \<Rightarrow> string" where
  "format_uuid u =
     hex_encode (slice 0 4 u) @ ''-'' @ hex_encode (slice 4 6 u) @ ''-'' @
     hex_encode (slice 6 8 u) @ ''-'' @ hex_encode (slice 8 10 u) @ ''-'' @
     hex_encode (slice 10 16 u)"

definition parse_uuid :: "string \<Rightarrow> string + u8 list" where
  "parse_uuid s =
     (if length s \<noteq> 36 \<or> s ! 8 \<noteq> CHR ''-'' \<or> s ! 13 \<noteq> CHR ''-'' \<or> s ! 18 \<noteq> CHR ''-''
         \<or> s ! 23 \<noteq> CHR ''-''
      then Inl ''invalid uuid format''
      else
        let compact = slice 0 8 s @ slice 9 13 s @ slice 14 18 s @ slice 19 23 s @ slice 24 36 s
        in case hex_decode compact of
             None \<Rightarrow> Inl ''invalid uuid hex''
           | Some u \<Rightarrow> if length u \<noteq> 16 then Inl ''invalid uuid hex'' else Inr u)"

definition uuid_version :: "u8 list \<Rightarrow> nat" where
  "uuid_version u = unat (drop_bit 4 (u ! 6))"

definition uuid_variant :: "u8 list \<Rightarrow> nat" where
  "uuid_variant u = unat (drop_bit 6 (u ! 8))"

section \<open>Identifiers\<close>

definition split_id :: "string \<Rightarrow> string + kind \<times> string" where
  "split_id ident =
     (let ident = trim_space ident in
      case index_byte ident (CHR ''-'') of
        None \<Rightarrow> Inl (''invalid id '' @ go_quote ident)
      | Some i \<Rightarrow>
          if i = 0 \<or> i = length ident - 1 then Inl (''invalid id '' @ go_quote ident)
          else Inr (kind_of_text (take i ident), drop (i + 1) ident))"

definition parse_id :: "string \<Rightarrow> string + kind \<times> u8 list" where
  "parse_id ident =
     (case split_id ident of
        Inl e \<Rightarrow> Inl e
      | Inr (kind, uuid_hex) \<Rightarrow>
          if \<not> known_kind kind then Inl (''unknown id kind in '' @ go_quote ident)
          else case parse_uuid uuid_hex of
            Inl e \<Rightarrow> Inl (''id '' @ go_quote ident @ '': '' @ e)
          | Inr raw \<Rightarrow>
              if uuid_version raw \<noteq> 7 then Inl (''id '' @ go_quote ident @ '': uuid version must be 7'')
              else if uuid_variant raw \<noteq> 2
                then Inl (''id '' @ go_quote ident @ '': uuid variant must be RFC 4122'')
              else Inr (kind, raw))"

text \<open>\<open>Validate\<close> returns the error text, \<open>None\<close> for a nil error.\<close>

definition validate_id :: "kind \<Rightarrow> string \<Rightarrow> string option" where
  "validate_id kind ident =
     (case parse_id ident of
        Inl e \<Rightarrow> Some e
      | Inr (got, _) \<Rightarrow>
          if got \<noteq> kind then Some (''id '' @ go_quote ident @ '': want kind '' @ kind_text kind) else None)"

definition new_id :: "kind \<Rightarrow> u8 list option \<Rightarrow> int \<Rightarrow> string + string" where
  "new_id kind rnd now =
     (if \<not> known_kind kind then Inl (''unknown id kind '' @ go_quote (kind_text kind))
      else case new_v7 rnd now of
        Inl e \<Rightarrow> Inl e
      | Inr u \<Rightarrow> Inr (kind_text kind @ ''-'' @ format_uuid u))"

section \<open>Round trips\<close>

lemma known_kind_cases:
  "known_kind k \<longleftrightarrow> k \<in> set kind_prefixes"
  by (cases k) (simp_all add: kind_prefixes_def)

lemma kind_of_text_known [simp]: "known_kind k \<Longrightarrow> kind_of_text (kind_text k) = k"
  by (cases k) (simp_all add: kind_of_text_def kind_prefixes_def)

lemma kind_text_shape:
  assumes "known_kind k"
  shows "kind_text k \<noteq> []" "CHR ''-'' \<notin> set (kind_text k)" "plain_byte (hd (kind_text k))"
  using assms by (cases k; simp add: plain_byte_def)+

lemma index_byte_append: "c \<notin> set x \<Longrightarrow> index_byte (x @ c # s) c = Some (length x)"
  by (induction x) auto

lemma hex_digit_plain:
  assumes "n < 16"
  shows "plain_byte (hex_digit n)" "hex_digit n \<noteq> CHR ''-''"
proof -
  have "byte (hex_digit n) = (if n < 10 then 48 + n else 87 + n)"
    using assms by (simp add: hex_digit_def)
  then show "plain_byte (hex_digit n)" "hex_digit n \<noteq> CHR ''-''"
    using assms by (auto simp: plain_byte_def split: if_splits)
qed

lemma length_new_v7: "new_v7 (Some u) now = Inr v \<Longrightarrow> length v = length u"
  by (auto simp: new_v7_def Let_def)

lemma length_slice [simp]: "length (slice i j xs) = min (j - i) (length xs - i)"
  by (simp add: slice_def)

lemma hex_encode_append: "hex_encode (xs @ ys) = hex_encode xs @ hex_encode ys"
  by (simp add: hex_encode_def)

lemma length_format_uuid: "length u = 16 \<Longrightarrow> length (format_uuid u) = 36"
  by (simp add: format_uuid_def)

lemma slice_append_slice:
  assumes "i \<le> j" "j \<le> k"
  shows "slice i j xs @ slice j k xs = slice i k xs"
proof -
  have "k - i = (j - i) + (k - j)" "k - j = k - j" and d: "drop j xs = drop (j - i) (drop i xs)"
    using assms by simp_all
  then show ?thesis by (simp add: slice_def d take_add del: drop_drop)
qed

lemma slices_16:
  assumes "length u = 16"
  shows "slice 0 4 u @ slice 4 6 u @ slice 6 8 u @ slice 8 10 u @ slice 10 16 u = u"
  using assms by (simp add: slice_append_slice) (simp add: slice_def)

lemma parse_format_uuid:
  assumes "length u = 16"
  shows "parse_uuid (format_uuid u) = Inr u"
proof -
  define a b c d e where "a = hex_encode (slice 0 4 u)" and "b = hex_encode (slice 4 6 u)"
    and "c = hex_encode (slice 6 8 u)" and "d = hex_encode (slice 8 10 u)"
    and "e = hex_encode (slice 10 16 u)"
  have len: "length a = 8" "length b = 4" "length c = 4" "length d = 4" "length e = 12"
    using assms by (simp_all add: a_def b_def c_def d_def e_def)
  have f: "format_uuid u = a @ ''-'' @ b @ ''-'' @ c @ ''-'' @ d @ ''-'' @ e"
    by (simp add: format_uuid_def a_def b_def c_def d_def e_def)
  have "a @ b @ c @ d @ e = hex_encode u"
    by (simp add: a_def b_def c_def d_def e_def slices_16 [OF assms] flip: hex_encode_append)
  with assms show ?thesis
    by (simp add: parse_uuid_def f len nth_append slice_def Let_def hex_decode_encode)
qed

lemma version_new_v7:
  assumes "length u = 16" "new_v7 (Some u) now = Inr v"
  shows "uuid_version v = 7" "uuid_variant v = 2"
proof -
  have "drop_bit 4 ((x AND 0x0F) OR 0x70) = (7 :: u8)" for x :: u8
    by (rule bit_eqI) (auto simp: bit_simps)
  moreover have "drop_bit 6 ((x AND 0x3F) OR 0x80) = (2 :: u8)" for x :: u8
    by (rule bit_eqI) (auto simp: bit_simps)
  ultimately show "uuid_version v = 7" "uuid_variant v = 2"
    using assms by (auto simp: new_v7_def Let_def uuid_version_def uuid_variant_def)
qed

lemma set_hex_encode: "c \<in> set (hex_encode bs) \<Longrightarrow> \<exists>n<16. c = hex_digit n"
proof (induction bs)
  case (Cons b bs)
  have "unat b div 16 < 16" using unat_u8_bound [of b] by simp
  moreover have "unat b mod 16 < 16" by simp
  moreover have "c = hex_digit (unat b div 16) \<or> c = hex_digit (unat b mod 16)
      \<or> c \<in> set (hex_encode bs)"
    using Cons.prems by (simp add: hex_encode_def hex_byte_def)
  ultimately show ?case using Cons.IH by blast
qed (simp add: hex_encode_def)

lemma last_format_uuid:
  assumes "length u = 16"
  shows "plain_byte (last (format_uuid u))"
proof -
  have "slice 10 16 u \<noteq> []" using assms by (simp add: slice_def)
  then have ne: "hex_encode (slice 10 16 u) \<noteq> []"
    by (simp add: hex_encode_def hex_byte_def neq_Nil_conv)
  then have "last (format_uuid u) \<in> set (hex_encode (slice 10 16 u))"
    by (simp add: format_uuid_def)
  then show ?thesis using set_hex_encode hex_digit_plain(1) by fastforce
qed

lemma split_id_new:
  assumes "known_kind k" "length u = 16"
  shows "split_id (kind_text k @ ''-'' @ format_uuid u) = Inr (k, format_uuid u)"
proof -
  let ?s = "kind_text k @ ''-'' @ format_uuid u"
  note shape = kind_text_shape [OF assms(1)]
  have len: "length (format_uuid u) = 36" using assms by (simp add: length_format_uuid)
  then have "format_uuid u \<noteq> []" by auto
  with shape last_format_uuid [OF assms(2)] have "trim_space ?s = ?s"
    by (intro trim_space_plain) auto
  moreover have "index_byte ?s (CHR ''-'') = Some (length (kind_text k))"
    using index_byte_append [OF shape(2)] by simp
  ultimately show ?thesis
    using shape(1) len assms(1) by (simp add: split_id_def Let_def)
qed

lemma parse_new_id:
  assumes "known_kind k" "length u = 16" "new_id k (Some u) now = Inr i"
  obtains v where "new_v7 (Some u) now = Inr v" "parse_id i = Inr (k, v)"
proof -
  from assms(1,3) obtain v where v: "new_v7 (Some u) now = Inr v"
    and i: "i = kind_text k @ ''-'' @ format_uuid v"
    by (auto simp: new_id_def split: sum.splits if_splits)
  have "length v = 16" using length_new_v7 [OF v] assms(2) by simp
  then have "parse_id i = Inr (k, v)"
    using assms(1) version_new_v7 [OF assms(2) v]
    by (simp add: i parse_id_def split_id_new [simplified] parse_format_uuid)
  with v show thesis by (rule that)
qed

lemma validate_id_None_iff: "validate_id k i = None \<longleftrightarrow> (\<exists>u. parse_id i = Inr (k, u))"
  by (auto simp: validate_id_def split: sum.splits)

lemma parse_id_shape:
  assumes "parse_id i = Inr (k, u)"
  shows "known_kind k" "length u = 16" "uuid_version u = 7" "uuid_variant u = 2"
  using assms
  by (auto simp: parse_id_def parse_uuid_def Let_def split: sum.splits if_splits prod.splits option.splits)

end
