(* ===== verification/Workspace_Registry.thy ===== *)
theory Workspace_Registry
  imports Go_Files Protocol_Ids
begin

text \<open>
  \<open>local-agent/internal/workspace/workspace.go\<close>: the registered workspaces. The registry is a
  map from workspace identifiers to records; the random bytes, the clock and the working
  directory of the process are arguments. A copy of a record is the record itself, the live
  record that \<open>Mutate\<close> hands out is written back.
\<close>

section \<open>Registered workspaces\<close>

record workspace =
  ws_id :: string
  ws_project :: string
  ws_root :: path
  ws_registered_at :: int
  ws_revision :: int

type_synonym registry = "(string \<times> workspace) list"

definition new_registry :: registry where
  "new_registry = []"

text \<open>\<open>filepath.Abs\<close> in working directory \<open>cwd\<close>.\<close>

definition abs_path :: "path \<Rightarrow> string \<Rightarrow> path" where
  "abs_path cwd s = (if is_abs s then join_path [] s else join_path cwd s)"

definition store_workspace :: "string \<Rightarrow> workspace \<Rightarrow> registry \<Rightarrow> registry" where
  "store_workspace wid ws reg = AList.update wid ws reg"

definition register ::
  "fs \<Rightarrow> path \<Rightarrow> u8 list option \<Rightarrow> int \<Rightarrow> string \<Rightarrow> string \<Rightarrow> registry \<Rightarrow> go_error + workspace \<times> registry" where
  "register fs cwd rnd now project root_path reg =
     (let abs = abs_path cwd root_path in
      case stat fs abs of
        Inl e \<Rightarrow> Inl (wrap_err InvalidPath ''workspace root not found'' (path_error ''stat'' abs e))
      | Inr nd \<Rightarrow>
          if nd \<noteq> Dir then Inl (must_err InvalidPath ''workspace root must be a directory'')
          else case eval_symlinks fs abs of
            Inl e \<Rightarrow> Inl (wrap_err InvalidPath ''canonicalize workspace root'' (path_error ''lstat'' abs e))
          | Inr canon \<Rightarrow>
              (case new_id KWorkspace rnd now of
                 Inl e \<Rightarrow> Inl (PlainError e)
               | Inr wid \<Rightarrow>
                   let ws = \<lparr>ws_id = wid, ws_project = project, ws_root = canon,
                             ws_registered_at = now, ws_revision = 0\<rparr>
                   in Inr (ws, store_workspace wid ws reg)))"

definition sole :: "registry option \<Rightarrow> go_error + workspace" where
  "sole r =
     (case r of
        None \<Rightarrow> Inl (must_err WorkspaceNotFound ''workspace registry is nil'')
      | Some reg \<Rightarrow>
          if length reg \<noteq> 1
          then Inl (must_err WorkspaceNotFound ''workspace_id required unless exactly one workspace is registered'')
          else case reg of
            (_, ws) # _ \<Rightarrow> Inr ws
          | [] \<Rightarrow> Inl (must_err WorkspaceNotFound ''workspace not registered''))"

definition get_workspace :: "registry \<Rightarrow> string \<Rightarrow> go_error + workspace" where
  "get_workspace reg wid =
     (if validate_id KWorkspace wid \<noteq> None then Inl (must_err InvalidArgument ''invalid workspace_id'')
      else case map_of reg wid of
        None \<Rightarrow> Inl (must_err WorkspaceNotFound ''workspace not registered'')
      | Some ws \<Rightarrow> Inr ws)"

text \<open>
  \<open>Mutate\<close>: \<open>fn\<close> changes the record and a state \<open>s\<close> of its own, and may fail (the changes it
  made before failing stay).
\<close>

definition mutate ::
  "registry \<Rightarrow> string \<Rightarrow> (workspace \<Rightarrow> 's \<Rightarrow> workspace \<times> 's \<times> go_error option) \<Rightarrow> 's
    \<Rightarrow> registry \<times> 's \<times> go_error option" where
  "mutate reg wid fn s =
     (if validate_id KWorkspace wid \<noteq> None
      then (reg, s, Some (must_err InvalidArgument ''invalid workspace_id''))
      else case map_of reg wid of
        None \<Rightarrow> (reg, s, Some (must_err WorkspaceNotFound ''workspace not registered''))
      | Some ws \<Rightarrow>
          (case fn ws s of (ws', s', e) \<Rightarrow> (store_workspace wid ws' reg, s', e)))"

section \<open>Lookup\<close>

interpretation registry_store: keyed_store store_workspace map_of
  by unfold_locales (simp add: store_workspace_def update_conv')

text \<open>
  Every record is stored under its own identifier and its root is a canonical directory.
\<close>

definition canonical_root :: "fs \<Rightarrow> path \<Rightarrow> bool" where
  "canonical_root fs p \<longleftrightarrow>
     real_path fs p \<and> node_at fs p = Some Dir \<and> proper_path p \<and> \<not> has_nul p"

definition registry_wf :: "fs \<Rightarrow> registry \<Rightarrow> bool" where
  "registry_wf fs reg \<longleftrightarrow>
     (\<forall>wid ws. map_of reg wid = Some ws \<longrightarrow> ws_id ws = wid \<and> canonical_root fs (ws_root ws))"

lemma walk_more_links:
  "walk fs follow n dest cs = Inr r \<Longrightarrow> n \<le> n' \<Longrightarrow> walk fs follow n' dest cs = Inr r"
proof (induction fs follow n dest cs arbitrary: n' rule: walk.induct)
  case (2 fs follow n dest c cs)
  note unfold = walk.simps(2) [of fs follow _ dest c cs]
  show ?case
  proof (cases "c = ''.'' \<or> c = ''..''")
    case True
    with "2.prems" "2.IH"(1,2) [of n'] show ?thesis by (auto simp: unfold simp del: walk.simps)
  next
    case names: False
    show ?thesis
    proof (cases "node_at fs (dest @ [c])")
      case None
      with names "2.prems" show ?thesis by (auto simp: unfold simp del: walk.simps)
    next
      case (Some nd)
      show ?thesis
      proof (cases nd)
        case Dir
        with names Some "2.prems" "2.IH"(3) [of "dest @ [c]" Dir n'] show ?thesis
          by (auto simp: unfold Let_def simp del: walk.simps)
      next
        case (File d m)
        with names Some "2.prems" show ?thesis by (auto simp: unfold Let_def simp del: walk.simps)
      next
        case (Link ab t)
        show ?thesis
        proof (cases "cs = [] \<and> \<not> follow")
          case True
          with names Some Link "2.prems" show ?thesis by (auto simp: Let_def)
        next
          case F: False
          then obtain k where k: "n = Suc k" "walk fs follow k (if ab then [] else dest) (t @ cs) = Inr r"
            using names Some Link "2.prems"(1)
            by (auto simp: unfold Let_def simp del: walk.simps split: nat.splits)
          then obtain k' where k': "n' = Suc k'" "k \<le> k'" using "2.prems"(2) by (cases n') auto
          with "2.IH"(4) [OF _ _ refl Some Link F k] names
          have "walk fs follow k' (if ab then [] else dest) (t @ cs) = Inr r" by blast
          with names Some Link F k' show ?thesis by (auto simp: unfold Let_def simp del: walk.simps)
        qed
      qed
    qed
  qed
qed simp

lemma canonical_eval:
  assumes "fs_wf fs" "stat fs p = Inr Dir" "eval_symlinks fs p = Inr q"
  shows "canonical_root fs q"
proof -
  obtain q' where q': "walk fs True kernel_links [] p = Inr (q', Some Dir)"
    using assms(2) by (auto simp: stat_def split: if_splits sum.splits option.splits)
  then have "walk fs True eval_links [] p = Inr (q', Some Dir)"
    by (rule walk_more_links) (simp add: kernel_links_def eval_links_def)
  with assms(3) have "q' = q" by (auto simp: eval_symlinks_def split: if_splits)
  with walk_result [OF q'] have "real_path fs q" "node_at fs q = Some Dir" by auto
  with fs_wf_proper [OF assms(1)] show ?thesis by (auto simp: canonical_root_def)
qed

lemma register_result:
  assumes "fs_wf fs" "register fs cwd rnd now project root_path reg = Inr (ws, reg')"
  shows "canonical_root fs (ws_root ws)" "reg' = store_workspace (ws_id ws) ws reg"
    "new_id KWorkspace rnd now = Inr (ws_id ws)" "ws_revision ws = 0" "ws_project ws = project"
  using assms canonical_eval [OF assms(1)]
  by (auto simp: register_def Let_def split: sum.splits if_splits)

lemma register_wf:
  "fs_wf fs \<Longrightarrow> registry_wf fs reg \<Longrightarrow>
    register fs cwd rnd now project root_path reg = Inr (ws, reg') \<Longrightarrow> registry_wf fs reg'"
  using register_result(1,2) [of fs cwd rnd now project root_path reg ws reg']
  by (auto simp: registry_wf_def registry_store.look_ins)

lemma new_id_valid:
  assumes "length u = 16" "new_id KWorkspace (Some u) now = Inr i"
  shows "validate_id KWorkspace i = None"
  using parse_new_id [of KWorkspace u now i] assms by (auto simp: validate_id_None_iff)

lemma get_workspace_wf:
  "registry_wf fs reg \<Longrightarrow> get_workspace reg wid = Inr ws \<Longrightarrow>
    ws_id ws = wid \<and> canonical_root fs (ws_root ws)"
  by (auto simp: get_workspace_def registry_wf_def split: if_splits option.splits)

text \<open>
  C21. A workspace that \<open>Register\<close> accepts can be looked up under the identifier it was given,
  its root is the canonical directory (no link anywhere on it), its revision is 0, and the
  other workspaces of the registry are as before.
\<close>

theorem register_then_get:
  assumes "fs_wf fs" "length u = 16"
    and "register fs cwd (Some u) now project root_path reg = Inr (ws, reg')"
  shows "get_workspace reg' (ws_id ws) = Inr ws \<and> canonical_root fs (ws_root ws) \<and> ws_revision ws = 0
    \<and> (\<forall>wid. wid \<noteq> ws_id ws \<longrightarrow> get_workspace reg' wid = get_workspace reg wid)"
proof -
  note r = register_result [OF assms(1,3)]
  have "validate_id KWorkspace (ws_id ws) = None" using new_id_valid [OF assms(2) r(3)] .
  with r show ?thesis
    by (simp add: get_workspace_def registry_store.look_ins)
qed

theorem register_then_get_witness:
  "let fs = [([''home''], Dir), ([''home'', ''p''], Dir), ([''w''], Link True [''home'', ''p''])];
       r = register fs [''home''] (Some (replicate 16 0)) 5 ''P'' ''/w'' new_registry
   in case r of Inl _ \<Rightarrow> False
      | Inr (ws, reg') \<Rightarrow> ws_root ws = [''home'', ''p''] \<and> get_workspace reg' (ws_id ws) = Inr ws"
proof -
  let ?fs = "[([''home''], Dir), ([''home'', ''p''], Dir), ([''w''], Link True [''home'', ''p''])]"
  let ?r = "register ?fs [''home''] (Some (replicate 16 0)) 5 ''P'' ''/w'' new_registry"
  have "fs_wf ?fs" by (rule fs_ok_wf) code_simp
  moreover have "is_ok ?r" by code_simp
  then obtain ws reg' where r: "?r = Inr (ws, reg')" by (auto elim!: is_okE)
  ultimately have "get_workspace reg' (ws_id ws) = Inr ws"
    using register_then_get [of ?fs "replicate 16 0" "[''home'']" 5 "''P''" "''/w''" new_registry ws reg']
    by simp
  moreover have "(case ?r of Inl _ \<Rightarrow> False | Inr (ws, reg') \<Rightarrow> ws_root ws = [''home'', ''p''])" by code_simp
  ultimately show ?thesis using r by (simp add: Let_def)
qed

end
