(* ===== verification/Workspace_Path.thy ===== *)
theory Workspace_Path
  imports Workspace_Registry
begin

text \<open>
  \<open>local-agent/internal/workspace/path.go\<close>: the mapping from a path that the server names to
  an absolute path inside the workspace. The loops over parent directories are recursions on
  the list of names. \<open>filepath.VolumeName\<close> is empty on Unix, so that check never applies.
\<close>

section \<open>Lexical checks\<close>

definition is_escape_rel :: "string \<Rightarrow> bool" where
  "is_escape_rel cleaned \<longleftrightarrow> cleaned = ''..'' \<or> has_prefix cleaned ''../''"

definition within_root :: "path \<Rightarrow> path \<Rightarrow> bool" where
  "within_root root candidate =
     (case rel_names root candidate of [] \<Rightarrow> True | c # _ \<Rightarrow> c \<noteq> ''..'')"

section \<open>Links on the way\<close>

fun is_link :: "node \<Rightarrow> bool" where
  "is_link (Link _ _) = True"
| "is_link _ = False"

lemma is_link_iff: "is_link nd \<longleftrightarrow> (\<exists>ab t. nd = Link ab t)"
  by (cases nd) auto

text \<open>The first loop of \<open>resolveExisting\<close>: the deepest existing ancestor and the names below it.\<close>

function scan_existing :: "fs \<Rightarrow> path \<Rightarrow> path \<Rightarrow> string list \<Rightarrow> string + path \<times> string list \<times> bool" where
  "scan_existing fs whole cur missing =
     (case lstat fs cur of
        Inr nd \<Rightarrow> Inr (cur, missing, is_link nd)
      | Inl e \<Rightarrow>
          if e \<noteq> ENOENT then Inl (path_error ''lstat'' cur e)
          else if cur = [] then Inl (''no existing ancestor for '' @ path_string whole)
          else scan_existing fs whole (dir_path cur) (base_name cur # missing))"
  by pat_completeness auto
termination
  by (relation "measure (\<lambda>(fs, w, cur, m). length cur)") (auto simp: dir_path_def)

declare scan_existing.simps [simp del]

function path_had_symlink :: "fs \<Rightarrow> path \<Rightarrow> bool" where
  "path_had_symlink fs p =
     (case lstat fs p of
        Inl _ \<Rightarrow> False
      | Inr nd \<Rightarrow>
          if is_link nd then True
          else if p = [] then False
          else path_had_symlink fs (dir_path p))"
  by pat_completeness auto
termination
  by (relation "measure (\<lambda>(fs, p). length p)") (auto simp: dir_path_def)

declare path_had_symlink.simps [simp del]

definition resolve_existing :: "fs \<Rightarrow> path \<Rightarrow> string + path \<times> bool" where
  "resolve_existing fs p =
     (case scan_existing fs p p [] of
        Inl e \<Rightarrow> Inl e
      | Inr (cur, missing, had) \<Rightarrow>
          (case eval_symlinks fs cur of
             Inl e \<Rightarrow> Inl (path_error ''lstat'' cur e)
           | Inr ev \<Rightarrow>
               let had = (if had then True else path_had_symlink fs cur);
                   out = fold (\<lambda>seg out. join_path out seg) missing ev
               in Inr (out, had)))"

definition resolve_path :: "fs \<Rightarrow> workspace \<Rightarrow> string \<Rightarrow> go_error + path" where
  "resolve_path fs w rel0 =
     (let rel = trim_space rel0 in
      if rel = [] then Inl (must_err InvalidPath ''path is empty'')
      else if is_abs rel then Inl (must_err PathOutsideWorkspace ''absolute paths are not allowed'')
      else
        let cleaned = clean rel in
        if cleaned = ''.'' \<or> cleaned = ''/''
        then Inl (must_err InvalidPath ''path must refer to a file or subdirectory'')
        else if is_escape_rel cleaned
        then Inl (must_err PathOutsideWorkspace ''path escapes workspace via ..'')
        else
          let joined = join_path (ws_root w) cleaned in
          if \<not> within_root (ws_root w) joined
          then Inl (must_err PathOutsideWorkspace ''path outside workspace before symlink eval'')
          else case resolve_existing fs joined of
            Inl e \<Rightarrow> Inl (wrap_err InvalidPath ''resolve path'' e)
          | Inr (resolved, had) \<Rightarrow>
              if \<not> within_root (ws_root w) resolved
              then if had then Inl (must_err SymlinkEscape ''symlink target outside workspace'')
                   else Inl (must_err PathOutsideWorkspace ''path outside workspace'')
              else Inr resolved)"

section \<open>What the scan finds\<close>

lemma within_root_iff: "proper_path q \<Longrightarrow> within_root p q \<longleftrightarrow> prefix p q"
proof -
  assume q: "proper_path q"
  show ?thesis
  proof (cases "prefix p q")
    case True
    then obtain r where "q = p @ r" by (auto simp: prefix_def)
    with q True show ?thesis by (auto simp: within_root_def rel_names_prefix proper_def split: list.splits)
  next
    case False
    with rel_names_escape [OF False] show ?thesis
      by (auto simp: within_root_def neq_Nil_conv)
  qed
qed

lemma scan_existing_Inr:
  assumes "scan_existing fs whole cur missing = Inr (c, m, had)"
  shows "c @ m = cur @ missing \<and> (\<exists>nd. lstat fs c = Inr nd \<and> had = is_link nd)
    \<and> (c \<noteq> cur \<longrightarrow> lstat fs cur = Inl ENOENT \<and> lstat fs (c @ [hd m]) = Inl ENOENT)"
  using assms
proof (induction fs whole cur missing rule: scan_existing.induct)
  case (1 fs whole cur missing)
  note unfold = scan_existing.simps [of fs whole cur missing]
  show ?case
  proof (cases "lstat fs cur")
    case (Inl e)
    with "1.prems" have e: "e = ENOENT" "cur \<noteq> []"
      and rec: "scan_existing fs whole (dir_path cur) (base_name cur # missing) = Inr (c, m, had)"
      by (auto simp: unfold split: if_splits)
    have snoc: "dir_path cur @ [base_name cur] = cur"
      using e by (simp add: dir_path_def base_name_def)
    from "1.IH" [OF Inl _ e(2) rec] e(1)
    have IH: "c @ m = dir_path cur @ base_name cur # missing"
      "\<exists>nd. lstat fs c = Inr nd \<and> had = is_link nd"
      "c \<noteq> dir_path cur \<longrightarrow> lstat fs (c @ [hd m]) = Inl ENOENT"
      by auto
    have "c @ m = cur @ missing" using IH(1) snoc by (metis append.assoc append_Cons append_Nil)
    moreover have "lstat fs (c @ [hd m]) = Inl ENOENT"
    proof (cases "c = dir_path cur")
      case True
      then have "hd m = base_name cur" using IH(1) by simp
      with True snoc Inl e show ?thesis by simp
    qed (use IH(3) in blast)
    ultimately show ?thesis using IH(2) Inl e by blast
  next
    case (Inr nd)
    with "1.prems" show ?thesis by (simp add: unfold)
  qed
qed

lemma lstat_Inr:
  "lstat fs p = Inr nd \<longleftrightarrow> \<not> has_nul p \<and> (\<exists>q. walk fs False kernel_links [] p = Inr (q, Some nd))"
  by (auto simp: lstat_def split: sum.splits option.splits)

lemma lstat_ENOENT:
  "lstat fs p = Inl ENOENT \<longleftrightarrow> \<not> has_nul p \<and>
    (walk fs False kernel_links [] p = Inl ENOENT \<or> (\<exists>q. walk fs False kernel_links [] p = Inr (q, None)))"
  by (auto simp: lstat_def split: sum.splits option.splits)

lemma eval_symlinks_Inr:
  "eval_symlinks fs p = Inr q \<longleftrightarrow> \<not> has_nul p \<and> (\<exists>nd. walk fs True eval_links [] p = Inr (q, Some nd))"
  by (auto simp: eval_symlinks_def split: sum.splits option.splits)

lemma fold_join_proper:
  "proper_path p \<Longrightarrow> proper_path ms \<Longrightarrow> fold (\<lambda>seg out. join_path out seg) ms p = p @ ms"
proof (induction ms arbitrary: p)
  case (Cons m ms)
  then have "slash \<notin> set m" "proper m" by (auto simp: proper_def)
  with Cons.prems have "join_path p m = p @ [m]"
    using clean_names_append_proper [of "[m]" True "rev p"]
    by (simp add: join_path_def split_on_no_sep_id)
  with Cons show ?case by simp
qed simp

lemma eval_symlinks_node:
  assumes "eval_symlinks fs p = Inr e"
  obtains nd where "node_at fs e = Some nd" "real_path fs e" "\<not> is_link nd"
    "walk fs True eval_links [] p = Inr (e, Some nd)" "\<not> has_nul p"
proof -
  obtain nd where w: "walk fs True eval_links [] p = Inr (e, Some nd)" "\<not> has_nul p"
    using assms by (auto simp: eval_symlinks_Inr)
  with walk_result [OF w(1)] have "node_at fs e = Some nd" "real_path fs e" "\<not> is_link nd"
    by (cases nd; auto)+
  with w show thesis by (blast intro: that)
qed

text \<open>
  What the evaluated prefix and the missing names make up: a path without links.
\<close>

lemma resolved_safe:
  assumes wf: "fs_wf fs" and pr: "proper_path (c @ m)"
    and ev: "eval_symlinks fs c = Inr e"
    and missing: "m \<noteq> [] \<Longrightarrow> lstat fs (c @ m) = Inl ENOENT \<and> lstat fs (c @ [hd m]) = Inl ENOENT"
  shows "safe_path fs (e @ m)"
proof -
  obtain nd where e: "node_at fs e = Some nd" "real_path fs e" "\<not> is_link nd"
    and walk: "walk fs True eval_links [] c = Inr (e, Some nd)" "\<not> has_nul c"
    using ev by (rule eval_symlinks_node)
  have below: "nd = Dir \<and> node_at fs (e @ [hd m]) = None" if m: "m \<noteq> []"
  proof -
    define R where "R = walk fs False kernel_links [] (c @ [hd m])"
    have "proper (hd m)" using pr m by (cases m) auto
    then have hd: "hd m \<noteq> ''.''" "hd m \<noteq> ''..''" by (auto simp: proper_def)
    have R: "R = Inl ENOENT \<or> (\<exists>q. R = Inr (q, None))"
      using missing [OF m] by (auto simp: lstat_ENOENT R_def)
    then have ne: "R \<noteq> Inl ELOOP" by auto
    from walk_snoc [OF walk(1) R_def [symmetric] ne node_at_Nil real_path_Nil] R
    obtain k where k: "nd = Dir" "walk fs False k e [hd m] = R" by auto
    have "node_at fs (e @ [hd m]) = None"
    proof (cases "node_at fs (e @ [hd m])")
      case (Some nd')
      with k(2) hd R show ?thesis by (cases nd') auto
    qed
    with k(1) show ?thesis by simp
  qed
  have "plain_path fs (e @ m)"
    unfolding plain_path_def
  proof (intro allI impI)
    fix q
    assume q: "strict_prefix q (e @ m)"
    then have "prefix q (e @ m)" by (simp add: strict_prefix_def)
    then show "node_at fs q = Some Dir \<or> node_at fs q = None"
    proof (cases rule: prefix_appendE)
      case 1
      show ?thesis
      proof (cases "q = e")
        case True
        with q have "m \<noteq> []" by (simp add: strict_prefix_def)
        with below e(1) True show ?thesis by simp
      next
        case False
        with 1 e(2) show ?thesis by (auto simp: real_path_def strict_prefix_def)
      qed
    next
      case (2 zs)
      then obtain x zs' where zs: "zs = x # zs'" by (meson list.exhaust)
      with \<open>prefix zs m\<close> obtain ms where m: "m = x # ms" by (cases m) simp_all
      have q': "prefix (e @ [hd m]) q" unfolding \<open>q = e @ zs\<close> zs m by simp
      have "node_at fs (e @ [hd m]) = None" using below m by simp
      from fs_wf_absent [OF wf this q'] show ?thesis by simp
    qed
  qed
  moreover have "no_link fs (e @ m)"
  proof (cases "m = []")
    case False
    then have "prefix (e @ [hd m]) (e @ m)" by (cases m) auto
    from fs_wf_absent [OF wf _ this] below [OF False] have "node_at fs (e @ m) = None" by simp
    then show ?thesis by (simp add: no_link_def)
  qed (use e in \<open>auto simp: no_link_def\<close>)
  moreover have "\<not> has_nul m"
    using missing walk(2) by (cases "m = []") (auto simp: has_nul_def lstat_ENOENT)
  ultimately show ?thesis
    using fs_wf_proper [OF wf e(1)] pr by (auto simp: safe_path_def has_nul_def)
qed

lemma resolve_existing_safe:
  assumes "fs_wf fs" "proper_path p" "resolve_existing fs p = Inr (q, had)"
  shows "safe_path fs q"
proof -
  obtain c m h e where s: "scan_existing fs p p [] = Inr (c, m, h)" "eval_symlinks fs c = Inr e"
    and q: "q = fold (\<lambda>seg out. join_path out seg) m e"
    using assms(3) by (auto simp: resolve_existing_def Let_def split: sum.splits)
  note sc = scan_existing_Inr [OF s(1), simplified]
  then have pr: "proper_path (c @ m)" using assms(2) by simp
  have "safe_path fs (e @ m)"
    by (rule resolved_safe [OF assms(1) pr s(2)]) (use sc in auto)
  moreover have "proper_path e"
    using s(2) by (rule eval_symlinks_node) (use fs_wf_proper [OF assms(1)] in blast)
  ultimately show ?thesis using q pr by (simp add: fold_join_proper)
qed

lemma resolve_path_Inr:
  assumes "resolve_path fs w rel = Inr q"
  shows "trim_space rel \<noteq> []" "\<not> is_abs (trim_space rel)" "\<not> is_escape_rel (clean (trim_space rel))"
    "\<exists>had. resolve_existing fs (join_path (ws_root w) (clean (trim_space rel))) = Inr (q, had)"
    "within_root (ws_root w) q"
  using assms by (auto simp: resolve_path_def Let_def split: if_splits sum.splits)

lemma resolve_path_safe:
  assumes "fs_wf fs" "proper_path (ws_root w)" "resolve_path fs w rel = Inr q"
  shows "prefix (ws_root w) q" "safe_path fs q"
proof -
  note r = resolve_path_Inr [OF assms(3)]
  have "proper_path (join_path (ws_root w) (clean (trim_space rel)))"
    using assms(2) by (simp add: join_path_proper)
  with r(4) show safe: "safe_path fs q" using resolve_existing_safe [OF assms(1)] by blast
  with r(5) show "prefix (ws_root w) q" by (simp add: within_root_iff safe_path_def)
qed

section \<open>Paths without links resolve to themselves\<close>

lemma scan_existing_safe:
  assumes "fs_wf fs" "safe_path fs cur"
  shows "\<exists>c m. scan_existing fs whole cur missing = Inr (c, m @ missing, False)
    \<and> c @ m = cur \<and> node_at fs c \<noteq> None"
  using assms(2)
proof (induction cur arbitrary: missing rule: rev_induct)
  case Nil
  have "lstat fs [] = Inr Dir" by (simp add: stat_safe [OF Nil assms(1)])
  then show ?case by (simp add: scan_existing.simps [of fs whole "[]"])
next
  case (snoc x xs)
  note unfold = scan_existing.simps [of fs whole "xs @ [x]"] stat_safe(1) [OF snoc.prems assms(1)]
  show ?case
  proof (cases "node_at fs (xs @ [x])")
    case None
    from snoc.IH [of "x # missing"] safe_path_prefix [OF snoc.prems, of xs]
    obtain c m where "scan_existing fs whole xs (x # missing) = Inr (c, m @ x # missing, False)"
      "c @ m = xs" "node_at fs c \<noteq> None" by auto
    with None show ?thesis
      by (intro exI [of _ c] exI [of _ "m @ [x]"]) (simp add: unfold dir_path_def base_name_def)
  next
    case (Some nd)
    with snoc.prems have "\<not> is_link nd" by (cases nd) (auto simp: safe_path_def no_link_def)
    with Some show ?thesis by (simp add: unfold)
  qed
qed

lemma eval_symlinks_safe:
  assumes "fs_wf fs" "safe_path fs p" "node_at fs p = Some nd"
  shows "eval_symlinks fs p = Inr p"
proof -
  have "p \<noteq> [] \<longrightarrow> node_at fs (butlast p) = Some Dir" using assms by (auto simp: fs_wf_def)
  with assms walk_safe [OF assms(2,1), of True eval_links] show ?thesis
    by (auto simp: eval_symlinks_def safe_path_def)
qed

lemma resolve_existing_plain:
  assumes "fs_wf fs" "safe_path fs p"
  shows "\<exists>had. resolve_existing fs p = Inr (p, had)"
proof -
  obtain c m where s: "scan_existing fs p p [] = Inr (c, m, False)" "c @ m = p" "node_at fs c \<noteq> None"
    using scan_existing_safe [OF assms, of p "[]"] by auto
  then have "safe_path fs c" using safe_path_prefix [OF assms(2)] by (metis prefixI)
  with s(3) have "eval_symlinks fs c = Inr c" using eval_symlinks_safe [OF assms(1)] by blast
  moreover have "proper_path c" "proper_path m"
    using assms(2) unfolding s(2) [symmetric] safe_path_def by auto
  then have "fold (\<lambda>seg out. join_path out seg) m c = p" using s(2) fold_join_proper by simp
  ultimately show ?thesis using s by (simp add: resolve_existing_def Let_def)
qed

text \<open>The relative path that the names \<open>ns\<close> spell.\<close>

definition rel_string :: "string list \<Rightarrow> string" where
  "rel_string ns = join_with slash ns"

lemma rel_string_split: "proper_path ns \<Longrightarrow> ns \<noteq> [] \<Longrightarrow> split_on slash (rel_string ns) = ns"
  by (simp add: rel_string_def proper_path_split_join)

lemma rel_string_hd:
  assumes "proper_path ns" "ns \<noteq> []"
  obtains c s where "rel_string ns = c # s" "c \<noteq> slash"
  using assms by (cases ns rule: list.exhaust; cases "hd ns"; cases "tl ns")
    (auto simp: rel_string_def proper_def)

lemma rel_string_lexical:
  assumes "proper_path ns" "ns \<noteq> []"
  shows "rel_string ns \<noteq> []" "\<not> is_abs (rel_string ns)" "clean (rel_string ns) = rel_string ns"
    "rel_string ns \<noteq> ''.''" "rel_string ns \<noteq> ''/''" "\<not> is_escape_rel (rel_string ns)"
proof -
  obtain c s where cs: "rel_string ns = c # s" "c \<noteq> slash" using rel_string_hd [OF assms] .
  then show ne: "rel_string ns \<noteq> []" "\<not> is_abs (rel_string ns)" "rel_string ns \<noteq> ''/''"
    by (auto simp: is_abs_def has_prefix_iff slash_def)
  note split = rel_string_split [OF assms]
  show "clean (rel_string ns) = rel_string ns"
    using ne assms split clean_names_append_proper [OF assms(1), of False "[]"]
    by (simp add: clean_def Let_def) (simp add: rel_string_def)
  have hd: "proper (hd (split_on slash (rel_string ns)))"
    unfolding split using assms by (cases ns) auto
  show "rel_string ns \<noteq> ''.''"
    using hd by (auto simp: proper_def slash_def)
  have "hd (split_on slash (''../'' @ r)) = ''..''" for r by (simp add: slash_def)
  with hd show "\<not> is_escape_rel (rel_string ns)"
    by (auto simp: is_escape_rel_def has_prefix_iff prefix_def proper_def slash_def)
qed

lemma join_rel_string:
  "proper_path ns \<Longrightarrow> ns \<noteq> [] \<Longrightarrow> join_path p (rel_string ns) = p @ ns"
  by (simp add: join_path_def rel_string_split clean_names_append_proper)

lemma clean_rel:
  assumes "s \<noteq> []" "\<not> is_abs s" "clean s \<noteq> ''.''" "\<not> is_escape_rel (clean s)"
  obtains ns where "clean s = rel_string ns" "proper_path ns" "ns \<noteq> []"
proof -
  let ?ns = "clean_names False [] (split_on slash s)"
  have c: "clean s = join_with slash ?ns" "?ns \<noteq> []"
    using assms(1-3) by (auto simp: clean_def Let_def split: if_splits)
  have st: "clean_stack False ?ns"
    by (rule clean_names_stack) (auto dest: split_on_no_sep)
  have "hd ?ns \<noteq> ''..''"
  proof
    assume "hd ?ns = ''..''"
    with c(2) have "clean s = ''..'' \<or> has_prefix (clean s) ''../''"
      unfolding c(1) by (cases ?ns; cases "tl ?ns") (auto simp: has_prefix_iff slash_def)
    with assms(4) show False by (simp add: is_escape_rel_def)
  qed
  with clean_stack_no_escape [OF st c(2)] c show thesis
    by (intro that [of ?ns]) (simp_all add: rel_string_def)
qed

section \<open>When the evaluation meets no link\<close>

lemma walk_ancestor:
  assumes "walk fs follow n dest (cs @ ds) = Inr r" "ds \<noteq> []" "real_path fs dest" "node_at fs dest = Some Dir"
  shows "\<exists>q nd. walk fs False n dest cs = Inr (q, Some nd)"
  using assms
proof (induction fs "False" n dest cs rule: walk.induct)
  case (2 fs n dest c cs)
  note unfold = walk.simps(2) [of fs _ n dest c]
  have up: "real_path fs (butlast dest)" "node_at fs (butlast dest) = Some Dir"
    using real_path_butlast "2.prems"(3,4) by (metis butlast.simps(1) node_at_Nil)+
  show ?case
  proof (cases "c = ''.'' \<or> c = ''..''")
    case True
    with "2.prems" "2.hyps"(1,2) up show ?thesis by (auto simp: unfold simp del: walk.simps)
  next
    case names: False
    show ?thesis
    proof (cases "node_at fs (dest @ [c])")
      case None
      with names "2.prems" show ?thesis by (auto simp: Let_def split: if_splits)
    next
      case (Some nd)
      show ?thesis
      proof (cases nd)
        case Dir
        have "real_path fs (dest @ [c])" using "2.prems"(3,4) by (simp add: real_path_snoc)
        moreover have "walk fs follow n (dest @ [c]) (cs @ ds) = Inr r"
          using "2.prems"(1) Some Dir names by (simp add: Let_def)
        ultimately have "\<exists>q nd. walk fs False n (dest @ [c]) cs = Inr (q, Some nd)"
          using "2.hyps"(3) [of "dest @ [c]" Dir] names Some Dir "2.prems"(2) by blast
        with Some Dir names show ?thesis by (simp add: Let_def)
      next
        case (File d m)
        with names Some "2.prems" show ?thesis by (auto simp: Let_def)
      next
        case (Link ab t)
        show ?thesis
        proof (cases "cs = []")
          case True
          with names Some Link show ?thesis by simp
        next
          case False
          then obtain k where k: "n = Suc k"
            "walk fs follow k (if ab then [] else dest) ((t @ cs) @ ds) = Inr r"
            using names Some Link "2.prems"(1) by (auto simp: Let_def split: nat.splits)
          have "real_path fs (if ab then [] else dest)" "node_at fs (if ab then [] else dest) = Some Dir"
            using "2.prems"(3,4) by auto
          with "2.hyps"(4) [OF _ _ refl Some Link _ k(1,2) "2.prems"(2)] names False
          have "\<exists>q nd. walk fs False k (if ab then [] else dest) (t @ cs) = Inr (q, Some nd)" by blast
          with names Some Link False k(1) show ?thesis by (simp add: Let_def)
        qed
      qed
    qed
  qed
qed simp

lemma path_without_symlink:
  assumes "\<not> path_had_symlink fs p" "lstat fs p = Inr nd" "proper_path p"
  shows "real_path fs p \<and> node_at fs p = Some nd \<and> \<not> is_link nd"
  using assms
proof (induction p arbitrary: nd rule: rev_induct)
  case Nil
  have "lstat fs [] = Inr Dir" by (simp add: lstat_def has_nul_def)
  with Nil show ?case by auto
next
  case (snoc c p)
  have "\<not> is_link nd" "\<not> path_had_symlink fs p"
    using snoc.prems by (auto simp: path_had_symlink.simps [of fs "p @ [c]"] dir_path_def split: if_splits)
  moreover obtain q where q: "walk fs False kernel_links [] (p @ [c]) = Inr (q, Some nd)"
    and nul: "\<not> has_nul (p @ [c])"
    using snoc.prems(2) by (auto simp: lstat_Inr)
  moreover obtain nd0 where nd0: "lstat fs p = Inr nd0"
    using walk_ancestor [OF q] nul by (auto simp: lstat_Inr has_nul_def)
  ultimately have p: "real_path fs p" "node_at fs p = Some nd0" "\<not> is_link nd0"
    using snoc.IH [of nd0] snoc.prems(3) by auto
  have "walk fs True kernel_links [] p = Inr (p, Some nd0)"
    using walk_real0 [OF p(1), of True kernel_links] p(2,3) snoc.prems(3) by (auto simp: is_link_iff)
  from walk_snoc [OF this q] have "nd0 = Dir" by auto
  with p have real: "real_path fs (p @ [c])" by (simp add: real_path_snoc)
  then have "walk fs False kernel_links [] (p @ [c]) = Inr (p @ [c], node_at fs (p @ [c]))"
    by (rule walk_real0) (use snoc.prems(3) in auto)
  with q real \<open>\<not> is_link nd\<close> show ?case by auto
qed

lemma resolve_existing_no_symlink:
  assumes "resolve_existing fs p = Inr (q, False)" "proper_path p"
  shows "q = p"
proof -
  obtain c m e where s: "scan_existing fs p p [] = Inr (c, m, False)" "\<not> path_had_symlink fs c"
    and ev: "eval_symlinks fs c = Inr e" and q: "q = fold (\<lambda>seg out. join_path out seg) m e"
    using assms(1) by (auto simp: resolve_existing_def Let_def split: sum.splits if_splits)
  from scan_existing_Inr [OF s(1)] obtain nd where c: "c @ m = p" "lstat fs c = Inr nd" by auto
  with assms(2) have pr: "proper_path c" "proper_path m" by auto
  from path_without_symlink [OF s(2) c(2) pr(1)]
  have "walk fs True eval_links [] c = Inr (c, Some nd)"
    using walk_real0 [of fs c True eval_links] pr by (auto simp: is_link_iff)
  with ev have "e = c" by (auto simp: eval_symlinks_def split: if_splits)
  with q c pr show ?thesis by (simp add: fold_join_proper)
qed

section \<open>The contract of the resolver\<close>

text \<open>
  Reading, proposing and applying rely on one promise: a path that the resolver returns lies
  under the root and has no link on it, so that the calls of package \<open>os\<close> act on exactly
  that path.
\<close>

locale path_resolver =
  fixes resolve :: "fs \<Rightarrow> workspace \<Rightarrow> string \<Rightarrow> go_error + path"
  assumes confined: "fs_wf fs \<Longrightarrow> proper_path (ws_root w) \<Longrightarrow> resolve fs w rel = Inr q \<Longrightarrow>
    prefix (ws_root w) q \<and> safe_path fs q"
begin

lemma confined_walk:
  assumes "fs_wf fs" "proper_path (ws_root w)" "resolve fs w rel = Inr q"
    and "walk fs follow n [] q = Inr (r, nd)"
  shows "r = q \<and> nd = node_at fs q \<and> prefix (ws_root w) r"
  using confined [OF assms(1-3)] walk_safe [of fs q follow n] assms(1,4) by (auto split: if_splits)

lemma confined_lstat:
  assumes "fs_wf fs" "proper_path (ws_root w)" "resolve fs w rel = Inr q"
  shows "lstat fs q = (case node_at fs q of None \<Rightarrow> Inl ENOENT | Some nd \<Rightarrow> Inr nd)"
  using stat_safe(1) confined [OF assms] assms(1) by blast

lemma confined_stat:
  assumes "fs_wf fs" "proper_path (ws_root w)" "resolve fs w rel = Inr q"
  shows "stat fs q = (case node_at fs q of None \<Rightarrow> Inl ENOENT | Some nd \<Rightarrow> Inr nd)"
  using stat_safe(2) confined [OF assms] assms(1) by blast

lemma confined_content:
  assumes "fs_wf fs" "proper_path (ws_root w)" "resolve fs w rel = Inr q"
  shows "read_content fs q =
    (case node_at fs q of None \<Rightarrow> Inl ENOENT | Some (File d m) \<Rightarrow> Inr d | _ \<Rightarrow> Inl EISDIR)"
  using read_content_safe confined [OF assms] assms(1) by blast

lemma confined_no_link:
  assumes "fs_wf fs" "proper_path (ws_root w)" "resolve fs w rel = Inr q"
  shows "node_at fs q \<noteq> Some (Link ab t)"
  using confined [OF assms] by (simp add: safe_path_def no_link_def)

end

interpretation ws_paths: path_resolver resolve_path
  by unfold_locales (simp add: resolve_path_safe)

section \<open>Properties\<close>

text \<open>
  C13. A path that \<open>ResolvePath\<close> returns lies inside the workspace, and no component of it, the
  last one included, is a symbolic link: whatever links the server's path went through, the
  calls made on the result stay inside.
\<close>

theorem resolve_path_confined:
  assumes "fs_wf fs" "proper_path (ws_root w)" "resolve_path fs w rel = Inr q"
  shows "prefix (ws_root w) q \<and> (\<forall>p ab t. prefix p q \<longrightarrow> node_at fs p \<noteq> Some (Link ab t))"
  using ws_paths.confined [OF assms] safe_path_prefix [of fs q]
  by (auto simp: safe_path_def [of _ "_ :: path"] no_link_def)

definition demo_fs :: fs where
  "demo_fs = [([''w''], Dir), ([''w'', ''a''], Dir), ([''w'', ''a'', ''f''], File ''hi'' 420),
     ([''w'', ''in''], Link False [''a'']), ([''w'', ''out''], Link True [''etc'']),
     ([''etc''], Dir)]"

definition demo_ws :: workspace where
  "demo_ws = \<lparr>ws_id = ''WS-00000000-0000-7000-8000-000000000000'', ws_project = ''P'', ws_root = [''w''], ws_registered_at = 0,
     ws_revision = 0\<rparr>"

lemma demo_fs_wf: "fs_wf demo_fs"
  by (rule fs_ok_wf) code_simp

lemma demo_root: "proper_path (ws_root demo_ws)"
  by code_simp

theorem resolve_path_confined_witness:
  "resolve_path demo_fs demo_ws ''in/f'' = Inr [''w'', ''a'', ''f'']
    \<and> prefix (ws_root demo_ws) [''w'', ''a'', ''f'']"
proof -
  have r: "resolve_path demo_fs demo_ws ''in/f'' = Inr [''w'', ''a'', ''f'']" by code_simp
  with resolve_path_confined [OF demo_fs_wf demo_root r] show ?thesis by blast
qed

text \<open>
  C15. Ordinary names are accepted: a relative path of proper names with no link on it and no
  surrounding space resolves to the root followed by these names, whether the file exists
  or not.
\<close>

theorem resolve_path_plain:
  assumes "fs_wf fs" "ns \<noteq> []" "safe_path fs (ws_root w @ ns)" "trim_space (rel_string ns) = rel_string ns"
  shows "resolve_path fs w (rel_string ns) = Inr (ws_root w @ ns)"
proof -
  have pr: "proper_path ns" "proper_path (ws_root w @ ns)" using assms(3) by (auto simp: safe_path_def)
  note lex = rel_string_lexical [OF pr(1) assms(2)]
  have "within_root (ws_root w) (ws_root w @ ns)" using pr(2) by (subst within_root_iff) auto
  with resolve_existing_plain [OF assms(1,3)] show ?thesis
    using lex join_rel_string [OF pr(1) assms(2)] assms(4) by (auto simp: resolve_path_def Let_def)
qed

theorem resolve_path_plain_witness:
  "resolve_path demo_fs demo_ws (rel_string [''a'', ''new'', ''g'']) = Inr ([''w''] @ [''a'', ''new'', ''g''])"
proof -
  have "safe_path demo_fs [''w'', ''a'', ''new'', ''g'']"
  proof -
    have "plain_path demo_fs [''w'', ''a'', ''new'', ''g'']"
      by (auto simp: plain_path_def strict_prefix_def prefix_Cons demo_fs_def node_at_def)
    moreover have "no_link demo_fs [''w'', ''a'', ''new'', ''g'']"
      by (simp add: no_link_def demo_fs_def node_at_def)
    moreover have "proper_path [''w'', ''a'', ''new'', ''g''] \<and> \<not> has_nul [''w'', ''a'', ''new'', ''g'']"
      by code_simp
    ultimately show ?thesis by (simp add: safe_path_def)
  qed
  moreover have "trim_space (rel_string [''a'', ''new'', ''g'']) = rel_string [''a'', ''new'', ''g'']"
    by code_simp
  ultimately show ?thesis
    using resolve_path_plain [OF demo_fs_wf, of "[''a'', ''new'', ''g'']" demo_ws]
    by (simp add: demo_ws_def)
qed

lemma resolve_path_outside:
  assumes "proper_path (ws_root w)" "resolve_path fs w rel = Inl e"
    "error_code e = Some PathOutsideWorkspace"
  shows "is_abs (trim_space rel) \<or> is_escape_rel (clean (trim_space rel))"
proof (rule ccontr)
  assume neg: "\<not> ?thesis"
  let ?rel = "trim_space rel"
  have ne: "?rel \<noteq> []" "clean ?rel \<noteq> ''.''" "clean ?rel \<noteq> ''/''"
    using assms(2,3) neg by (auto simp: resolve_path_def Let_def split: if_splits)
  obtain ns where ns: "clean ?rel = rel_string ns" "proper_path ns" "ns \<noteq> []"
    using clean_rel [of ?rel] neg ne by blast
  let ?p = "ws_root w @ ns"
  have p: "join_path (ws_root w) (clean ?rel) = ?p" "proper_path ?p" "within_root (ws_root w) ?p"
    using ns assms(1) within_root_iff [of ?p] by (auto simp: join_rel_string)
  then obtain q where q: "resolve_existing fs ?p = Inr (q, False)" "\<not> within_root (ws_root w) q"
    using assms(2,3) neg ne
    by (auto simp: resolve_path_def Let_def split: sum.splits if_splits)
  with resolve_existing_no_symlink [OF q(1) p(2)] p(3) show False by simp
qed

text \<open>
  C16. Errors of \<open>ResolvePath\<close> tell what was wrong: PATH_OUTSIDE_WORKSPACE is answered exactly
  for absolute paths and paths that climb out with \<open>..\<close>; an escape through a link is never
  reported that way (so the two checks made after cleaning answer SYMLINK_ESCAPE only), and
  every other refusal is INVALID_PATH.
\<close>

theorem resolve_path_errors:
  assumes "proper_path (ws_root w)" "resolve_path fs w rel = Inl e"
  shows "(error_code e = Some PathOutsideWorkspace \<longleftrightarrow>
      is_abs (trim_space rel) \<or> is_escape_rel (clean (trim_space rel)))
    \<and> error_code e \<in> {Some PathOutsideWorkspace, Some SymlinkEscape, Some InvalidPath}"
proof (rule conjI)
  show "error_code e \<in> {Some PathOutsideWorkspace, Some SymlinkEscape, Some InvalidPath}"
    using assms(2) by (auto simp: resolve_path_def Let_def split: sum.splits if_splits)
  have [simp]: "clean [] = ''.''" by (simp add: clean_def)
  show "error_code e = Some PathOutsideWorkspace \<longleftrightarrow>
      is_abs (trim_space rel) \<or> is_escape_rel (clean (trim_space rel))"
    using assms(2) resolve_path_outside [OF assms]
    by (auto simp: resolve_path_def is_abs_def has_prefix_iff is_escape_rel_def Let_def split: if_splits)
qed

theorem resolve_path_errors_witness:
  "(case resolve_path demo_fs demo_ws ''out/passwd'' of Inl e \<Rightarrow> error_code e | Inr _ \<Rightarrow> None) = Some SymlinkEscape
   \<and> (case resolve_path demo_fs demo_ws ''a/../../etc'' of Inl e \<Rightarrow> error_code e | Inr _ \<Rightarrow> None)
      = Some PathOutsideWorkspace"
proof -
  let ?r = "resolve_path demo_fs demo_ws ''a/../../etc''"
  have "\<not> is_ok ?r" by code_simp
  then obtain e where e: "?r = Inl e" by (cases ?r) auto
  have "is_escape_rel (clean (trim_space ''a/../../etc''))" by code_simp
  with resolve_path_errors [OF demo_root e] have "error_code e = Some PathOutsideWorkspace" by blast
  moreover have "(case resolve_path demo_fs demo_ws ''out/passwd'' of Inl e \<Rightarrow> error_code e | Inr _ \<Rightarrow> None)
      = Some SymlinkEscape" by code_simp
  ultimately show ?thesis using e by simp
qed

end
