(* ===== verification/Path_Stability.thy ===== *)
theory Path_Stability
  imports Workspace_Path
begin

text \<open>
  Path resolution depends on the links of the file system only: while files and directories
  come and go, a path that resolves keeps its meaning. The reference walk below follows links
  and takes every other name as it is.
\<close>

definition links :: "fs \<Rightarrow> path \<Rightarrow> (bool \<times> string list) option" where
  "links fs p = (case node_at fs p of Some (Link ab t) \<Rightarrow> Some (ab, t) | _ \<Rightarrow> None)"

function link_walk ::
  "(path \<Rightarrow> (bool \<times> string list) option) \<Rightarrow> nat \<Rightarrow> path \<Rightarrow> string list \<Rightarrow> path option" where
  "link_walk L n dest [] = Some dest"
| "link_walk L n dest (c # cs) =
     (if c = ''.'' then link_walk L n dest cs
      else if c = ''..'' then link_walk L n (butlast dest) cs
      else case L (dest @ [c]) of
        None \<Rightarrow> link_walk L n (dest @ [c]) cs
      | Some (ab, t) \<Rightarrow>
          (case n of 0 \<Rightarrow> None | Suc k \<Rightarrow> link_walk L k (if ab then [] else dest) (t @ cs)))"
  by pat_completeness auto
termination
  by (relation "measures [\<lambda>(L, n, d, cs). n, \<lambda>(L, n, d, cs). length cs]") auto

lemma links_None: "links fs p = None \<longleftrightarrow> no_link fs p"
  by (auto simp: links_def no_link_def split: option.splits node.splits)

lemma walk_link_walk:
  "walk fs True n dest cs = Inr (q, nd) \<Longrightarrow> \<exists>k. link_walk (links fs) n dest (cs @ ms) = link_walk (links fs) k q ms"
proof (induction fs "True" n dest cs rule: walk.induct)
  case (2 fs n dest c cs)
  note unfold = link_walk.simps(2) [of "links fs" n dest c "cs @ ms"]
  show ?case
  proof (cases "c = ''.'' \<or> c = ''..''")
    case True
    with 2 show ?thesis by auto
  next
    case names: False
    show ?thesis
    proof (cases "node_at fs (dest @ [c])")
      case None
      with names "2.prems" show ?thesis by (auto simp: unfold Let_def links_def split: if_splits)
    next
      case (Some nd')
      show ?thesis
      proof (cases nd')
        case Dir
        with names Some "2.prems" have "walk fs True n (dest @ [c]) cs = Inr (q, nd)" by (simp add: Let_def)
        with "2.hyps"(3) [of "dest @ [c]" Dir] names Some Dir show ?thesis by (auto simp: links_def)
      next
        case (File d m)
        with names Some "2.prems" show ?thesis by (auto simp: unfold Let_def links_def split: if_splits)
      next
        case (Link ab t)
        then obtain k where k: "n = Suc k" "walk fs True k (if ab then [] else dest) (t @ cs) = Inr (q, nd)"
          using names Some "2.prems" by (auto simp: Let_def split: nat.splits)
        with "2.hyps"(4) [OF _ _ refl Some Link _ k] names Some Link show ?thesis
          by (auto simp: links_def)
      qed
    qed
  qed
qed auto

lemma link_walk_plain:
  "proper_path ms \<Longrightarrow> (\<And>r. prefix r ms \<Longrightarrow> L (q @ r) = None) \<Longrightarrow> link_walk L k q ms = Some (q @ ms)"
proof (induction ms arbitrary: q)
  case (Cons c cs)
  have c: "c \<noteq> ''.''" "c \<noteq> ''..''" using Cons.prems(1) by (auto simp: proper_def)
  have "L (q @ [c]) = None" using Cons.prems(2) [of "[c]"] by simp
  moreover have "link_walk L k (q @ [c]) cs = Some ((q @ [c]) @ cs)"
    using Cons.prems by (intro Cons.IH) (auto dest: Cons.prems(2) [of "c # _", simplified])
  ultimately show ?case using c by simp
qed simp

text \<open>What \<open>resolveExisting\<close> answers: an existing path followed by names of its argument.\<close>

lemma resolve_existing_Inr:
  assumes "fs_wf fs" "proper_path p" "resolve_existing fs p = Inr (q, had)"
  obtains c e m where "p = c @ m" "q = e @ m" "eval_symlinks fs c = Inr e" "safe_path fs q"
proof -
  obtain c m h e where s: "scan_existing fs p p [] = Inr (c, m, h)" "eval_symlinks fs c = Inr e"
    and q: "q = fold (\<lambda>seg out. join_path out seg) m e"
    using assms(3) by (auto simp: resolve_existing_def Let_def split: sum.splits)
  note sc = scan_existing_Inr [OF s(1), simplified]
  then have pr: "proper_path (c @ m)" using assms(2) by simp
  have "safe_path fs (e @ m)"
    by (rule resolved_safe [OF assms(1) pr s(2)]) (use sc in auto)
  moreover have "proper_path e"
    using s(2) by (rule eval_symlinks_node) (use fs_wf_proper [OF assms(1)] in blast)
  then have "q = e @ m" using q pr by (simp add: fold_join_proper)
  ultimately show thesis using sc s(2) by (intro that [of c m e]) auto
qed

lemma resolve_existing_link_walk:
  assumes "fs_wf fs" "proper_path p" "resolve_existing fs p = Inr (q, had)"
  shows "link_walk (links fs) eval_links [] p = Some q"
proof -
  obtain c e m where r: "p = c @ m" "q = e @ m" "eval_symlinks fs c = Inr e" "safe_path fs q"
    using assms by (rule resolve_existing_Inr)
  obtain nd where "walk fs True eval_links [] c = Inr (e, Some nd)"
    using r(3) by (auto simp: eval_symlinks_Inr)
  then obtain k where "link_walk (links fs) eval_links [] (c @ m) = link_walk (links fs) k e m"
    using walk_link_walk by blast
  moreover have "link_walk (links fs) k e m = Some (e @ m)"
  proof (rule link_walk_plain)
    show "proper_path m" using assms(2) r(1) by simp
    fix s
    assume "prefix s m"
    then have "safe_path fs (e @ s)" using safe_path_prefix [OF r(4)] r(2) by simp
    then show "links fs (e @ s) = None" by (simp add: links_None safe_path_def)
  qed
  ultimately show ?thesis using r(1,2) by simp
qed

lemma set_clean_names: "set (clean_names r st cs) \<subseteq> set st \<union> set cs \<union> {''..''}"
proof (induction r st cs rule: clean_names.induct)
  case (2 rooted st c cs)
  then show ?case by (cases st) (auto split: if_splits)
qed auto

text \<open>The path that the server names, joined to the root.\<close>

lemma resolve_path_joined:
  assumes "proper_path (ws_root w)" "resolve_path fs w k = Inr q"
  obtains ns had where "resolve_existing fs (ws_root w @ ns) = Inr (q, had)" "proper_path (ws_root w @ ns)"
    "set ns \<subseteq> set (split_on slash (trim_space k)) \<union> {''..''}" "ns \<noteq> []"
    "join_path (ws_root w) (clean (trim_space k)) = ws_root w @ ns"
proof -
  let ?k = "trim_space k"
  note r = resolve_path_Inr [OF assms(2)]
  have "clean ?k \<noteq> ''.''" using assms(2) by (auto simp: resolve_path_def Let_def split: if_splits)
  with r(1-3) obtain ns where ns: "clean ?k = rel_string ns" "proper_path ns" "ns \<noteq> []"
    using clean_rel [of ?k] by blast
  have "ns = clean_names False [] (split_on slash ?k)"
  proof -
    have "clean ?k = join_with slash (clean_names False [] (split_on slash ?k))"
      "clean_names False [] (split_on slash ?k) \<noteq> []"
      using r(1,2) \<open>clean ?k \<noteq> ''.''\<close> by (auto simp: clean_def Let_def split: if_splits)
    moreover have "split_on slash (join_with slash (clean_names False [] (split_on slash ?k)))
        = clean_names False [] (split_on slash ?k)"
      using set_clean_names [of False "[]" "split_on slash ?k"] calculation(2)
      by (intro split_join) (auto dest: split_on_no_sep simp: slash_def)
    ultimately show ?thesis using rel_string_split [OF ns(2,3)] ns(1) by simp
  qed
  then have set: "set ns \<subseteq> set (split_on slash ?k) \<union> {''..''}"
    using set_clean_names [of False "[]" "split_on slash ?k"] by simp
  have j: "join_path (ws_root w) (clean ?k) = ws_root w @ ns"
    unfolding ns(1) by (rule join_rel_string [OF ns(2,3)])
  obtain had where "resolve_existing fs (ws_root w @ ns) = Inr (q, had)" using r(4) unfolding j by blast
  moreover have "proper_path (ws_root w @ ns)" using ns(2) assms(1) by (simp only: list_all_append)
  ultimately show thesis using set ns(3) j by (rule that)
qed

text \<open>
  Two states of the file system with the same links agree on every path that both resolve.
\<close>

lemma resolve_path_stable:
  assumes "fs_wf fs" "fs_wf fs'" "links fs' = links fs" "proper_path (ws_root w)"
    and "resolve_path fs w k = Inr q" "resolve_path fs' w k = Inr q'"
  shows "q' = q"
proof -
  obtain ns had where a: "resolve_existing fs (ws_root w @ ns) = Inr (q, had)" "proper_path (ws_root w @ ns)"
    "join_path (ws_root w) (clean (trim_space k)) = ws_root w @ ns"
    using resolve_path_joined [OF assms(4,5)] by metis
  obtain ns' had' where b: "resolve_existing fs' (ws_root w @ ns') = Inr (q', had')"
    "join_path (ws_root w) (clean (trim_space k)) = ws_root w @ ns'"
    using resolve_path_joined [OF assms(4,6)] by metis
  have "resolve_existing fs' (ws_root w @ ns) = Inr (q', had')" using a(3) b by simp
  with resolve_existing_link_walk [OF assms(2) a(2)] resolve_existing_link_walk [OF assms(1) a(2,1)] assms(3)
  show ?thesis by simp
qed

text \<open>
  C14. The meaning of a path does not depend on files and directories: when two states of the
  file system have the same symbolic links, a path that \<open>ResolvePath\<close> accepts in both names the
  same file in both. (The agent itself never creates or removes links, so what was proposed,
  approved and applied under one path is one file.)
\<close>

theorem resolve_path_meaning_stable:
  assumes "fs_wf fs" "fs_wf fs'" "\<And>p ab t. node_at fs p = Some (Link ab t) \<longleftrightarrow> node_at fs' p = Some (Link ab t)"
    and "proper_path (ws_root w)" "resolve_path fs w k = Inr q" "resolve_path fs' w k = Inr q'"
  shows "q = q'"
proof -
  have "links fs' p = links fs p" for p
  proof (cases "links fs p")
    case None
    then have "no_link fs' p" using assms(3) by (simp add: links_None no_link_def)
    with None show ?thesis by (simp add: links_None [symmetric])
  next
    case (Some l)
    then have "node_at fs p = Some (Link (fst l) (snd l))"
      by (auto simp: links_def split: option.splits node.splits)
    with assms(3) have "node_at fs' p = Some (Link (fst l) (snd l))" by blast
    with Some show ?thesis by (simp add: links_def)
  qed
  then have "links fs' = links fs" by blast
  from resolve_path_stable [OF assms(1,2) this assms(4-6)] show ?thesis by simp
qed

theorem resolve_path_meaning_stable_witness:
  "let fs' = AList.delete [''w'', ''a'', ''f''] demo_fs
   in resolve_path demo_fs demo_ws ''in/f'' = resolve_path fs' demo_ws ''in/f''"
proof -
  let ?fs' = "AList.delete [''w'', ''a'', ''f''] demo_fs"
  have wf: "fs_wf ?fs'" by (rule fs_ok_wf) code_simp
  have "is_ok (resolve_path demo_fs demo_ws ''in/f'')" "is_ok (resolve_path ?fs' demo_ws ''in/f'')"
    by code_simp+
  then obtain q q' where q: "resolve_path demo_fs demo_ws ''in/f'' = Inr q"
    "resolve_path ?fs' demo_ws ''in/f'' = Inr q'" by (metis is_okE)
  have "node_at demo_fs p = Some (Link ab t) \<longleftrightarrow> node_at ?fs' p = Some (Link ab t)" for p ab t
    by (simp add: node_at_def delete_conv' demo_fs_def)
  from resolve_path_meaning_stable [OF demo_fs_wf wf this demo_root q] q show ?thesis by simp
qed

end
