(* ===== verification/Protocol_Versioning.thy ===== *)
theory Protocol_Versioning
  imports Protocol_Errors
begin

text \<open>
  \<open>protocol/versioning/version.go\<close>: the protocol version string, its parser and the
  compatibility rule (same major version). Errors carry their text.
\<close>

definition version_name :: string where
  "version_name = ''oncode-tool''"

definition version_major :: int where
  "version_major = 1"

definition version_current :: string where
  "version_current = ''oncode-tool/1.0''"

record version =
  major :: int
  minor :: int

definition version_string :: "version \<Rightarrow> string" where
  "version_string v = version_name @ ''/'' @ itoa (major v) @ ''.'' @ itoa (minor v)"

definition unsupported_version :: "string \<Rightarrow> string" where
  "unsupported_version s = ''protocol version '' @ go_quote s @ '': unsupported''"

definition parse_version :: "string \<Rightarrow> string + version" where
  "parse_version s0 =
     (let s = trim_space s0; pre = version_name @ ''/'' in
      if \<not> has_prefix s pre then Inl (unsupported_version s)
      else
        let rest = drop (length pre) s; parts = split_on (CHR ''.'') rest in
        if length parts \<noteq> 2 then Inl (unsupported_version s)
        else case parse_int (parts ! 0) of
          None \<Rightarrow> Inl (unsupported_version s)
        | Some maj \<Rightarrow>
            (case parse_int (parts ! 1) of
               None \<Rightarrow> Inl (unsupported_version s)
             | Some mi \<Rightarrow>
                 if maj < 1 \<or> mi < 0 then Inl (unsupported_version s)
                 else Inr \<lparr>major = maj, minor = mi\<rparr>))"

text \<open>\<open>Compatible\<close> returns the error text, \<open>None\<close> for a nil error.\<close>

definition compatible :: "version \<Rightarrow> string option" where
  "compatible peer =
     (if major peer \<noteq> version_major
      then Some (version_string peer @ '': incompatible major version'')
      else if major peer = version_major \<and> minor peer < 0
      then Some (version_string peer @ '': invalid minor'')
      else None)"

definition parse_compatible :: "string \<Rightarrow> string + version" where
  "parse_compatible s =
     (case parse_version s of
        Inl e \<Rightarrow> Inl e
      | Inr v \<Rightarrow> (case compatible v of Some e \<Rightarrow> Inl e | None \<Rightarrow> Inr v))"

section \<open>Round trip\<close>

lemma itoa_nonneg: "0 \<le> i \<Longrightarrow> itoa i = nat_digits (nat i)"
  by (simp add: itoa_def)

lemma nat_digits_no_dot: "CHR ''.'' \<notin> set (nat_digits n)"
proof
  assume "CHR ''.'' \<in> set (nat_digits n)"
  then obtain d where "d < 10" "CHR ''.'' = digit_char d" using set_nat_digits by blast
  then show False using digit_char_plain(4) by metis
qed

lemma last_nat_digits_plain: "plain_byte (last (nat_digits n))"
  using set_nat_digits [OF last_in_set [OF nat_digits_neq_Nil]] digit_char_plain(1) by metis

lemma parse_version_string:
  assumes "1 \<le> major v" "0 \<le> minor v" "int64_range (major v)" "int64_range (minor v)"
  shows "parse_version (version_string v) = Inr v"
proof -
  let ?s = "version_string v"
  have s: "?s = version_name @ ''/'' @ nat_digits (nat (major v)) @ ''.'' @ nat_digits (nat (minor v))"
    using assms by (simp add: version_string_def itoa_nonneg)
  have "trim_space ?s = ?s"
    by (rule trim_space_plain)
      (simp_all add: s version_name_def last_nat_digits_plain plain_byte_def [of "CHR ''o''"])
  moreover have "split_on (CHR ''.'') (itoa (major v) @ ''.'' @ itoa (minor v))
      = [itoa (major v), itoa (minor v)]"
    using assms by (simp add: itoa_nonneg split_on_append_sep split_on_no_sep_id nat_digits_no_dot)
  ultimately show ?thesis
    using assms
    by (simp add: parse_version_def version_string_def version_name_def has_prefix_def
        parse_int_itoa Let_def)
qed

lemma parse_version_bounds:
  "parse_version s = Inr v \<Longrightarrow> 1 \<le> major v \<and> 0 \<le> minor v"
  by (auto simp: parse_version_def Let_def split: if_splits option.splits)

lemma parse_compatible_iff:
  "parse_compatible s = Inr v \<longleftrightarrow> parse_version s = Inr v \<and> major v = 1"
  using parse_version_bounds [of s v]
  by (auto simp: parse_compatible_def compatible_def version_major_def split: sum.splits option.splits if_splits)

end
