(* ===== verification/Protocol_Messages.thy ===== *)
theory Protocol_Messages
  imports Protocol_Ids Protocol_Versioning
begin

text \<open>
  \<open>protocol/messages/messages.go\<close> and \<open>events.go\<close>: the messages exchanged with the server and
  their validation. Go string types (message types, statuses, operations, decisions) stay
  strings; a \<open>json.RawMessage\<close> is the JSON value it holds, \<open>None\<close> when it is absent or no
  valid JSON. A validation returns the text of the error, \<open>None\<close> for a nil error; a list of
  checks is answered by its first failing one, as the early returns of the code do.
\<close>

fun first_error :: "string option list \<Rightarrow> string option" where
  "first_error [] = None"
| "first_error (None # cs) = first_error cs"
| "first_error (Some e # cs) = Some e"

definition check :: "bool \<Rightarrow> string \<Rightarrow> string option" where
  "check ok msg = (if ok then None else Some msg)"

lemma first_error_None [simp]: "first_error cs = None \<longleftrightarrow> (\<forall>c\<in>set cs. c = None)"
  by (induction cs rule: first_error.induct) auto

lemma check_None [simp]: "check ok msg = None \<longleftrightarrow> ok"
  by (simp add: check_def)

section \<open>Envelopes\<close>

definition message_types :: "string list" where
  "message_types = [''REQUEST'', ''RESPONSE'', ''EVENT'', ''CANCEL'', ''ACK'']"

record actor =
  actor_type :: string
  actor_id :: string

record target =
  target_type :: string
  target_id :: string

record envelope =
  env_protocol :: string
  env_type :: string
  env_message_id :: string
  env_timestamp :: string
  env_session :: string
  env_project :: string
  env_workspace :: string
  env_workflow :: string
  env_work_item :: string
  env_task :: string
  env_actor :: "actor option"
  env_target :: "target option"
  env_payload :: "json option"

definition empty_envelope :: envelope where
  "empty_envelope =
     \<lparr>env_protocol = [], env_type = [], env_message_id = [], env_timestamp = [], env_session = [],
      env_project = [], env_workspace = [], env_workflow = [], env_work_item = [], env_task = [],
      env_actor = None, env_target = None, env_payload = None\<rparr>"

text \<open>\<open>NewEnvelope\<close>; \<open>stamp\<close> is the formatted clock, \<open>payload\<close> the marshalled value.\<close>

definition new_envelope ::
  "u8 list option \<Rightarrow> int \<Rightarrow> string \<Rightarrow> string \<Rightarrow> json option \<Rightarrow> string + envelope" where
  "new_envelope rnd now stamp message_type payload =
     (case new_id KMessage rnd now of
        Inl e \<Rightarrow> Inl e
      | Inr mid \<Rightarrow>
          (case payload of
             None \<Rightarrow> Inl ''json: unsupported value''
           | Some raw \<Rightarrow>
               Inr (empty_envelope\<lparr>env_protocol := version_current, env_type := message_type,
                 env_message_id := mid, env_timestamp := stamp, env_payload := Some raw\<rparr>)))"

text \<open>An optional identifier: checked when it is not empty.\<close>

definition optional_id :: "kind \<Rightarrow> string \<Rightarrow> string option" where
  "optional_id k i = (if i \<noteq> [] then validate_id k i else None)"

definition validate_envelope :: "envelope option \<Rightarrow> string option" where
  "validate_envelope eo =
     (case eo of
        None \<Rightarrow> Some ''nil envelope''
      | Some e \<Rightarrow>
          (case parse_compatible (env_protocol e) of
             Inl err \<Rightarrow> Some (code_text ProtocolVersionUnsupported @ '': '' @ err)
           | Inr _ \<Rightarrow>
               first_error
                 [check (env_type e \<in> set message_types) (''invalid message_type '' @ go_quote (env_type e)),
                  validate_id KMessage (env_message_id e),
                  check (env_timestamp e \<noteq> []) ''timestamp required'',
                  optional_id KSession (env_session e),
                  optional_id KProject (env_project e),
                  optional_id KWorkspace (env_workspace e),
                  optional_id KWorkflow (env_workflow e),
                  optional_id KWorkItem (env_work_item e),
                  optional_id KTask (env_task e)]))"

section \<open>Tool calls\<close>

definition tool_statuses :: "string list" where
  "tool_statuses =
     [''SUCCESS'', ''FAILED'', ''PARTIAL'', ''ACCEPTED'', ''RUNNING'', ''CANCELLED'', ''REJECTED'', ''TIMEOUT'']"

record tool_request =
  req_call_id :: string
  req_tool :: string
  req_arguments :: "jmap option"
  req_timeout_ms :: "int option"

text \<open>\<open>Validate\<close> also replaces nil arguments by an empty map.\<close>

definition validate_request :: "tool_request \<Rightarrow> tool_request \<times> string option" where
  "validate_request p =
     (case validate_id KCall (req_call_id p) of
        Some e \<Rightarrow> (p, Some e)
      | None \<Rightarrow>
          if req_tool p = [] then (p, Some ''tool required'')
          else if req_arguments p = None then (p\<lparr>req_arguments := Some []\<rparr>, None)
          else (p, None))"

record tool_response =
  resp_call_id :: string
  resp_status :: string
  resp_result :: "json option"
  resp_error :: "proto_error option"
  resp_duration_ms :: "int option"

definition validate_response :: "tool_response \<Rightarrow> string option" where
  "validate_response p =
     first_error
       ([validate_id KCall (resp_call_id p),
         check (resp_status p \<in> set tool_statuses) (''invalid status '' @ go_quote (resp_status p))] @
        (if resp_status p = ''FAILED'' then
           (case resp_error p of
              None \<Rightarrow> [Some ''error required when status is FAILED'']
            | Some e \<Rightarrow> [check (known_code (err_code e)) (''unknown error code '' @ go_quote (code_text (err_code e)))])
         else []))"

section \<open>Events and heartbeats\<close>

record event_payload =
  event_name :: string
  event_execution :: string
  event_data :: "json option"

record heartbeat =
  hb_agent_id :: string
  hb_protocol_version :: string
  hb_timestamp :: string

definition validate_heartbeat :: "heartbeat \<Rightarrow> string option" where
  "validate_heartbeat h =
     first_error
       [check (hb_agent_id h \<noteq> []) ''agent_id required'',
        (case parse_compatible (hb_protocol_version h) of Inl e \<Rightarrow> Some e | Inr _ \<Rightarrow> None),
        check (hb_timestamp h \<noteq> []) ''timestamp required'']"

definition event_chat_submit :: string where "event_chat_submit = ''chat.submit''"
definition event_workflow_progress :: string where "event_workflow_progress = ''workflow.progress''"
definition event_question_ask :: string where "event_question_ask = ''question.ask''"
definition event_question_answer :: string where "event_question_answer = ''question.answer''"
definition event_design_review :: string where "event_design_review = ''design.review''"
definition event_change_proposed :: string where "event_change_proposed = ''change.proposed''"
definition event_diff_review :: string where "event_diff_review = ''diff.review''"
definition event_approval_decide :: string where "event_approval_decide = ''approval.decide''"
definition event_approval_bind :: string where "event_approval_bind = ''approval.bind''"
definition event_apply_completed :: string where "event_apply_completed = ''apply.completed''"
definition event_session_restore :: string where "event_session_restore = ''session.restore''"
definition event_error :: string where "event_error = ''error''"
definition event_agent_register :: string where "event_agent_register = ''agent.register''"
definition event_agent_heartbeat :: string where "event_agent_heartbeat = ''agent.heartbeat''"

lemmas event_defs =
  event_chat_submit_def event_workflow_progress_def event_question_ask_def
  event_question_answer_def event_design_review_def event_change_proposed_def
  event_diff_review_def event_approval_decide_def event_approval_bind_def
  event_apply_completed_def event_session_restore_def event_error_def
  event_agent_register_def event_agent_heartbeat_def

section \<open>Approvals and change sets\<close>

record approval =
  apr_id :: string
  apr_type :: string
  apr_decision :: string
  apr_reason :: string
  apr_diff_hash :: string
  apr_resource :: string

definition validate_approval :: "approval \<Rightarrow> string option" where
  "validate_approval a =
     first_error
       [validate_id KApproval (apr_id a),
        check (apr_decision a = ''APPROVE'' \<or> apr_decision a = ''REJECT'')
          (''invalid decision '' @ go_quote (apr_decision a)),
        check (apr_decision a = ''REJECT'' \<longrightarrow> apr_reason a \<noteq> []) ''reject reason required'']"

definition op_create :: string where "op_create = ''CREATE''"
definition op_modify :: string where "op_modify = ''MODIFY''"
definition op_delete :: string where "op_delete = ''DELETE''"
definition op_rename :: string where "op_rename = ''RENAME''"

lemmas op_defs = op_create_def op_modify_def op_delete_def op_rename_def

record file_change =
  fc_path :: string
  fc_operation :: string
  fc_base_hash :: string
  fc_content :: string
  fc_target :: string

record change_set =
  cs_id :: string
  cs_workspace :: string
  cs_base_revision :: string
  cs_changes :: "file_change list"

definition validate_change :: "file_change \<Rightarrow> string option" where
  "validate_change c =
     (let oper = fc_operation c in
      first_error
        [check (fc_path c \<noteq> []) ''change path required'',
         check (oper \<in> {op_create, op_modify, op_delete, op_rename})
           (''invalid operation '' @ go_quote oper),
         check (oper \<in> {op_modify, op_delete, op_rename} \<longrightarrow> fc_base_hash c \<noteq> [])
           (''base_hash required for '' @ oper),
         check (oper = op_rename \<longrightarrow> fc_target c \<noteq> []) ''target_path required for RENAME''])"

definition validate_change_set :: "change_set \<Rightarrow> string option" where
  "validate_change_set p =
     first_error
       ([validate_id KChangeSet (cs_id p), optional_id KWorkspace (cs_workspace p),
         check (cs_changes p \<noteq> []) ''changes required''] @
        map validate_change (cs_changes p))"

record actual_diff =
  ad_change_set :: string
  ad_diff :: string
  ad_hash :: string
  ad_workspace :: string

definition validate_actual_diff :: "actual_diff \<Rightarrow> string option" where
  "validate_actual_diff d =
     first_error
       [validate_id KChangeSet (ad_change_set d), check (ad_hash d \<noteq> []) ''diff_hash required'']"

section \<open>Facts\<close>

lemma validate_request_None:
  "validate_request p = (p', None) \<Longrightarrow>
    validate_id KCall (req_call_id p') = None \<and> req_tool p' \<noteq> [] \<and> req_arguments p' \<noteq> None
    \<and> req_call_id p' = req_call_id p \<and> req_tool p' = req_tool p"
  by (auto simp: validate_request_def split: option.splits if_splits)

lemma validate_change_set_None:
  assumes "validate_change_set cs = None"
  shows "validate_id KChangeSet (cs_id cs) = None" "cs_changes cs \<noteq> []"
    "ch \<in> set (cs_changes cs) \<Longrightarrow> validate_change ch = None"
  using assms by (auto simp: validate_change_set_def)

lemma validate_change_None:
  "validate_change c = None \<longleftrightarrow>
    fc_path c \<noteq> [] \<and> fc_operation c \<in> {op_create, op_modify, op_delete, op_rename}
    \<and> (fc_operation c \<in> {op_modify, op_delete, op_rename} \<longrightarrow> fc_base_hash c \<noteq> [])
    \<and> (fc_operation c = op_rename \<longrightarrow> fc_target c \<noteq> [])"
  by (auto simp: validate_change_def Let_def)

lemma new_message_id_valid:
  assumes "length u = 16" "new_id KMessage (Some u) now = Inr i"
  shows "validate_id KMessage i = None"
  using parse_new_id [of KMessage u now i] assms by (auto simp: validate_id_None_iff)

lemma version_current_compatible: "is_ok (parse_compatible version_current)"
  by code_simp

text \<open>
  C30. Every envelope that \<open>NewEnvelope\<close> builds for one of the declared message types passes the
  validation that the peer applies, whatever random bytes and clock went into its identifier.
\<close>

theorem new_envelope_valid:
  assumes "length u = 16" "ty \<in> set message_types" "stamp \<noteq> []"
    and "new_envelope (Some u) now stamp ty payload = Inr e"
  shows "validate_envelope (Some e) = None"
proof -
  obtain mid where mid: "new_id KMessage (Some u) now = Inr mid" "env_message_id e = mid"
    "env_type e = ty" "env_timestamp e = stamp" "env_protocol e = version_current"
    "env_session e = []" "env_project e = []" "env_workspace e = []" "env_workflow e = []"
    "env_work_item e = []" "env_task e = []"
    using assms(4) by (auto simp: new_envelope_def empty_envelope_def split: sum.splits option.splits)
  obtain v where "parse_compatible version_current = Inr v"
    using version_current_compatible by (auto elim: is_okE)
  with mid assms(2,3) new_message_id_valid [OF assms(1) mid(1)] show ?thesis
    by (simp add: validate_envelope_def optional_id_def)
qed

theorem new_envelope_valid_witness:
  "\<exists>e. new_envelope (Some (replicate 16 255)) 1700000000000 ''t'' ''EVENT'' (Some JNull) = Inr e
    \<and> validate_envelope (Some e) = None"
proof -
  let ?r = "new_envelope (Some (replicate 16 255)) 1700000000000 ''t'' ''EVENT'' (Some JNull)"
  have "is_ok ?r" by code_simp
  then obtain e where e: "?r = Inr e" by (auto elim: is_okE)
  from new_envelope_valid [OF _ _ _ this] have "validate_envelope (Some e) = None"
    by (simp add: message_types_def)
  with e show ?thesis by blast
qed

end
