(* ===== verification/Diff_Unified.thy ===== *)
theory Diff_Unified
  imports Protocol_Errors
begin

text \<open>
  \<open>local-agent/internal/diff/unified.go\<close>: the per-file unified diff (one hunk over the whole
  file) computed from a longest-common-subsequence table, and the concatenation of
  per-file diffs. The table is built row by row from the last line, as the code does, and
  read by index. The lemmas relate it to a recursive specification, show that the edit
  script turns the old lines into the new ones and keeps as many lines as possible, and
  that the text of a diff determines both sides line by line.
\<close>

section \<open>Lines and the edit script\<close>

datatype op_kind = OpKeep | OpDel | OpAdd

record diff_op =
  op_kind :: op_kind
  op_line :: string

definition split_lines :: "string \<Rightarrow> string list" where
  "split_lines s =
     (if s = [] then []
      else
        let parts = split_on newline s in
        if last parts = [] then butlast parts else parts)"

text \<open>
  Row \<open>i\<close> of the table, from line \<open>x = a[i]\<close>, the lines \<open>b[j..]\<close> and the part \<open>below\<close> of row
  \<open>i + 1\<close> that starts at column \<open>j\<close>.
\<close>

fun lcs_row :: "string \<Rightarrow> string list \<Rightarrow> nat list \<Rightarrow> nat list" where
  "lcs_row x [] below = [0]"
| "lcs_row x (y # ys) below =
     (let right = lcs_row x ys (tl below) in
      (if x = y then hd (tl below) + 1
       else if hd right \<le> hd below then hd below
       else hd right) # right)"

fun lcs_table :: "string list \<Rightarrow> string list \<Rightarrow> nat list list" where
  "lcs_table [] b = [replicate (length b + 1) 0]"
| "lcs_table (x # a) b = (let rows = lcs_table a b in lcs_row x b (hd rows) # rows)"

text \<open>The forward walk over the table, with the two trailing loops.\<close>

function lcs_walk :: "nat list list \<Rightarrow> string list \<Rightarrow> string list \<Rightarrow> nat \<Rightarrow> nat \<Rightarrow> diff_op list" where
  "lcs_walk dp a b i j =
     (if i < length a \<and> j < length b then
        if a ! i = b ! j
        then \<lparr>op_kind = OpKeep, op_line = a ! i\<rparr> # lcs_walk dp a b (i + 1) (j + 1)
        else if dp ! i ! (j + 1) \<le> dp ! (i + 1) ! j
        then \<lparr>op_kind = OpDel, op_line = a ! i\<rparr> # lcs_walk dp a b (i + 1) j
        else \<lparr>op_kind = OpAdd, op_line = b ! j\<rparr> # lcs_walk dp a b i (j + 1)
      else
        map (\<lambda>l. \<lparr>op_kind = OpDel, op_line = l\<rparr>) (drop i a) @
        map (\<lambda>l. \<lparr>op_kind = OpAdd, op_line = l\<rparr>) (drop j b))"
  by pat_completeness auto
termination
  by (relation "measure (\<lambda>(dp, a, b, i, j). (length a - i) + (length b - j))") auto

declare lcs_walk.simps [simp del]

definition lcs_ops :: "string list \<Rightarrow> string list \<Rightarrow> diff_op list" where
  "lcs_ops a b = lcs_walk (lcs_table a b) a b 0 0"

section \<open>Rendering\<close>

definition render_op :: "diff_op \<Rightarrow> string" where
  "render_op p =
     (case op_kind p of OpKeep \<Rightarrow> CHR '' '' | OpDel \<Rightarrow> CHR ''-'' | OpAdd \<Rightarrow> CHR ''+'') #
     op_line p @ [newline]"

definition file_header :: "string \<Rightarrow> string \<Rightarrow> string \<Rightarrow> string" where
  "file_header path old_content new_content =
     (if old_content = [] then ''--- /dev/null'' @ newline # ''+++ b/'' @ path @ [newline]
      else if new_content = [] then ''--- a/'' @ path @ newline # ''+++ /dev/null'' @ [newline]
      else ''--- a/'' @ path @ newline # ''+++ b/'' @ path @ [newline])"

definition hunk_header :: "string list \<Rightarrow> string list \<Rightarrow> string" where
  "hunk_header old_lines new_lines =
     (let old_start = (if length old_lines = 0 then 0 else 1 :: int);
          new_start = (if length new_lines = 0 then 0 else 1 :: int)
      in ''@@ -'' @ itoa old_start @ '','' @ itoa (int (length old_lines)) @ '' +'' @
         itoa new_start @ '','' @ itoa (int (length new_lines)) @ '' @@'' @ [newline])"

definition unified_file :: "string \<Rightarrow> string \<Rightarrow> string \<Rightarrow> string" where
  "unified_file path0 old_content new_content =
     (let path1 = trim_prefix path0 ''/'';
          path = (if path1 = [] then ''unknown'' else path1);
          old_lines = split_lines old_content;
          new_lines = split_lines new_content
      in if old_content = [] \<and> new_content = [] then []
         else file_header path old_content new_content @ hunk_header old_lines new_lines @
              concat (map render_op (lcs_ops old_lines new_lines)))"

fun unified_join :: "string list \<Rightarrow> string" where
  "unified_join [] = []"
| "unified_join (p # parts) =
     (if p = [] then unified_join parts
      else p @ (if has_suffix p [newline] then [] else [newline]) @ unified_join parts)"

section \<open>The table is the longest common subsequence\<close>

text \<open>The recursive specification the table tabulates.\<close>

fun lcs_len :: "string list \<Rightarrow> string list \<Rightarrow> nat" where
  "lcs_len [] b = 0"
| "lcs_len a [] = 0"
| "lcs_len (x # a) (y # b) =
     (if x = y then lcs_len a b + 1 else max (lcs_len a (y # b)) (lcs_len (x # a) b))"

lemma lcs_len_Nil2 [simp]: "lcs_len a [] = 0"
  by (cases a) auto

definition suffix_lens :: "string list \<Rightarrow> string list \<Rightarrow> nat list" where
  "suffix_lens a b = map (\<lambda>j. lcs_len a (drop j b)) [0..<Suc (length b)]"

lemma suffix_lens_Cons: "suffix_lens a (y # b) = lcs_len a (y # b) # suffix_lens a b"
  by (simp add: suffix_lens_def map_upt_Suc del: upt_Suc)

lemma suffix_lens_Nil [simp]: "suffix_lens a [] = [0]"
  by (simp add: suffix_lens_def)

lemma hd_suffix_lens [simp]: "hd (suffix_lens a b) = lcs_len a b"
  by (cases b) (simp_all add: suffix_lens_Cons)

lemma lcs_row_correct: "lcs_row x b (suffix_lens a b) = suffix_lens (x # a) b"
proof (induction b)
  case Nil
  then show ?case by (simp add: suffix_lens_def)
next
  case (Cons y b)
  then show ?case by (auto simp: suffix_lens_Cons Let_def max_def)
qed

lemma lcs_table_correct:
  "lcs_table a b = map (\<lambda>i. suffix_lens (drop i a) b) [0..<Suc (length a)]"
proof (induction a)
  case Nil
  have "replicate (length b + 1) 0 = suffix_lens [] b"
    by (simp add: suffix_lens_def map_replicate_const)
  then show ?case by simp
next
  case (Cons x a)
  have "hd (lcs_table a b) = suffix_lens a b"
    by (simp add: Cons upt_conv_Cons del: upt_Suc)
  moreover have "map (\<lambda>i. suffix_lens (drop i (x # a)) b) [0..<Suc (length (x # a))]
      = suffix_lens (x # a) b # map (\<lambda>i. suffix_lens (drop i a) b) [0..<Suc (length a)]"
    by (simp add: map_upt_Suc del: upt_Suc)
  ultimately show ?case
    by (simp add: Let_def lcs_row_correct) (simp add: Cons)
qed

lemma lcs_table_nth:
  assumes "i \<le> length a" "j \<le> length b"
  shows "lcs_table a b ! i ! j = lcs_len (drop i a) (drop j b)"
  using assms by (simp add: lcs_table_correct suffix_lens_def del: upt_Suc)

section \<open>The edit script\<close>

definition old_side :: "diff_op list \<Rightarrow> string list" where
  "old_side ops = map op_line (filter (\<lambda>p. op_kind p \<noteq> OpAdd) ops)"

definition new_side :: "diff_op list \<Rightarrow> string list" where
  "new_side ops = map op_line (filter (\<lambda>p. op_kind p \<noteq> OpDel) ops)"

definition kept :: "diff_op list \<Rightarrow> string list" where
  "kept ops = map op_line (filter (\<lambda>p. op_kind p = OpKeep) ops)"

lemma sides_Cons [simp]:
  "old_side (p # ops) = (if op_kind p = OpAdd then old_side ops else op_line p # old_side ops)"
  "new_side (p # ops) = (if op_kind p = OpDel then new_side ops else op_line p # new_side ops)"
  "kept (p # ops) = (if op_kind p = OpKeep then op_line p # kept ops else kept ops)"
  by (auto simp: old_side_def new_side_def kept_def)

lemma sides_trailing [simp]:
  "old_side (map (\<lambda>l. \<lparr>op_kind = OpDel, op_line = l\<rparr>) a @ map (\<lambda>l. \<lparr>op_kind = OpAdd, op_line = l\<rparr>) b) = a"
  "new_side (map (\<lambda>l. \<lparr>op_kind = OpDel, op_line = l\<rparr>) a @ map (\<lambda>l. \<lparr>op_kind = OpAdd, op_line = l\<rparr>) b) = b"
  "kept (map (\<lambda>l. \<lparr>op_kind = OpDel, op_line = l\<rparr>) a @ map (\<lambda>l. \<lparr>op_kind = OpAdd, op_line = l\<rparr>) b) = []"
  by (auto simp: old_side_def new_side_def kept_def filter_map o_def)

lemma lcs_walk_sides:
  "i \<le> length a \<Longrightarrow> j \<le> length b \<Longrightarrow>
   old_side (lcs_walk dp a b i j) = drop i a \<and> new_side (lcs_walk dp a b i j) = drop j b"
proof (induction dp a b i j rule: lcs_walk.induct)
  case (1 dp a b i j)
  show ?case
  proof (cases "i < length a \<and> j < length b")
    case True
    then have "drop i a = a ! i # drop (Suc i) a" "drop j b = b ! j # drop (Suc j) b"
      by (simp_all add: Cons_nth_drop_Suc)
    with 1 True show ?thesis by (subst (1 2) lcs_walk.simps) auto
  next
    case False
    with 1 show ?thesis by (subst (1 2) lcs_walk.simps) auto
  qed
qed

lemma lcs_walk_kept:
  "i \<le> length a \<Longrightarrow> j \<le> length b \<Longrightarrow>
   length (kept (lcs_walk (lcs_table a b) a b i j)) = lcs_len (drop i a) (drop j b)"
proof (induction "lcs_table a b" a b i j rule: lcs_walk.induct)
  case (1 a b i j)
  show ?case
  proof (cases "i < length a \<and> j < length b")
    case True
    then have "drop i a = a ! i # drop (Suc i) a" "drop j b = b ! j # drop (Suc j) b"
      by (simp_all add: Cons_nth_drop_Suc)
    with 1 True show ?thesis
      by (subst lcs_walk.simps) (auto simp: lcs_table_nth max_def)
  next
    case False
    with 1 show ?thesis by (subst lcs_walk.simps) auto
  qed
qed

lemma lcs_len_upper:
  "subseq zs a \<Longrightarrow> subseq zs b \<Longrightarrow> length zs \<le> lcs_len a b"
proof (induction a b arbitrary: zs rule: lcs_len.induct)
  case (3 x a y b)
  show ?case
  proof (cases zs)
    case (Cons z zs')
    show ?thesis
    proof (cases "x = y")
      case True
      then have "subseq zs' a" "subseq zs' b"
        using "3.prems" Cons by (metis subseq_Cons' subseq_Cons2_iff)+
      with "3.IH"(1) True Cons show ?thesis by simp
    next
      case False
      then have "subseq zs a \<or> subseq zs b"
        using "3.prems" Cons by (auto split: if_splits)
      then have "length zs \<le> lcs_len a (y # b) \<or> length zs \<le> lcs_len (x # a) b"
        using "3.IH"(2,3) [OF False] "3.prems" by blast
      with False show ?thesis by auto
    qed
  qed simp
qed auto

lemma kept_subseq: "subseq (kept ops) (old_side ops)" "subseq (kept ops) (new_side ops)"
  by (induction ops) (auto simp: kept_def old_side_def new_side_def)

lemma lcs_ops_sides: "old_side (lcs_ops a b) = a" "new_side (lcs_ops a b) = b"
  using lcs_walk_sides [of 0 a 0 b] by (auto simp: lcs_ops_def)

lemma lcs_ops_kept: "length (kept (lcs_ops a b)) = lcs_len a b"
  using lcs_walk_kept [of 0 a 0 b] by (simp add: lcs_ops_def)

section \<open>The text of a diff determines its lines\<close>

definition op_chars :: "diff_op \<Rightarrow> string" where
  "op_chars p =
     (case op_kind p of OpKeep \<Rightarrow> CHR '' '' | OpDel \<Rightarrow> CHR ''-'' | OpAdd \<Rightarrow> CHR ''+'') # op_line p"

lemma op_chars_inject: "op_chars p = op_chars q \<Longrightarrow> p = (q :: diff_op)"
  by (auto simp: op_chars_def intro!: diff_op.equality split: op_kind.splits)

lemma split_lines_no_newline: "l \<in> set (split_lines s) \<Longrightarrow> newline \<notin> set l"
  by (auto simp: split_lines_def Let_def split: if_splits dest: in_set_butlastD split_on_no_sep)

lemma lcs_walk_lines:
  "p \<in> set (lcs_walk dp a b i j) \<Longrightarrow> op_line p \<in> set a \<union> set b"
proof (induction dp a b i j rule: lcs_walk.induct)
  case (1 dp a b i j)
  from "1.prems" show ?case
    by (subst (asm) lcs_walk.simps) (use "1.IH" in \<open>auto split: if_splits dest: in_set_dropD\<close>)
qed

lemma lcs_ops_no_newline:
  "p \<in> set (lcs_ops (split_lines s) (split_lines t)) \<Longrightarrow> newline \<notin> set (op_line p)"
  unfolding lcs_ops_def by (drule lcs_walk_lines) (auto dest: split_lines_no_newline)

lemma split_rendered:
  "(\<And>p. p \<in> set ops \<Longrightarrow> newline \<notin> set (op_line p)) \<Longrightarrow>
   split_on newline (concat (map render_op ops)) = map op_chars ops @ [[]]"
proof (induction ops)
  case (Cons p ops)
  have "render_op p = op_chars p @ [newline]"
    by (simp add: render_op_def op_chars_def)
  moreover have "newline \<notin> set (op_chars p)"
    using Cons.prems [of p] by (auto simp: op_chars_def newline_def split: op_kind.splits)
  ultimately show ?case using Cons by (simp add: split_on_append_sep)
qed simp

lemma newline_itoa: "newline \<notin> set (itoa i)"
proof -
  have "newline \<notin> set (nat_digits n)" for n
  proof
    assume "newline \<in> set (nat_digits n)"
    then obtain d where "d < 10" "newline = digit_char d" using set_nat_digits by blast
    then show False using digit_char_plain(6) by metis
  qed
  then show ?thesis by (auto simp: itoa_def newline_def)
qed

lemma header_lines:
  assumes "newline \<notin> set path"
  obtains h1 h2 where "newline \<notin> set h1" "newline \<notin> set h2" "has_prefix h1 ''---''" "has_prefix h2 ''+++''"
    "file_header path s t = h1 @ newline # h2 @ [newline]"
proof (cases "s = []")
  case True
  then show thesis
    using assms by (intro that [of "''--- /dev/null''" "''+++ b/'' @ path"])
      (auto simp: file_header_def newline_def has_prefix_def)
next
  case False
  show thesis
  proof (cases "t = []")
    case True
    with False assms show thesis
      by (intro that [of "''--- a/'' @ path" "''+++ /dev/null''"])
        (auto simp: file_header_def newline_def has_prefix_def)
  next
    case F: False
    with False assms show thesis
      by (intro that [of "''--- a/'' @ path" "''+++ b/'' @ path"])
        (auto simp: file_header_def newline_def has_prefix_def)
  qed
qed

lemma hunk_header_line:
  obtains h where "newline \<notin> set h" "has_prefix h ''@@''" "hunk_header a b = h @ [newline]"
proof
  show "newline \<notin> set (butlast (hunk_header a b))"
    using newline_itoa
    by (simp add: hunk_header_def Let_def butlast_append) (simp add: newline_def)
  show "has_prefix (butlast (hunk_header a b)) ''@@''"
    by (simp add: hunk_header_def has_prefix_def Let_def butlast_append)
  show "hunk_header a b = butlast (hunk_header a b) @ [newline]"
    by (simp add: hunk_header_def Let_def butlast_append)
qed

lemma split_unified_file:
  assumes "newline \<notin> set path" "s \<noteq> [] \<or> t \<noteq> []"
  shows "\<exists>h1 h2 h3. has_prefix h1 ''---'' \<and> has_prefix h2 ''+++'' \<and> has_prefix h3 ''@@''
    \<and> split_on newline (unified_file path s t)
      = h1 # h2 # h3 # map op_chars (lcs_ops (split_lines s) (split_lines t)) @ [[]]"
proof -
  define q where "q = (if trim_prefix path ''/'' = [] then ''unknown'' else trim_prefix path ''/'')"
  have q: "newline \<notin> set q"
    using assms(1) by (auto simp: q_def trim_prefix_def newline_def dest: in_set_dropD)
  obtain h1 h2 where h12: "newline \<notin> set h1" "newline \<notin> set h2" "has_prefix h1 ''---''" "has_prefix h2 ''+++''"
    "file_header q s t = h1 @ newline # h2 @ [newline]"
    using header_lines [OF q] by metis
  obtain h3 where h3: "newline \<notin> set h3" "has_prefix h3 ''@@''"
    "hunk_header (split_lines s) (split_lines t) = h3 @ [newline]"
    using hunk_header_line by metis
  have "unified_file path s t = h1 @ newline # h2 @ newline # h3 @ newline #
      concat (map render_op (lcs_ops (split_lines s) (split_lines t)))"
    using assms(2) h12(5) h3(3) by (auto simp: unified_file_def q_def Let_def)
  then have "split_on newline (unified_file path s t)
      = h1 # h2 # h3 # map op_chars (lcs_ops (split_lines s) (split_lines t)) @ [[]]"
    using h12(1,2) h3(1) lcs_ops_no_newline by (auto simp: split_on_append_sep split_rendered)
  with h12(3,4) h3(2) show ?thesis by blast
qed

lemma unified_file_Nil_iff: "unified_file path s t = [] \<longleftrightarrow> s = [] \<and> t = []"
  by (auto simp: unified_file_def Let_def file_header_def)

lemma unified_file_lines:
  assumes "newline \<notin> set path" "unified_file path s t = unified_file path s' t'"
  shows "split_lines s = split_lines s'" "split_lines t = split_lines t'"
proof -
  have "split_lines s = split_lines s' \<and> split_lines t = split_lines t'"
  proof (cases "s = [] \<and> t = []")
    case True
    then have "s' = [] \<and> t' = []" using assms(2) by (metis unified_file_Nil_iff)
    with True show ?thesis by simp
  next
    case False
    then have "s \<noteq> [] \<or> t \<noteq> []" "s' \<noteq> [] \<or> t' \<noteq> []"
      using assms(2) by (metis unified_file_Nil_iff)+
    then have "map op_chars (lcs_ops (split_lines s) (split_lines t))
        = map op_chars (lcs_ops (split_lines s') (split_lines t'))"
      using split_unified_file [OF assms(1), of s t] split_unified_file [OF assms(1), of s' t']
        assms(2) by auto
    then have "lcs_ops (split_lines s) (split_lines t) = lcs_ops (split_lines s') (split_lines t')"
      by (rule list.inj_map_strong [rotated]) (rule op_chars_inject)
    then show ?thesis by (metis lcs_ops_sides)
  qed
  then show "split_lines s = split_lines s'" "split_lines t = split_lines t'" by simp_all
qed

section \<open>Properties\<close>

text \<open>
  C22. The edit script computed for a file is a script from the old lines to the new lines:
  its kept and deleted lines are exactly the old file, its kept and added lines exactly the
  new file, in order.
\<close>

theorem edit_script_sound:
  "old_side (lcs_ops (split_lines s) (split_lines t)) = split_lines s \<and>
   new_side (lcs_ops (split_lines s) (split_lines t)) = split_lines t"
  by (simp add: lcs_ops_sides)

text \<open>
  C23. The dynamic-programming table makes the script minimal: the kept lines are a common
  subsequence of the two files and no common subsequence is longer.
\<close>

theorem edit_script_minimal:
  "subseq (kept (lcs_ops a b)) a \<and> subseq (kept (lcs_ops a b)) b \<and>
   (\<forall>zs. subseq zs a \<and> subseq zs b \<longrightarrow> length zs \<le> length (kept (lcs_ops a b)))"
  using kept_subseq [of "lcs_ops a b"] by (auto simp: lcs_ops_sides lcs_ops_kept lcs_len_upper)

theorem edit_script_minimal_witness:
  "subseq [''c''] [''a'', ''c''] \<and>
   length [''c''] \<le> length (kept (lcs_ops [''a'', ''c''] [''b'', ''c'', ''d'']))"
proof -
  have "subseq [''c''] [''a'', ''c''] \<and> subseq [''c''] [''b'', ''c'', ''d'']" by simp
  then show ?thesis
    using edit_script_minimal [of "[''a'', ''c'']" "[''b'', ''c'', ''d'']"] by blast
qed

text \<open>
  C24. The text of a per-file diff pins down both versions of the file line by line: two
  pairs of contents with the same diff text have the same old lines and the same new lines.
  So approving a diff approves these lines (the final newline excepted).
\<close>

theorem diff_text_determines_lines:
  assumes "newline \<notin> set path" "unified_file path s t = unified_file path s' t'"
  shows "split_lines s = split_lines s' \<and> split_lines t = split_lines t'"
  using unified_file_lines [OF assms] by blast

theorem diff_text_determines_lines_witness:
  "unified_file ''a'' ''x'' ''y'' = unified_file ''a'' (''x'' @ [newline]) (''y'' @ [newline]) \<and>
   split_lines ''x'' = split_lines (''x'' @ [newline])"
proof -
  have eq: "unified_file ''a'' ''x'' ''y'' = unified_file ''a'' (''x'' @ [newline]) (''y'' @ [newline])"
    by (simp add: unified_file_def split_lines_def newline_def file_header_def)
  have "newline \<notin> set ''a''" by (simp add: newline_def)
  from diff_text_determines_lines [OF this eq] eq show ?thesis by blast
qed

end
