(* ===== verification/Actual_Diff.thy ===== *)
theory Actual_Diff
  imports Diff_Unified Go_Sha256 "HOL-Library.Multiset"
begin

text \<open>
  \<open>local-agent/internal/actualdiff/actualdiff.go\<close>: the diff the Local Agent computes itself
  from proposed file contents, its SHA-256 identity, and the reader of the server's proposal
  JSON. Errors carry their text (the text of a JSON syntax error is not modelled).
\<close>

section \<open>Hashes\<close>

definition hash_prefix :: string where
  "hash_prefix = ''sha256:''"

definition hash_bytes :: "string \<Rightarrow> string" where
  "hash_bytes content = hash_prefix @ hex_encode (sum256 content)"

lemma length_hash_bytes: "length (hash_bytes s) = 71"
  by (simp add: hash_bytes_def hash_prefix_def)

lemma hash_bytes_neq_Nil [simp]: "hash_bytes s \<noteq> []"
  by (simp add: hash_bytes_def hash_prefix_def)

section \<open>Actual diff of a proposal\<close>

record change =
  change_path :: string
  change_operation :: string
  change_content :: string
  change_target :: string

record diff_result =
  result_change_set :: string
  result_workspace :: string
  result_diff :: string
  result_hash :: string

text \<open>The loop over the changes: the parts (path, diff text) in the order of the changes.\<close>

definition change_parts :: "(string \<Rightarrow> string) \<Rightarrow> change \<Rightarrow> (string \<times> string) list" where
  "change_parts old_content ch =
     (let path = trim_prefix (change_path ch) ''/'' in
      if path = [] then []
      else
        let op = to_upper (change_operation ch); old = old_content path in
        if op = ''CREATE'' then [(path, unified_file path [] (change_content ch))]
        else if op = ''DELETE'' then [(path, unified_file path old [])]
        else if op = ''RENAME'' then
          (let target = trim_prefix (change_target ch) ''/'';
               new_content = (if change_content ch = [] then old else change_content ch)
           in (path, unified_file path old []) #
              (if target = [] then [] else [(target, unified_file target [] new_content)]))
        else [(path, unified_file path old (change_content ch))])"

definition from_proposed ::
  "string \<Rightarrow> string \<Rightarrow> change list \<Rightarrow> (string \<Rightarrow> string) option \<Rightarrow> string + diff_result" where
  "from_proposed cs_id ws_id changes old_content0 =
     (if cs_id = [] then Inl ''change_set_id is required''
      else
        let old_content = (case old_content0 of None \<Rightarrow> (\<lambda>_. []) | Some f \<Rightarrow> f);
            parts = concat (map (change_parts old_content) changes);
            texts = map snd (sort_key fst parts);
            diff_text = unified_join texts
        in Inr \<lparr>result_change_set = cs_id, result_workspace = ws_id,
                result_diff = diff_text, result_hash = hash_bytes diff_text\<rparr>)"

section \<open>Proposal JSON\<close>

text \<open>A value decoded into a struct: an object, or \<open>null\<close> which changes nothing.\<close>

definition struct_fields :: "json \<Rightarrow> jmap option" where
  "struct_fields j = (case j of JObj m \<Rightarrow> Some m | JNull \<Rightarrow> Some [] | _ \<Rightarrow> None)"

definition decode_change :: "json \<Rightarrow> change option" where
  "decode_change j =
     (case struct_fields j of
        None \<Rightarrow> None
      | Some m \<Rightarrow>
          (case (string_field ''path'' m, string_field ''operation'' m,
                 string_field ''content'' m, string_field ''target_path'' m) of
             (Some p, Some oper, Some c, Some t) \<Rightarrow>
               Some \<lparr>change_path = p, change_operation = oper, change_content = c, change_target = t\<rparr>
           | _ \<Rightarrow> None))"

fun traverse :: "('a \<Rightarrow> 'b option) \<Rightarrow> 'a list \<Rightarrow> 'b list option" where
  "traverse f [] = Some []"
| "traverse f (x # xs) =
     (case f x of None \<Rightarrow> None | Some y \<Rightarrow> map_option ((#) y) (traverse f xs))"

text \<open>A slice field: \<open>null\<close> empties it, an array replaces it, anything else is an error.\<close>

fun assign_slice :: "(json \<Rightarrow> 'a option) \<Rightarrow> 'a list \<Rightarrow> json list \<Rightarrow> 'a list option" where
  "assign_slice f acc [] = Some acc"
| "assign_slice f acc (JNull # vs) = assign_slice f [] vs"
| "assign_slice f acc (JArr xs # vs) =
     (case traverse f xs of None \<Rightarrow> None | Some ys \<Rightarrow> assign_slice f ys vs)"
| "assign_slice f acc (_ # vs) = None"

definition parse_proposed_json :: "string \<Rightarrow> string + string \<times> change list" where
  "parse_proposed_json raw =
     (if trim_space raw = [] then Inl ''proposed changes json is empty''
      else case json_parse raw of
        None \<Rightarrow> Inl ''proposed changes json: invalid JSON''
      | Some j \<Rightarrow>
          (case struct_fields j of
             None \<Rightarrow> Inl ''proposed changes json: cannot unmarshal''
           | Some m \<Rightarrow>
               (case (string_field ''change_set_id'' m,
                      assign_slice decode_change [] (field_values ''changes'' m)) of
                  (Some i, Some cs) \<Rightarrow> Inr (i, cs)
                | _ \<Rightarrow> Inl ''proposed changes json: cannot unmarshal'')))"

section \<open>Properties\<close>

lemma sort_key_mset_cong:
  assumes "mset xs = mset ys" "distinct (map f xs)"
  shows "sort_key f xs = sort_key f ys"
proof (rule sort_key_inj_key_eq)
  show "mset xs = mset (sort_key f ys)" using assms(1) by simp
  show "inj_on f (set xs)" using assms(2) by (simp add: distinct_map)
qed simp

text \<open>A stable sort sees of a list only what it has for each key, in its order.\<close>

lemma sort_key_filter_cong:
  assumes "\<And>k. filter (\<lambda>x. f x = k) xs = filter (\<lambda>x. f x = k) ys"
  shows "sort_key f xs = sort_key f ys"
proof (rule properties_for_sort_key)
  show "mset (sort_key f ys) = mset xs"
  proof (rule multiset_eqI)
    fix x
    have "count (mset zs) x = count (mset (filter (\<lambda>y. f y = f x) zs)) x" for zs by simp
    then show "count (mset (sort_key f ys)) x = count (mset xs) x" using assms [of "f x"] by (metis mset_sort)
  qed
  show "filter (\<lambda>x. f k = f x) (sort_key f ys) = filter (\<lambda>x. f k = f x) xs" for k
    using sort_key_stable [of f "f k" ys] assms [of "f k"] by (simp add: eq_commute)
qed simp

text \<open>The paths that a change concerns: its own, and for a rename the target.\<close>

definition change_paths :: "change \<Rightarrow> string list" where
  "change_paths ch =
     (let path = trim_prefix (change_path ch) ''/''; target = trim_prefix (change_target ch) ''/''
      in if path = [] then []
         else path # (if to_upper (change_operation ch) = ''RENAME'' \<and> target \<noteq> [] then [target] else []))"

lemma change_parts_paths: "map fst (change_parts old ch) = change_paths ch"
  by (simp add: change_parts_def change_paths_def Let_def)

lemma parts_at:
  "filter (\<lambda>x. fst x = p) (concat (map (change_parts old) changes)) =
    concat (map (\<lambda>ch. filter (\<lambda>x. fst x = p) (change_parts old ch)) (filter (\<lambda>ch. p \<in> set (change_paths ch)) changes))"
proof (induction changes)
  case (Cons ch chs)
  show ?case
  proof (cases "p \<in> set (change_paths ch)")
    case False
    then have "filter (\<lambda>x. fst x = p) (change_parts old ch) = []"
      by (auto simp: filter_empty_conv change_parts_paths [of old, symmetric])
    with Cons False show ?thesis by simp
  qed (use Cons in simp)
qed simp

text \<open>A permutation of changes to pairwise different paths has, for each path, the same changes.\<close>

lemma one_change_at: "distinct (concat (map change_paths chs)) \<Longrightarrow> length (filter (\<lambda>ch. p \<in> set (change_paths ch)) chs) \<le> 1"
proof (induction chs)
  case (Cons ch chs)
  show ?case
  proof (cases "p \<in> set (change_paths ch)")
    case True
    then have "filter (\<lambda>ch. p \<in> set (change_paths ch)) chs = []"
      using Cons.prems by (auto simp: filter_empty_conv)
    then show ?thesis using True by simp
  qed (use Cons in simp)
qed simp

lemma distinct_paths_permuted:
  assumes "mset changes = mset changes'" "distinct (concat (map change_paths changes))"
  shows "filter (\<lambda>ch. p \<in> set (change_paths ch)) changes = filter (\<lambda>ch. p \<in> set (change_paths ch)) changes'"
proof -
  let ?at = "filter (\<lambda>ch. p \<in> set (change_paths ch))"
  have m: "mset (?at changes) = mset (?at changes')" using assms(1) by simp
  consider "?at changes = []" | c where "?at changes = [c]"
    using one_change_at [OF assms(2), of p] by (cases "?at changes") auto
  then show ?thesis
  proof cases
    case 1
    then show ?thesis using m by (metis mset_zero_iff)
  next
    case (2 c)
    then show ?thesis using m by (metis mset_single_iff_right mset.simps)
  qed
qed

text \<open>
  C25. The identity of an actual diff does not depend on the order in which the server lists changes
  to different paths: if two lists of changes have, for every path, the same changes concerning that
  path in the same order, they give the same diff text and the same hash. In particular any permutation
  of changes to pairwise different paths does. The order of two changes to one path does matter: see
  the lemma after the witness.
\<close>

theorem actual_diff_order_independent:
  assumes "\<And>p. filter (\<lambda>ch. p \<in> set (change_paths ch)) changes = filter (\<lambda>ch. p \<in> set (change_paths ch)) changes'"
  shows "from_proposed cs ws changes (Some old) = from_proposed cs ws changes' (Some old)"
proof -
  have "sort_key fst (concat (map (change_parts old) changes)) = sort_key fst (concat (map (change_parts old) changes'))"
    by (rule sort_key_filter_cong) (simp only: parts_at assms)
  then show ?thesis by (simp add: from_proposed_def Let_def)
qed

definition change_to :: "string \<Rightarrow> string \<Rightarrow> change" where
  "change_to p c = \<lparr>change_path = p, change_operation = ''modify'', change_content = c, change_target = []\<rparr>"

theorem actual_diff_order_independent_witness:
  "from_proposed ''CS'' ''WS'' [change_to ''b'' ''1'', change_to ''a'' ''2'', change_to ''b'' ''3''] (Some (\<lambda>_. ''0'')) =
   from_proposed ''CS'' ''WS'' [change_to ''b'' ''1'', change_to ''b'' ''3'', change_to ''a'' ''2''] (Some (\<lambda>_. ''0''))"
proof (rule actual_diff_order_independent)
  have "change_paths (change_to ''a'' c) = [''a'']" "change_paths (change_to ''b'' c) = [''b'']" for c
    by (simp_all add: change_paths_def change_to_def trim_prefix_def has_prefix_def)
  then show "filter (\<lambda>ch. p \<in> set (change_paths ch)) [change_to ''b'' ''1'', change_to ''a'' ''2'', change_to ''b'' ''3''] =
      filter (\<lambda>ch. p \<in> set (change_paths ch)) [change_to ''b'' ''1'', change_to ''b'' ''3'', change_to ''a'' ''2'']" for p
    by simp
qed

lemma order_on_one_path_matters:
  "unified_join (map snd (sort_key fst (concat (map (change_parts (\<lambda>_. ''0'')) [change_to ''b'' ''1'', change_to ''b'' ''3''])))) \<noteq>
   unified_join (map snd (sort_key fst (concat (map (change_parts (\<lambda>_. ''0'')) [change_to ''b'' ''3'', change_to ''b'' ''1'']))))"
  by code_simp

end
