(* ===== verification/Protocol_Codec.thy ===== *)
theory Protocol_Codec
  imports Protocol_Messages Actual_Diff
begin

text \<open>
  How the messages of \<open>protocol/messages/messages.go\<close> and the errors of
  \<open>protocol/errors/errors.go\<close> are written to JSON and read back by \<open>encoding/json\<close>, from the
  struct tags of their fields. Key order is not modelled, and strings keep their bytes.
  Reading answers \<open>None\<close> for the error of \<open>json.Unmarshal\<close>. The contract of a pair of writer
  and reader is the locale \<open>codec\<close>.
\<close>

locale codec =
  fixes enc :: "'a \<Rightarrow> json" and dec :: "json \<Rightarrow> 'a option" and good :: "'a \<Rightarrow> bool"
  assumes dec_enc: "good x \<Longrightarrow> dec (enc x) = Some x"
begin

lemma enc_inject: "good x \<Longrightarrow> good y \<Longrightarrow> enc x = enc y \<longleftrightarrow> x = y"
  by (metis dec_enc option.inject)

lemma traverse_enc: "list_all good xs \<Longrightarrow> traverse dec (map enc xs) = Some xs"
  by (induction xs) (auto simp: dec_enc)

end

section \<open>Fields\<close>

text \<open>Writing a field tagged \<open>omitempty\<close>.\<close>

definition opt_str :: "string \<Rightarrow> string \<Rightarrow> jmap" where
  "opt_str k s = (if s = [] then [] else [(k, JStr s)])"

definition opt_int :: "string \<Rightarrow> int \<Rightarrow> jmap" where
  "opt_int k i = (if i = 0 then [] else [(k, JNum (itoa i))])"

definition opt_field :: "string \<Rightarrow> json option \<Rightarrow> jmap" where
  "opt_field k v = (case v of None \<Rightarrow> [] | Some j \<Rightarrow> [(k, j)])"

text \<open>A \<open>map[string]any\<close>: nil is \<open>null\<close>.\<close>

definition enc_map :: "jmap option \<Rightarrow> json" where
  "enc_map m = (case m of None \<Rightarrow> JNull | Some d \<Rightarrow> JObj d)"

text \<open>Reading fields of the other types; a later key with the name continues on the value.\<close>

fun assign_ints :: "int \<Rightarrow> json list \<Rightarrow> int option" where
  "assign_ints acc [] = Some acc"
| "assign_ints acc (JNum l # vs) = (case parse_int l of None \<Rightarrow> None | Some i \<Rightarrow> assign_ints i vs)"
| "assign_ints acc (JNull # vs) = assign_ints acc vs"
| "assign_ints acc (_ # vs) = None"

fun assign_bools :: "bool \<Rightarrow> json list \<Rightarrow> bool option" where
  "assign_bools acc [] = Some acc"
| "assign_bools acc (JBool b # vs) = assign_bools b vs"
| "assign_bools acc (JNull # vs) = assign_bools acc vs"
| "assign_bools acc (_ # vs) = None"

fun assign_maps :: "jmap option \<Rightarrow> json list \<Rightarrow> jmap option option" where
  "assign_maps acc [] = Some acc"
| "assign_maps acc (JObj m # vs) = assign_maps (Some (to_fields m (case acc of None \<Rightarrow> [] | Some d \<Rightarrow> d))) vs"
| "assign_maps acc (JNull # vs) = assign_maps None vs"
| "assign_maps acc (_ # vs) = None"

text \<open>A pointer to a struct, read by \<open>rd\<close> into what it points to so far.\<close>

fun assign_ptr :: "('a option \<Rightarrow> jmap \<Rightarrow> 'a option) \<Rightarrow> 'a option \<Rightarrow> json list \<Rightarrow> 'a option option" where
  "assign_ptr rd acc [] = Some acc"
| "assign_ptr rd acc (JNull # vs) = assign_ptr rd None vs"
| "assign_ptr rd acc (JObj m # vs) =
     (case rd acc m of None \<Rightarrow> None | Some x \<Rightarrow> assign_ptr rd (Some x) vs)"
| "assign_ptr rd acc (_ # vs) = None"

definition raw_field :: "string \<Rightarrow> jmap \<Rightarrow> json option" where
  "raw_field f m = (case field_values f m of [] \<Rightarrow> None | vs \<Rightarrow> Some (last vs))"

text \<open>\<open>ToolOptions\<close> and \<open>Metrics\<close>: one integer each.\<close>

definition read_int_struct :: "string \<Rightarrow> int option \<Rightarrow> jmap \<Rightarrow> int option" where
  "read_int_struct f acc m = assign_ints (case acc of None \<Rightarrow> 0 | Some i \<Rightarrow> i) (field_values f m)"

definition enc_int_struct :: "string \<Rightarrow> int option \<Rightarrow> json option" where
  "enc_int_struct f v = map_option (\<lambda>i. JObj (opt_int f i)) v"

section \<open>Tool requests\<close>

definition enc_request :: "tool_request \<Rightarrow> json" where
  "enc_request r =
     JObj ([(''call_id'', JStr (req_call_id r)), (''tool'', JStr (req_tool r)),
            (''arguments'', enc_map (req_arguments r))]
           @ opt_field ''options'' (enc_int_struct ''timeout_ms'' (req_timeout_ms r)))"

definition dec_request :: "json \<Rightarrow> tool_request option" where
  "dec_request j =
     (case struct_fields j of
        None \<Rightarrow> None
      | Some m \<Rightarrow>
          (case (string_field ''call_id'' m, string_field ''tool'' m,
                 assign_maps None (field_values ''arguments'' m),
                 assign_ptr (read_int_struct ''timeout_ms'') None (field_values ''options'' m)) of
             (Some c, Some t, Some a, Some ms) \<Rightarrow>
               Some \<lparr>req_call_id = c, req_tool = t, req_arguments = a, req_timeout_ms = ms\<rparr>
           | _ \<Rightarrow> None))"

section \<open>Errors\<close>

definition category_of_text :: "string \<Rightarrow> category" where
  "category_of_text s =
     (case find (\<lambda>c. category_text c = s)
             [CategoryProtocol, CategoryAuth, CategoryPermission, CategoryProject, CategoryWorkspace,
              CategoryTool, CategoryBuild, CategoryTest, CategoryGit, CategoryDependency,
              CategorySecurity, CategoryGuide, CategoryContext, CategoryUser, CategoryTimeout,
              CategorySystem] of
        Some c \<Rightarrow> c | None \<Rightarrow> OtherCategory s)"

definition enc_error :: "proto_error \<Rightarrow> json" where
  "enc_error e =
     JObj ([(''code'', JStr (code_text (err_code e))), (''category'', JStr (category_text (err_category e))),
            (''message'', JStr (err_message e)), (''retryable'', JBool (err_retryable e))]
           @ (case err_details e of None \<Rightarrow> [] | Some d \<Rightarrow> if d = [] then [] else [(''details'', JObj d)]))"

definition read_error :: "proto_error option \<Rightarrow> jmap \<Rightarrow> proto_error option" where
  "read_error acc m =
     (let e = (case acc of Some e \<Rightarrow> e
               | None \<Rightarrow> \<lparr>err_code = OtherCode [], err_category = OtherCategory [], err_message = [],
                         err_retryable = False, err_details = None\<rparr>)
      in case (assign_strings (code_text (err_code e)) (field_values ''code'' m),
               assign_strings (category_text (err_category e)) (field_values ''category'' m),
               assign_strings (err_message e) (field_values ''message'' m),
               assign_bools (err_retryable e) (field_values ''retryable'' m),
               assign_maps (err_details e) (field_values ''details'' m)) of
           (Some c, Some g, Some t, Some b, Some d) \<Rightarrow>
             Some \<lparr>err_code = code_of_text c, err_category = category_of_text g, err_message = t,
                   err_retryable = b, err_details = d\<rparr>
         | _ \<Rightarrow> None)"

section \<open>Tool responses\<close>

definition enc_response :: "tool_response \<Rightarrow> json" where
  "enc_response r =
     JObj ([(''call_id'', JStr (resp_call_id r)), (''status'', JStr (resp_status r))]
           @ opt_field ''result'' (resp_result r)
           @ opt_field ''error'' (map_option enc_error (resp_error r))
           @ opt_field ''metrics'' (enc_int_struct ''duration_ms'' (resp_duration_ms r)))"

definition dec_response :: "json \<Rightarrow> tool_response option" where
  "dec_response j =
     (case struct_fields j of
        None \<Rightarrow> None
      | Some m \<Rightarrow>
          (case (string_field ''call_id'' m, string_field ''status'' m,
                 assign_ptr read_error None (field_values ''error'' m),
                 assign_ptr (read_int_struct ''duration_ms'') None (field_values ''metrics'' m)) of
             (Some c, Some s, Some e, Some d) \<Rightarrow>
               Some \<lparr>resp_call_id = c, resp_status = s, resp_result = raw_field ''result'' m,
                     resp_error = e, resp_duration_ms = d\<rparr>
           | _ \<Rightarrow> None))"

section \<open>Events\<close>

definition enc_event :: "event_payload \<Rightarrow> json" where
  "enc_event e =
     JObj ([(''event'', JStr (event_name e))] @ opt_str ''execution_id'' (event_execution e)
           @ opt_field ''data'' (event_data e))"

definition dec_event :: "json \<Rightarrow> event_payload option" where
  "dec_event j =
     (case struct_fields j of
        None \<Rightarrow> None
      | Some m \<Rightarrow>
          (case (string_field ''event'' m, string_field ''execution_id'' m) of
             (Some n, Some x) \<Rightarrow>
               Some \<lparr>event_name = n, event_execution = x, event_data = raw_field ''data'' m\<rparr>
           | _ \<Rightarrow> None))"

section \<open>Reading back what was written\<close>

text \<open>A value of type \<open>any\<close>: the keys of every map in it are different.\<close>

fun any_value :: "json \<Rightarrow> bool"
  and any_fields :: "jmap \<Rightarrow> bool"
  and any_items :: "json list \<Rightarrow> bool" where
  "any_value (JObj m) = any_fields m"
| "any_value (JArr xs) = any_items xs"
| "any_value _ = True"
| "any_fields [] = True"
| "any_fields ((k, v) # m) = (k \<notin> fst ` set m \<and> any_value v \<and> any_fields m)"
| "any_items [] = True"
| "any_items (x # xs) = (any_value x \<and> any_items xs)"

lemma update_fresh: "k \<notin> fst ` set m \<Longrightarrow> AList.update k v m = m @ [(k, v)]"
  by (induction m) auto

lemma to_any_id:
  "any_value j \<Longrightarrow> to_any j = j"
  "any_fields m \<Longrightarrow> fst ` set m \<inter> fst ` set acc = {} \<Longrightarrow> to_fields m acc = acc @ m"
  "any_items xs \<Longrightarrow> to_items xs = xs"
proof (induction j and m and xs arbitrary: and acc rule: any_value_any_fields_any_items.induct)
  case (5 k v m)
  then have "to_any v = v" "k \<notin> fst ` set acc" by auto
  moreover have "to_fields m (acc @ [(k, v)]) = (acc @ [(k, v)]) @ m"
    by (rule 5) (use "5.prems" in auto)
  ultimately show ?case by (simp add: update_fresh)
qed auto

lemma to_fields_id: "any_fields m \<Longrightarrow> to_fields m [] = m"
  using to_any_id(2) [of m "[]"] by simp

lemma field_values_append: "field_values f (a @ b) = field_values f a @ field_values f b"
  by (simp add: field_values_def)

lemma field_values_simps [simp]:
  "field_values f [] = []"
  "field_values f ((k, v) # m) =
     (if k = f \<or> fold_name k = fold_name f then v # field_values f m else field_values f m)"
  by (simp_all add: field_values_def)

text \<open>Names without upper-case letters are their own folding.\<close>

lemma fold_name_plain:
  "list_all (\<lambda>c. lower_char c = c \<and> byte c < (0x80 :: nat)) s \<Longrightarrow> fold_name s = s"
proof (induction s rule: fold_name.induct)
  case (2 c s)
  then have "\<not> has_prefix (c # s) [CHR 0xC5, CHR 0xBF]" "\<not> has_prefix (c # s) [CHR 0xE2, CHR 0x84, CHR 0xAA]"
    by (auto simp: has_prefix_def)
  with 2 show ?case by (simp add: fold_name.simps)
qed (simp add: fold_name.simps)

lemma field_names [simp]:
  "fold_name ''call_id'' = ''call_id''" "fold_name ''tool'' = ''tool''" "fold_name ''arguments'' = ''arguments''"
  "fold_name ''options'' = ''options''" "fold_name ''timeout_ms'' = ''timeout_ms''"
  "fold_name ''status'' = ''status''" "fold_name ''result'' = ''result''" "fold_name ''error'' = ''error''"
  "fold_name ''metrics'' = ''metrics''" "fold_name ''duration_ms'' = ''duration_ms''"
  "fold_name ''code'' = ''code''" "fold_name ''category'' = ''category''" "fold_name ''message'' = ''message''"
  "fold_name ''retryable'' = ''retryable''" "fold_name ''details'' = ''details''"
  "fold_name ''event'' = ''event''" "fold_name ''execution_id'' = ''execution_id''" "fold_name ''data'' = ''data''"
  by code_simp+

lemmas codec_defs = opt_str_def opt_int_def opt_field_def enc_map_def enc_int_struct_def read_int_struct_def
  struct_fields_def string_field_def raw_field_def

lemma assign_map_back [simp]:
  "(\<forall>d. m = Some d \<longrightarrow> any_fields d) \<Longrightarrow> assign_maps None [enc_map m] = Some m"
  by (cases m) (auto simp: enc_map_def to_fields_id)

lemma int_struct_back:
  "(\<forall>i. v = Some i \<longrightarrow> int64_range i) \<Longrightarrow> fold_name f = f \<Longrightarrow>
    assign_ptr (read_int_struct f) None (field_values g (opt_field g (enc_int_struct f v))) = Some v"
  by (auto simp: codec_defs parse_int_itoa split: option.split)

text \<open>Requests whose arguments are a Go map and whose timeout is a Go integer.\<close>

definition good_request :: "tool_request \<Rightarrow> bool" where
  "good_request r \<longleftrightarrow> (\<forall>d. req_arguments r = Some d \<longrightarrow> any_fields d)
     \<and> (\<forall>i. req_timeout_ms r = Some i \<longrightarrow> int64_range i)"

interpretation request_codec: codec enc_request dec_request good_request
proof
  fix r assume "good_request r"
  then have g: "\<forall>d. req_arguments r = Some d \<longrightarrow> any_fields d" "\<forall>i. req_timeout_ms r = Some i \<longrightarrow> int64_range i"
    by (simp_all add: good_request_def)
  have none: "field_values f (opt_field ''options'' (enc_int_struct ''timeout_ms'' (req_timeout_ms r))) = []"
    if "fold_name f \<noteq> ''options''" for f
    using that by (cases "req_timeout_ms r") (auto simp: opt_field_def enc_int_struct_def)
  show "dec_request (enc_request r) = Some r"
    using assign_map_back [OF g(1)] int_struct_back [OF g(2), of "''timeout_ms''" "''options''"]
    by (simp add: dec_request_def enc_request_def struct_fields_def string_field_def none)
qed

text \<open>Errors of the catalog or with a code and category outside it, without details or with some.\<close>

definition good_error :: "proto_error \<Rightarrow> bool" where
  "good_error e \<longleftrightarrow> code_of_text (code_text (err_code e)) = err_code e
     \<and> category_of_text (category_text (err_category e)) = err_category e
     \<and> (\<forall>d. err_details e = Some d \<longrightarrow> d \<noteq> [] \<and> any_fields d)"

lemma error_back:
  assumes "good_error e"
  shows "assign_ptr read_error None [enc_error e] = Some (Some e)"
  using assms by (cases "err_details e") (auto simp: enc_error_def read_error_def good_error_def to_fields_id Let_def)

definition good_response :: "tool_response \<Rightarrow> bool" where
  "good_response r \<longleftrightarrow> (\<forall>e. resp_error r = Some e \<longrightarrow> good_error e)
     \<and> (\<forall>i. resp_duration_ms r = Some i \<longrightarrow> int64_range i)"

lemma field_values_opt [simp]:
  "field_values f (opt_field g v) =
     (if g = f \<or> fold_name g = fold_name f then (case v of None \<Rightarrow> [] | Some j \<Rightarrow> [j]) else [])"
  "field_values f (opt_str g s) =
     (if (g = f \<or> fold_name g = fold_name f) \<and> s \<noteq> [] then [JStr s] else [])"
  by (auto simp: opt_field_def opt_str_def split: option.split)

interpretation response_codec: codec enc_response dec_response good_response
proof
  fix r assume good: "good_response r"
  then have d: "\<forall>i. resp_duration_ms r = Some i \<longrightarrow> int64_range i" by (simp add: good_response_def)
  have e: "assign_ptr read_error None (case resp_error r of None \<Rightarrow> [] | Some e \<Rightarrow> [enc_error e]) = Some (resp_error r)"
    using good error_back by (cases "resp_error r") (auto simp: good_response_def simp del: assign_ptr.simps(3))
  show "dec_response (enc_response r) = Some r"
    using e int_struct_back [OF d, of "''duration_ms''" "''metrics''"]
    by (cases "resp_result r"; cases "resp_error r")
      (auto simp: dec_response_def enc_response_def struct_fields_def string_field_def raw_field_def
        field_values_append)
qed

interpretation event_codec: codec enc_event dec_event "\<lambda>_. True"
proof
  fix e :: event_payload
  show "dec_event (enc_event e) = Some e"
    by (cases "event_data e"; cases "event_execution e = []")
      (auto simp: dec_event_def enc_event_def struct_fields_def string_field_def raw_field_def field_values_append)
qed

lemma catalog_texts:
  "list_all (\<lambda>c. code_of_text (code_text c) = c \<and> (case catalog c of None \<Rightarrow> False
     | Some m \<Rightarrow> category_of_text (category_text (meta_category m)) = meta_category m)) codes"
  by code_simp

lemma known_error_good:
  assumes "new_error c msg = Inr e"
  shows "good_error e"
proof -
  obtain m where m: "catalog c = Some m" "err_code e = c" "err_category e = meta_category m" "err_details e = None"
    using assms by (auto simp: new_error_def Let_def split: option.splits)
  then have "c \<in> set codes" unfolding known_code_iff [symmetric] known_code_def by simp
  with catalog_texts m show ?thesis by (auto simp: good_error_def list_all_iff)
qed

end
