(* ===== verification/Tool_Dispatch.thy ===== *)
theory Tool_Dispatch
  imports Protocol_Codec
begin

text \<open>
  \<open>local-agent/internal/tools/dispatcher.go\<close> and the event of \<open>audit/logger.go\<close>: the registry of
  tool handlers and the dispatch of one request. A handler works on a state of type \<open>'w\<close> (the
  rest of the agent) and returns the pair of Go, or \<open>None\<close> when it panics. The times that the
  audit event and the metrics take are an argument.
\<close>

section \<open>Handlers and their registry\<close>

type_synonym 'w handler = "'w \<Rightarrow> tool_request \<Rightarrow> ('w \<times> tool_response option \<times> go_error option) option"

type_synonym 'w tool_registry = "(string \<times> 'w handler) list"

definition new_tool_registry :: "'w tool_registry" where
  "new_tool_registry = []"

definition register_tool :: "string \<Rightarrow> 'w handler \<Rightarrow> 'w tool_registry \<Rightarrow> 'w tool_registry" where
  "register_tool name h reg = AList.update name h reg"

definition tool_names :: "'w tool_registry \<Rightarrow> string list" where
  "tool_names reg = sort (map fst reg)"

definition get_tool :: "'w tool_registry \<Rightarrow> string \<Rightarrow> 'w handler option" where
  "get_tool reg name = map_of reg name"

interpretation tool_store: keyed_store register_tool get_tool
  by unfold_locales (simp add: register_tool_def get_tool_def update_conv')

section \<open>Responses\<close>

definition success :: "string \<Rightarrow> json option \<Rightarrow> tool_response" where
  "success call_id result =
     (case result of
        None \<Rightarrow>
          \<lparr>resp_call_id = call_id, resp_status = ''FAILED'', resp_result = None,
           resp_error = (case new_error InternalError ''marshal result'' of Inr e \<Rightarrow> Some e | Inl _ \<Rightarrow> None),
           resp_duration_ms = None\<rparr>
      | Some raw \<Rightarrow>
          \<lparr>resp_call_id = call_id, resp_status = ''SUCCESS'', resp_result = Some raw, resp_error = None,
           resp_duration_ms = None\<rparr>)"

definition failed :: "string \<Rightarrow> code \<Rightarrow> string \<Rightarrow> tool_response" where
  "failed call_id c msg =
     \<lparr>resp_call_id = call_id, resp_status = ''FAILED'', resp_result = None,
      resp_error = (case new_error c msg of
          Inr e \<Rightarrow> Some e
        | Inl _ \<Rightarrow> (case new_error InternalError msg of Inr e \<Rightarrow> Some e | Inl _ \<Rightarrow> None)),
      resp_duration_ms = None\<rparr>"

definition map_error :: "string \<Rightarrow> go_error \<Rightarrow> tool_response" where
  "map_error call_id err =
     (case err of
        ProtoError pe \<Rightarrow>
          \<lparr>resp_call_id = call_id, resp_status = ''FAILED'', resp_result = None, resp_error = Some pe,
           resp_duration_ms = None\<rparr>
      | PlainError s \<Rightarrow> failed call_id InternalError s)"

section \<open>Dispatch\<close>

record tool_event =
  te_call_id :: string
  te_workspace :: string
  te_tool :: string
  te_status :: string
  te_duration :: int
  te_error_code :: string

definition log_event :: "tool_request \<Rightarrow> tool_response \<Rightarrow> int \<Rightarrow> tool_event" where
  "log_event req resp elapsed =
     \<lparr>te_call_id = req_call_id req, te_workspace = [], te_tool = req_tool req, te_status = resp_status resp,
      te_duration = elapsed,
      te_error_code = (case resp_error resp of Some e \<Rightarrow> code_text (err_code e) | None \<Rightarrow> [])\<rparr>"

text \<open>What the handler answered becomes a response; \<open>Validate\<close> may have filled in the arguments.\<close>

definition settle :: "string \<Rightarrow> int \<Rightarrow> tool_response option \<times> go_error option \<Rightarrow> tool_response" where
  "settle call_id elapsed out =
     (let resp = (case snd out of Some err \<Rightarrow> Some (map_error call_id err) | None \<Rightarrow> fst out);
          resp = (case resp of None \<Rightarrow> failed call_id InternalError ''handler returned nil response''
                  | Some r \<Rightarrow> r)
      in if resp_duration_ms resp = None then resp\<lparr>resp_duration_ms := Some elapsed\<rparr> else resp)"

text \<open>The state, the audit events so far, and the answer; \<open>None\<close> is a panic of the handler.\<close>

definition dispatch ::
  "'w tool_registry \<Rightarrow> bool \<Rightarrow> int \<Rightarrow> tool_request option \<Rightarrow> 'w \<times> tool_event list
    \<Rightarrow> (('w \<times> tool_event list) \<times> tool_response) option" where
  "dispatch reg audit elapsed reqo st =
     (case st of (w, events) \<Rightarrow>
      case reqo of
        None \<Rightarrow> Some (st, failed [] InvalidRequest ''nil tool request'')
      | Some req0 \<Rightarrow>
          let logged = (\<lambda>req resp. if audit then events @ [log_event req resp elapsed] else events) in
          (case validate_request req0 of
             (req, Some e) \<Rightarrow>
               let resp = failed (req_call_id req) InvalidRequest e in Some ((w, logged req resp), resp)
           | (req, None) \<Rightarrow>
               (case get_tool reg (req_tool req) of
                  None \<Rightarrow>
                    let resp = failed (req_call_id req) ToolNotSupported
                                 (''tool '' @ go_quote (req_tool req) @ '' is not supported'')
                    in Some ((w, logged req resp), resp)
                | Some h \<Rightarrow>
                    (case h w req of
                       None \<Rightarrow> None
                     | Some (w', out) \<Rightarrow>
                         let resp = settle (req_call_id req) elapsed out in
                         Some ((w', logged req resp), resp)))))"

section \<open>The contract of a handler\<close>

text \<open>
  A response that the peer accepts for the call, and an error it can report: a handler keeps a
  property \<open>ok\<close> of the state and answers one or the other.
\<close>

definition fits :: "string \<Rightarrow> tool_response \<Rightarrow> bool" where
  "fits call_id r \<longleftrightarrow> resp_call_id r = call_id \<and> resp_status r \<in> set tool_statuses
     \<and> (resp_status r = ''FAILED'' \<longrightarrow> (\<exists>e. resp_error r = Some e \<and> known_code (err_code e)))
     \<and> (\<forall>e. resp_error r = Some e \<longrightarrow> good_error e)
     \<and> (\<forall>i. resp_duration_ms r = Some i \<longrightarrow> int64_range i)"

definition good_go_error :: "go_error \<Rightarrow> bool" where
  "good_go_error err \<longleftrightarrow> (case err of ProtoError e \<Rightarrow> known_code (err_code e) \<and> good_error e | PlainError _ \<Rightarrow> True)"

definition answers :: "string \<Rightarrow> tool_response option \<times> go_error option \<Rightarrow> bool" where
  "answers call_id out \<longleftrightarrow>
     (case snd out of
        Some err \<Rightarrow> good_go_error err
      | None \<Rightarrow> (case fst out of None \<Rightarrow> True | Some r \<Rightarrow> fits call_id r))"

lemma new_error_known: "new_error c msg = Inr e \<Longrightarrow> known_code (err_code e) \<and> good_error e"
  using known_error_good [of c msg e]
  by (cases "catalog c") (auto simp: new_error_def known_code_def Let_def)

lemma failed_fits: "fits call_id (failed call_id c msg)"
proof -
  obtain e where e: "new_error InternalError msg = Inr e"
    by (simp add: new_error_def Let_def)
  then obtain e' where "resp_error (failed call_id c msg) = Some e'" "known_code (err_code e') \<and> good_error e'"
    using new_error_known by (cases "new_error c msg") (auto simp: failed_def)
  then show ?thesis by (simp add: fits_def) (simp add: failed_def tool_statuses_def)
qed

lemma success_fits: "fits call_id (success call_id (Some raw))"
  by (simp add: fits_def success_def tool_statuses_def)

lemma must_err_good [simp]: "good_go_error (must_err c msg)" "good_go_error (wrap_err c msg e)"
  by (auto simp: must_err_def wrap_err_def good_go_error_def dest: new_error_known split: sum.splits)

lemma plain_error_good [simp]: "good_go_error (PlainError s)"
  by (simp add: good_go_error_def)

lemma map_error_fits: "good_go_error err \<Longrightarrow> fits call_id (map_error call_id err)"
proof (cases err)
  case (PlainError s)
  then show ?thesis by (simp add: map_error_def failed_fits)
qed (auto simp: good_go_error_def map_error_def fits_def tool_statuses_def)

lemma settle_fits:
  assumes "answers call_id out" "int64_range elapsed"
  shows "fits call_id (settle call_id elapsed out)"
proof -
  let ?r = "case snd out of Some err \<Rightarrow> Some (map_error call_id err) | None \<Rightarrow> fst out"
  have "fits call_id (case ?r of None \<Rightarrow> failed call_id InternalError ''handler returned nil response'' | Some r \<Rightarrow> r)"
    using assms(1) by (auto simp: answers_def map_error_fits failed_fits split: option.splits)
  with assms(2) show ?thesis by (auto simp: settle_def fits_def Let_def)
qed

lemma fits_valid: "validate_id KCall c = None \<Longrightarrow> fits c r \<Longrightarrow> validate_response r = None"
  by (auto simp: validate_response_def fits_def)

locale tool_contract =
  fixes h :: "'w handler" and ok :: "'w \<Rightarrow> bool"
  assumes answered: "ok w \<Longrightarrow> h w req = Some (w', out) \<Longrightarrow> answers (req_call_id req) out"
    and kept: "ok w \<Longrightarrow> h w req = Some (w', out) \<Longrightarrow> ok w'"
begin

lemma settled:
  "ok w \<Longrightarrow> int64_range t \<Longrightarrow> h w req = Some (w', out) \<Longrightarrow>
    fits (req_call_id req) (settle (req_call_id req) t out) \<and> ok w'"
  using answered kept settle_fits by blast

end

text \<open>A registry all of whose handlers meet the contract.\<close>

definition sound_registry :: "('w \<Rightarrow> bool) \<Rightarrow> 'w tool_registry \<Rightarrow> bool" where
  "sound_registry ok reg \<longleftrightarrow> (\<forall>name h. get_tool reg name = Some h \<longrightarrow> tool_contract h ok)"

lemma sound_register:
  "tool_contract h ok \<Longrightarrow> sound_registry ok reg \<Longrightarrow> sound_registry ok (register_tool name h reg)"
  by (auto simp: sound_registry_def tool_store.look_ins)

lemma sound_empty: "sound_registry ok new_tool_registry"
  by (simp add: sound_registry_def get_tool_def new_tool_registry_def)

lemma dispatch_fits:
  assumes "sound_registry ok reg" "ok w" "int64_range elapsed"
    and "dispatch reg audit elapsed (Some req) (w, events) = Some ((w', events'), resp)"
  shows "fits (req_call_id req) resp \<and> ok w'"
proof -
  obtain req1 ve where v: "validate_request req = (req1, ve)" by fastforce
  then have id: "req_call_id req1 = req_call_id req"
    by (auto simp: validate_request_def split: option.splits if_splits)
  show ?thesis
  proof (cases ve)
    case (Some e)
    with assms v id show ?thesis by (auto simp: dispatch_def failed_fits Let_def)
  next
    case None
    show ?thesis
    proof (cases "get_tool reg (req_tool req1)")
      case (Some h)
      with assms(1) have h: "tool_contract h ok" by (simp add: sound_registry_def)
      obtain w1 out where out: "h w req1 = Some (w1, out)"
        and "w' = w1" "resp = settle (req_call_id req) elapsed out"
        using assms(4) v None Some id by (auto simp: dispatch_def Let_def split: option.splits)
      with tool_contract.settled [OF h assms(2,3) out] id show ?thesis by simp
    qed (use assms v None id in \<open>auto simp: dispatch_def failed_fits Let_def\<close>)
  qed
qed

end
