(* ===== verification/Workspace_Read.thy ===== *)
theory Workspace_Read
  imports Workspace_Path Actual_Diff
begin

text \<open>
  \<open>local-agent/internal/workspace/read.go\<close> and \<open>read_files.go\<close>: reading text files of the
  workspace. A file size is the length of the content; sizes and limits are \<open>int64\<close>.
\<close>

section \<open>One file\<close>

record read_result =
  read_path :: string
  read_text :: string
  read_hash :: string
  read_size :: int

fun node_size :: "node \<Rightarrow> int" where
  "node_size (File d _) = int (length d)"
| "node_size _ = 0"

text \<open>\<open>io.ReadAll\<close> on the file or on a \<open>LimitReader\<close> of \<open>maxBytes + 1\<close> bytes.\<close>

definition limited_read :: "int \<Rightarrow> string \<Rightarrow> string" where
  "limited_read max_bytes d =
     (if max_bytes > 0 then take (nat (int64_wrap (max_bytes + 1))) d else d)"

text \<open>The branch for a link: its target, which must lie inside the workspace.\<close>

definition follow_target :: "fs \<Rightarrow> workspace \<Rightarrow> path \<Rightarrow> go_error + path \<times> node" where
  "follow_target fs w file =
     (case eval_symlinks fs file of
        Inl e \<Rightarrow> Inl (wrap_err InvalidPath ''eval symlink'' (path_error ''lstat'' file e))
      | Inr target \<Rightarrow>
          if \<not> within_root (ws_root w) target
          then Inl (must_err SymlinkEscape ''symlink target outside workspace'')
          else case stat fs target of
            Inl e \<Rightarrow>
              if e = ENOENT then Inl (must_err WorkspaceFileNotFound ''file not found'')
              else Inl (wrap_err InternalError ''stat symlink target'' (path_error ''stat'' target e))
          | Inr fi \<Rightarrow> Inr (target, fi))"

definition read_text_file :: "fs \<Rightarrow> workspace \<Rightarrow> string \<Rightarrow> int \<Rightarrow> go_error + read_result" where
  "read_text_file fs w rel max_bytes =
     (case resolve_path fs w rel of
        Inl e \<Rightarrow> Inl e
      | Inr file \<Rightarrow>
      (case lstat fs file of
         Inl e \<Rightarrow>
           if e = ENOENT then Inl (must_err WorkspaceFileNotFound ''file not found'')
           else Inl (wrap_err InternalError ''stat file'' (path_error ''lstat'' file e))
       | Inr fi \<Rightarrow>
       (case (if is_link fi then follow_target fs w file else Inr (file, fi)) of
          Inl e \<Rightarrow> Inl e
        | Inr (file, fi) \<Rightarrow>
            if fi = Dir then Inl (must_err InvalidPath ''path is a directory'')
            else if max_bytes > 0 \<and> node_size fi > max_bytes
            then Inl (must_err FileTooLarge
                   (''file size '' @ itoa (node_size fi) @ '' exceeds limit '' @ itoa max_bytes))
            else (case read_content fs file of
               Inl e \<Rightarrow>
                 if e = ENOENT then Inl (must_err WorkspaceFileNotFound ''file not found'')
                 else Inl (wrap_err InternalError ''open file'' (path_error ''open'' file e))
             | Inr content \<Rightarrow>
                 let data = limited_read max_bytes content in
                 if max_bytes > 0 \<and> int (length data) > max_bytes
                 then Inl (must_err FileTooLarge (''file exceeds limit '' @ itoa max_bytes))
                 else if \<not> utf8_valid data
                 then Inl (must_err InvalidArgument ''file is not valid UTF-8 text'')
                 else Inr \<lparr>read_path = clean rel, read_text = data, read_hash = hash_bytes data,
                           read_size = int (length data)\<rparr>))))"

section \<open>Several files\<close>

record read_entry =
  entry_path :: string
  entry_status :: string
  entry_content :: string
  entry_hash :: string
  entry_size :: int
  entry_error :: "proto_error option"

record read_files_result =
  rf_files :: "read_entry list"
  rf_total :: int
  rf_success :: int
  rf_failed :: int

definition as_proto_err :: "go_error \<Rightarrow> proto_error" where
  "as_proto_err e =
     (case e of
        ProtoError pe \<Rightarrow> pe
      | PlainError s \<Rightarrow>
          (case new_error InternalError s of
             Inl _ \<Rightarrow> \<lparr>err_code = InternalError, err_category = OtherCategory [], err_message = s,
                       err_retryable = False, err_details = None\<rparr>
           | Inr pe \<Rightarrow> pe))"

definition must_proto_err :: "code \<Rightarrow> string \<Rightarrow> proto_error" where
  "must_proto_err c msg =
     (case new_error c msg of
        Inl _ \<Rightarrow> \<lparr>err_code = c, err_category = OtherCategory [], err_message = msg,
                  err_retryable = False, err_details = None\<rparr>
      | Inr pe \<Rightarrow> pe)"

definition failed_entry :: "string \<Rightarrow> proto_error \<Rightarrow> read_entry" where
  "failed_entry p e =
     \<lparr>entry_path = p, entry_status = ''FAILED'', entry_content = [], entry_hash = [],
      entry_size = 0, entry_error = Some e\<rparr>"

text \<open>One round of the loop over the paths: the entry and whether it counts as a success.\<close>

definition read_step :: "fs \<Rightarrow> workspace \<Rightarrow> int \<Rightarrow> string \<Rightarrow> read_files_result \<Rightarrow> read_files_result" where
  "read_step fs w max_bytes p out =
     (if p = [] then
        out\<lparr>rf_failed := rf_failed out + 1,
            rf_files := rf_files out @ [failed_entry p (must_proto_err InvalidArgument ''path is empty'')]\<rparr>
      else case read_text_file fs w p max_bytes of
        Inl e \<Rightarrow>
          out\<lparr>rf_failed := rf_failed out + 1,
              rf_files := rf_files out @ [failed_entry p (as_proto_err e)]\<rparr>
      | Inr res \<Rightarrow>
          out\<lparr>rf_success := rf_success out + 1,
              rf_files := rf_files out @
                [\<lparr>entry_path = read_path res, entry_status = ''SUCCESS'',
                  entry_content = read_text res, entry_hash = read_hash res,
                  entry_size = read_size res, entry_error = None\<rparr>]\<rparr>)"

definition read_text_files :: "fs \<Rightarrow> workspace \<Rightarrow> string list \<Rightarrow> int \<Rightarrow> go_error + read_files_result" where
  "read_text_files fs w paths max_bytes =
     (if paths = [] then Inl (must_err InvalidArgument ''paths required'')
      else Inr (fold (read_step fs w max_bytes) paths
                 \<lparr>rf_files = [], rf_total = int (length paths), rf_success = 0, rf_failed = 0\<rparr>))"

definition overall_status :: "read_files_result option \<Rightarrow> string" where
  "overall_status r =
     (case r of
        None \<Rightarrow> ''FAILED''
      | Some r \<Rightarrow>
          if rf_total r = 0 then ''FAILED''
          else if rf_failed r = 0 then ''SUCCESS''
          else if rf_success r = 0 then ''FAILED''
          else ''PARTIAL'')"

section \<open>Reading one file\<close>

lemma limited_read_all:
  "int (length d) \<le> m \<Longrightarrow> m < 2 ^ 63 - 1 \<Longrightarrow> limited_read m d = d"
  by (simp add: limited_read_def int64_wrap_id int64_range_def)

lemma read_text_file_Inr:
  assumes "fs_wf fs" "proper_path (ws_root w)" "read_text_file fs w rel m = Inr res"
  obtains q d perm where "resolve_path fs w rel = Inr q" "node_at fs q = Some (File d perm)"
    "m > 0 \<longrightarrow> int (length d) \<le> m" "read_text res = limited_read m d" "utf8_valid (read_text res)"
    "read_hash res = hash_bytes (read_text res)" "read_size res = int (length (read_text res))"
    "read_path res = clean rel"
proof -
  obtain q where q: "resolve_path fs w rel = Inr q"
    using assms(3) by (auto simp: read_text_file_def split: sum.splits)
  note facts = ws_paths.confined_lstat [OF assms(1,2) q] ws_paths.confined_content [OF assms(1,2) q]
  obtain nd where nd: "node_at fs q = Some nd"
    using assms(3) q facts(1) by (cases "node_at fs q") (auto simp: read_text_file_def)
  with ws_paths.confined_no_link [OF assms(1,2) q] have "\<not> is_link nd" by (auto simp: is_link_iff)
  then obtain d perm where File: "nd = File d perm"
    using assms(3) q facts nd by (cases nd) (auto simp: read_text_file_def)
  show thesis
  proof (rule that [OF q])
    show "node_at fs q = Some (File d perm)" using nd File by simp
  qed (use assms(3) q facts nd File in \<open>auto simp: read_text_file_def Let_def split: if_splits\<close>)
qed

lemma read_text_file_ok:
  assumes "fs_wf fs" "proper_path (ws_root w)" "resolve_path fs w rel = Inr q"
    and "node_at fs q = Some (File d perm)" "utf8_valid d" "m > 0 \<longrightarrow> int (length d) \<le> m" "m < 2 ^ 63 - 1"
  shows "read_text_file fs w rel m =
    Inr \<lparr>read_path = clean rel, read_text = d, read_hash = hash_bytes d, read_size = int (length d)\<rparr>"
proof -
  have "limited_read m d = d" using limited_read_all [of d m] assms(6,7) by (auto simp: limited_read_def)
  with assms show ?thesis
    using ws_paths.confined_lstat [OF assms(1-3)] ws_paths.confined_content [OF assms(1-3)]
    by (auto simp: read_text_file_def Let_def)
qed

section \<open>Reading several files\<close>

text \<open>What one path contributes, independently of the other paths.\<close>

definition read_outcome :: "fs \<Rightarrow> workspace \<Rightarrow> int \<Rightarrow> string \<Rightarrow> go_error + read_result" where
  "read_outcome fs w m p =
     (if p = [] then Inl (must_err InvalidArgument ''path is empty'') else read_text_file fs w p m)"

definition entry_of :: "string \<Rightarrow> go_error + read_result \<Rightarrow> read_entry" where
  "entry_of p r =
     (case r of
        Inl e \<Rightarrow> failed_entry p (as_proto_err e)
      | Inr res \<Rightarrow>
          \<lparr>entry_path = read_path res, entry_status = ''SUCCESS'', entry_content = read_text res,
           entry_hash = read_hash res, entry_size = read_size res, entry_error = None\<rparr>)"

lemma must_proto_err_eq: "as_proto_err (must_err c msg) = must_proto_err c msg" if "known_code c"
  using that by (cases c)
    (simp_all add: must_err_def must_proto_err_def as_proto_err_def new_error_def)

lemma read_step_eq:
  "read_step fs w m p out =
    out\<lparr>rf_files := rf_files out @ [entry_of p (read_outcome fs w m p)],
        rf_success := rf_success out + (if is_ok (read_outcome fs w m p) then 1 else 0),
        rf_failed := rf_failed out + (if is_ok (read_outcome fs w m p) then 0 else 1)\<rparr>"
  by (cases out; cases "read_text_file fs w p m")
    (auto simp: read_step_def read_outcome_def entry_of_def must_proto_err_eq)

lemma fold_read_step:
  "fold (read_step fs w m) ps out =
    out\<lparr>rf_files := rf_files out @ map (\<lambda>p. entry_of p (read_outcome fs w m p)) ps,
        rf_success := rf_success out + int (length (filter (\<lambda>p. is_ok (read_outcome fs w m p)) ps)),
        rf_failed := rf_failed out + int (length (filter (\<lambda>p. \<not> is_ok (read_outcome fs w m p)) ps))\<rparr>"
proof (induction ps arbitrary: out)
  case Nil
  show ?case by (cases out) simp
next
  case (Cons p ps)
  show ?case
    unfolding fold_simps Cons.IH by (cases out) (simp add: read_step_eq)
qed

lemma length_filter_zero: "length (filter P xs) = 0 \<longleftrightarrow> (\<forall>x\<in>set xs. \<not> P x)"
  by (simp add: filter_empty_conv)

section \<open>Properties\<close>

text \<open>
  C20. What \<open>ReadTextFile\<close> returns is the whole content of one regular file inside the
  workspace, with its SHA-256 and its size; the content is valid UTF-8 and within the limit
  (limits below the greatest \<open>int64\<close>, for which the reader's \<open>maxBytes + 1\<close> would wrap).
\<close>

theorem read_text_file_confined:
  assumes "fs_wf fs" "proper_path (ws_root w)" "m < 2 ^ 63 - 1"
    and "read_text_file fs w rel m = Inr res"
  shows "\<exists>q perm. prefix (ws_root w) q \<and> node_at fs q = Some (File (read_text res) perm)
    \<and> read_hash res = hash_bytes (read_text res) \<and> utf8_valid (read_text res)
    \<and> (m > 0 \<longrightarrow> read_size res \<le> m) \<and> read_size res = int (length (read_text res))"
  using assms(1,2,4)
proof (rule read_text_file_Inr)
  fix q d perm
  assume r: "resolve_path fs w rel = Inr q" "node_at fs q = Some (File d perm)"
    "m > 0 \<longrightarrow> int (length d) \<le> m" "read_text res = limited_read m d" "utf8_valid (read_text res)"
    "read_hash res = hash_bytes (read_text res)" "read_size res = int (length (read_text res))"
  have "read_text res = d" using r(3,4) assms(3) limited_read_all [of d m]
    by (auto simp: limited_read_def)
  with r ws_paths.confined [OF assms(1,2) r(1)] show ?thesis by auto
qed

theorem read_text_file_confined_witness:
  "let res = \<lparr>read_path = ''in/f'', read_text = ''hi'', read_hash = hash_bytes ''hi'', read_size = 2\<rparr>
   in read_text_file demo_fs demo_ws ''in/f'' 10 = Inr res
    \<and> (\<exists>q perm. prefix (ws_root demo_ws) q \<and> node_at demo_fs q = Some (File (read_text res) perm))"
proof -
  let ?res = "\<lparr>read_path = ''in/f'', read_text = ''hi'', read_hash = hash_bytes ''hi'', read_size = 2\<rparr>"
  have q: "resolve_path demo_fs demo_ws ''in/f'' = Inr [''w'', ''a'', ''f'']"
    and n: "node_at demo_fs [''w'', ''a'', ''f''] = Some (File ''hi'' 420)"
    and c: "clean ''in/f'' = ''in/f''" "utf8_valid ''hi''"
    by code_simp+
  have "read_text_file demo_fs demo_ws ''in/f'' 10 = Inr ?res"
    using read_text_file_ok [OF demo_fs_wf demo_root q n c(2), of 10] c(1) by simp
  with read_text_file_confined [OF demo_fs_wf demo_root, of 10 "''in/f''" ?res] show ?thesis
    by (auto simp: Let_def)
qed

text \<open>
  \<open>ReadTextFiles\<close> reads every path on its own, in order: entry \<open>i\<close> is the outcome of path
  \<open>i\<close> alone, whatever happens to the others; the counters add up; and the overall status is
  SUCCESS when every path succeeded, FAILED when none did and PARTIAL otherwise.
\<close>

lemma read_text_files_independent:
  assumes "ps \<noteq> []"
  shows "\<exists>r. read_text_files fs w ps m = Inr r
    \<and> rf_files r = map (\<lambda>p. entry_of p (read_outcome fs w m p)) ps
    \<and> rf_success r + rf_failed r = rf_total r \<and> rf_total r = int (length ps)
    \<and> overall_status (Some r) =
        (if (\<forall>p\<in>set ps. is_ok (read_outcome fs w m p)) then ''SUCCESS''
         else if (\<exists>p\<in>set ps. is_ok (read_outcome fs w m p)) then ''PARTIAL'' else ''FAILED'')"
proof -
  let ?ok = "\<lambda>p. is_ok (read_outcome fs w m p)"
  have sum: "length (filter ?ok ps) + length (filter (\<lambda>p. \<not> ?ok p) ps) = length ps"
    by (rule sum_length_filter_compl)
  let ?r = "\<lparr>rf_files = map (\<lambda>p. entry_of p (read_outcome fs w m p)) ps, rf_total = int (length ps),
    rf_success = int (length (filter ?ok ps)), rf_failed = int (length (filter (\<lambda>p. \<not> ?ok p) ps))\<rparr>"
  have "read_text_files fs w ps m = Inr ?r"
    using assms by (simp add: read_text_files_def fold_read_step)
  moreover have "rf_success ?r + rf_failed ?r = rf_total ?r"
    using sum by simp
  moreover have "overall_status (Some ?r) =
      (if (\<forall>p\<in>set ps. ?ok p) then ''SUCCESS''
       else if (\<exists>p\<in>set ps. ?ok p) then ''PARTIAL'' else ''FAILED'')"
    using assms by (simp add: overall_status_def filter_empty_conv)
  ultimately show ?thesis by (intro exI [of _ ?r]) simp
qed

theorem read_text_files_independent_witness:
  "\<exists>r. read_text_files demo_fs demo_ws [''nope'', ''in/f''] 10 = Inr r \<and> rf_total r = 2
    \<and> overall_status (Some r) = ''PARTIAL''"
proof -
  have "\<not> is_ok (read_outcome demo_fs demo_ws 10 ''nope'')" by code_simp
  moreover have "is_ok (read_outcome demo_fs demo_ws 10 ''in/f'')"
  proof -
    have q: "resolve_path demo_fs demo_ws ''in/f'' = Inr [''w'', ''a'', ''f'']"
      and n: "node_at demo_fs [''w'', ''a'', ''f''] = Some (File ''hi'' 420)"
      and c: "utf8_valid ''hi''"
      by code_simp+
    show ?thesis
      using read_text_file_ok [OF demo_fs_wf demo_root q n c, of 10] by (simp add: read_outcome_def)
  qed
  ultimately show ?thesis
    using read_text_files_independent [of "[''nope'', ''in/f'']" demo_fs demo_ws 10] by auto
qed

end
