(* ===== verification/Workspace_Search.thy ===== *)
theory Workspace_Search
  imports Workspace_Read
begin

text \<open>
  \<open>local-agent/internal/workspace/search.go\<close>: searching the names, paths and lines of the files
  of a workspace. \<open>filepath.WalkDir\<close> is modelled with its callback, the directory entries in
  the order of their names; the root of a workspace is canonical (\<open>Register\<close>), so the path of
  an entry is its place in the file system. Letter case is that of \<^const>\<open>to_lower\<close>.
\<close>

section \<open>Walking a directory tree\<close>

datatype walk_next = Go_on | Skip_dir | Skip_all

definition read_dir :: "fs \<Rightarrow> path \<Rightarrow> string list" where
  "read_dir fs p = sort (remdups (map last (filter (\<lambda>q. q \<noteq> [] \<and> butlast q = p) (map fst fs))))"

definition below :: "fs \<Rightarrow> path \<Rightarrow> path list" where
  "below fs p = filter (strict_prefix p) (map fst fs)"

lemma below_child:
  assumes "node_at fs (p @ [c]) = Some nd"
  shows "length (below fs (p @ [c])) < length (below fs p)"
proof -
  have key: "p @ [c] \<in> set (map fst fs)"
    using assms by (force simp: node_at_def dest: map_of_SomeD split: if_splits)
  have imp: "strict_prefix (p @ [c]) q \<Longrightarrow> strict_prefix p q" for q
    by (meson append_prefixD prefix_order.le_less_trans prefix_order.order_refl)
  have "length (filter P xs) < length (filter P' xs)"
    if "\<And>q. P q \<Longrightarrow> P' q" "x \<in> set xs" "P' x" "\<not> P x" for P P' x and xs :: "path list"
    using that
  proof (induction xs)
    case (Cons y ys)
    have "length (filter P zs) \<le> length (filter P' zs)" for zs
      using Cons.prems(1) by (induction zs) auto
    with Cons show ?case by (auto simp: less_Suc_eq_le)
  qed simp
  from this [of "strict_prefix (p @ [c])" "strict_prefix p", OF imp key]
  show ?thesis by (simp add: below_def strict_prefix_snoc)
qed

text \<open>
  \<open>walkDir\<close> calls \<open>fn\<close> on the path and, for a directory it does not skip, visits the entries.
\<close>

function (sequential) walk_tree ::
    "fs \<Rightarrow> (path \<Rightarrow> node \<Rightarrow> 's \<Rightarrow> 's \<times> walk_next) \<Rightarrow> path \<Rightarrow> node \<Rightarrow> 's \<Rightarrow> 's \<times> walk_next"
  and walk_entries ::
    "fs \<Rightarrow> (path \<Rightarrow> node \<Rightarrow> 's \<Rightarrow> 's \<times> walk_next) \<Rightarrow> path \<Rightarrow> string list \<Rightarrow> 's \<Rightarrow> 's \<times> walk_next" where
  "walk_tree fs fn p nd s =
     (case fn p nd s of
        (s1, Go_on) \<Rightarrow> if nd = Dir then walk_entries fs fn p (read_dir fs p) s1 else (s1, Go_on)
      | (s1, Skip_dir) \<Rightarrow> (s1, if nd = Dir then Go_on else Skip_dir)
      | (s1, Skip_all) \<Rightarrow> (s1, Skip_all))"
| "walk_entries fs fn p [] s = (s, Go_on)"
| "walk_entries fs fn p (c # cs) s =
     (case node_at fs (p @ [c]) of
        None \<Rightarrow> walk_entries fs fn p cs s
      | Some nd \<Rightarrow>
          (case walk_tree fs fn (p @ [c]) nd s of
             (s1, Go_on) \<Rightarrow> walk_entries fs fn p cs s1
           | (s1, Skip_dir) \<Rightarrow> (s1, Go_on)
           | (s1, Skip_all) \<Rightarrow> (s1, Skip_all)))"
  by pat_completeness auto
termination
  by (relation "measures
      [\<lambda>x. case x of Inl (fs, fn, p, nd, s) \<Rightarrow> length (below fs p) | Inr (fs, fn, p, cs, s) \<Rightarrow> length (below fs p),
       \<lambda>x. case x of Inl _ \<Rightarrow> 1 | Inr _ \<Rightarrow> 0,
       \<lambda>x. case x of Inl _ \<Rightarrow> 0 | Inr (fs, fn, p, cs, s) \<Rightarrow> length cs]")
    (auto dest: below_child)

text \<open>\<open>filepath.WalkDir\<close>; the callback answers nil to the errors of the walk itself.\<close>

definition walk_dir :: "fs \<Rightarrow> (path \<Rightarrow> node \<Rightarrow> 's \<Rightarrow> 's \<times> walk_next) \<Rightarrow> path \<Rightarrow> 's \<Rightarrow> 's" where
  "walk_dir fs fn root s =
     (case lstat fs root of
        Inl _ \<Rightarrow> s
      | Inr nd \<Rightarrow> fst (walk_tree fs fn root nd s))"

section \<open>Options and results\<close>

record search_options =
  so_query :: string
  so_mode :: string
  so_exclude :: "string list option"
  so_max_results :: int
  so_max_bytes :: int
  so_max_scan :: int

record search_match =
  sm_path :: string
  sm_kind :: string
  sm_line :: int
  sm_preview :: string

record search_result =
  sr_query :: string
  sr_mode :: string
  sr_matches :: "search_match list"
  sr_truncated :: bool

definition default_exclude_dirs :: "string list" where
  "default_exclude_dirs = [''.git'', ''target'', ''node_modules'', ''dist'', ''build'']"

definition default_search_options :: "string \<Rightarrow> string \<Rightarrow> search_options" where
  "default_search_options query mode =
     \<lparr>so_query = query, so_mode = (if mode = [] then ''all'' else mode),
      so_exclude = Some default_exclude_dirs, so_max_results = 200, so_max_bytes = 2 * 1024 * 1024,
      so_max_scan = 512 * 1024\<rparr>"

definition match_key :: "search_match \<Rightarrow> string \<times> string \<times> int" where
  "match_key m = (sm_path m, sm_kind m, sm_line m)"

definition add_match :: "search_match \<Rightarrow> int \<Rightarrow> search_result \<Rightarrow> search_result \<times> bool" where
  "add_match m mx r =
     (if list_ex (\<lambda>x. match_key x = match_key m) (sr_matches r) then (r, True)
      else if int (length (sr_matches r)) \<ge> mx then (r\<lparr>sr_truncated := True\<rparr>, False)
      else (r\<lparr>sr_matches := sr_matches r @ [m]\<rparr>, True))"

section \<open>Lines of a file\<close>

text \<open>
  \<open>bufio.Scanner\<close> with \<open>ScanLines\<close>: a final carriage return is dropped; a line that does not
  fit the buffer of \<open>mx\<close> bytes ends the scan.
\<close>

definition drop_cr :: "string \<Rightarrow> string" where
  "drop_cr s = (if s \<noteq> [] \<and> last s = CHR 0x0D then butlast s else s)"

function scan_lines :: "int \<Rightarrow> string \<Rightarrow> string list" where
  "scan_lines mx s =
     (if s = [] then []
      else case index_byte (clip mx s) newline of
        Some i \<Rightarrow> drop_cr (take i s) # scan_lines mx (drop (Suc i) s)
      | None \<Rightarrow> if int (length s) \<ge> mx then [] else [drop_cr s])"
  by pat_completeness auto
termination by (relation "measure (\<lambda>(_, s). length s)") auto

declare scan_lines.simps [simp del]

definition scan_buffer :: int where
  "scan_buffer = 1024 * 1024"

definition preview_of :: "string \<Rightarrow> string" where
  "preview_of line = clip 200 line"

text \<open>The loop over the lines; the second component says that the search stops.\<close>

fun match_lines ::
  "string \<Rightarrow> string \<Rightarrow> int \<Rightarrow> int \<Rightarrow> string list \<Rightarrow> search_result \<Rightarrow> search_result \<times> bool" where
  "match_lines rel q mx n [] out = (out, False)"
| "match_lines rel q mx n (line # rest) out =
     (if \<not> contains line q then match_lines rel q mx (n + 1) rest out
      else case add_match \<lparr>sm_path = rel, sm_kind = ''content'', sm_line = n + 1,
                           sm_preview = preview_of line\<rparr> mx out of
        (out1, True) \<Rightarrow> match_lines rel q mx (n + 1) rest out1
      | (out1, False) \<Rightarrow> (out1, True))"

text \<open>What of a file is scanned: nothing, or the first bytes of a text file within the limits.\<close>

definition scan_target :: "fs \<Rightarrow> workspace \<Rightarrow> path \<Rightarrow> (path \<times> node) option" where
  "scan_target fs w file =
     (case lstat fs file of
        Inl _ \<Rightarrow> None
      | Inr fi \<Rightarrow>
          if fi = Dir then None
          else if is_link fi then
            (case eval_symlinks fs file of
               Inl _ \<Rightarrow> None
             | Inr target \<Rightarrow>
                 if \<not> within_root (ws_root w) target then None
                 else (case stat fs target of
                         Inl _ \<Rightarrow> None
                       | Inr fi \<Rightarrow> if fi = Dir then None else Some (target, fi)))
          else Some (file, fi))"

definition scanned_text :: "fs \<Rightarrow> workspace \<Rightarrow> search_options \<Rightarrow> path \<Rightarrow> string" where
  "scanned_text fs w opts file =
     (case scan_target fs w file of
        None \<Rightarrow> []
      | Some (file, fi) \<Rightarrow>
          if so_max_bytes opts > 0 \<and> node_size fi > so_max_bytes opts then []
          else (case read_content fs file of
             Inl _ \<Rightarrow> []
           | Inr content \<Rightarrow>
               let limited = clip (so_max_scan opts) content; head = clip 4096 limited in
               if head = [] then []
               else if \<not> utf8_valid head \<or> index_byte head (CHR 0x00) \<noteq> None then []
               else limited))"

definition search_file_content ::
  "fs \<Rightarrow> workspace \<Rightarrow> path \<Rightarrow> string \<Rightarrow> string \<Rightarrow> search_options \<Rightarrow> search_result \<Rightarrow> search_result \<times> bool" where
  "search_file_content fs w file rel q opts out =
     match_lines rel q (so_max_results opts) 0 (scan_lines scan_buffer (scanned_text fs w opts file)) out"

section \<open>Search\<close>

text \<open>A hit that is recorded only when wanted; the flag says whether to go on.\<close>

definition add_when :: "bool \<Rightarrow> search_match \<Rightarrow> int \<Rightarrow> search_result \<Rightarrow> search_result \<times> bool" where
  "add_when want m mx out = (if want then add_match m mx out else (out, True))"

definition name_match :: "string \<Rightarrow> string \<Rightarrow> search_match" where
  "name_match kind rel = \<lparr>sm_path = rel, sm_kind = kind, sm_line = 0, sm_preview = []\<rparr>"

definition wants :: "string \<Rightarrow> string \<Rightarrow> bool" where
  "wants mode kind \<longleftrightarrow> mode = ''all'' \<or> mode = kind"

text \<open>The callback of the walk, on an entry without an error.\<close>

definition search_visit ::
  "fs \<Rightarrow> workspace \<Rightarrow> string list \<Rightarrow> string \<Rightarrow> string \<Rightarrow> search_options \<Rightarrow> path \<Rightarrow> node \<Rightarrow> search_result
    \<Rightarrow> search_result \<times> walk_next" where
  "search_visit fs w exclude mode q opts file nd out =
     (if nd = Dir then
        (if to_lower (base_name file) \<in> set exclude then (out, Skip_dir)
         else if file \<noteq> ws_root w \<and> \<not> within_root (ws_root w) file then (out, Skip_dir)
         else (out, Go_on))
      else if sr_truncated out then (out, Skip_all)
      else
        let names = rel_names (ws_root w) file; rel = rel_string names; mx = so_max_results opts in
        if \<not> is_ok (resolve_path fs w rel) then (out, Go_on)
        else
          case add_when (wants mode ''name'' \<and> contains (to_lower (base_name names)) (to_lower q))
                 (name_match ''name'' rel) mx out of
            (out1, False) \<Rightarrow> (out1, Skip_all)
          | (out1, True) \<Rightarrow>
          (case add_when (wants mode ''path'' \<and> contains (to_lower rel) (to_lower q))
                  (name_match ''path'' rel) mx out1 of
             (out2, False) \<Rightarrow> (out2, Skip_all)
           | (out2, True) \<Rightarrow>
               if \<not> wants mode ''content'' then (out2, Go_on)
               else (case search_file_content fs w file rel q opts out2 of
                  (out3, stop) \<Rightarrow> (out3, if stop then Skip_all else Go_on))))"

definition excluded_names :: "search_options \<Rightarrow> string list" where
  "excluded_names opts =
     map to_lower (case so_exclude opts of None \<Rightarrow> default_exclude_dirs | Some ds \<Rightarrow> ds)"

definition effective :: "search_options \<Rightarrow> search_options" where
  "effective opts =
     opts\<lparr>so_max_results := (if so_max_results opts \<le> 0 then 200 else so_max_results opts),
          so_max_scan := (if so_max_scan opts \<le> 0 then 512 * 1024 else so_max_scan opts)\<rparr>"

definition search :: "fs \<Rightarrow> workspace \<Rightarrow> search_options \<Rightarrow> go_error + search_result" where
  "search fs w opts0 =
     (let q = trim_space (so_query opts0); mode = (if so_mode opts0 = [] then ''all'' else so_mode opts0) in
      if q = [] then Inl (must_err InvalidArgument ''query required'')
      else if mode \<notin> {''all'', ''name'', ''path'', ''content''}
      then Inl (must_err InvalidArgument ''invalid search mode'')
      else
        let opts = effective opts0;
            out = \<lparr>sr_query = q, sr_mode = mode, sr_matches = [], sr_truncated = False\<rparr>
        in Inr (walk_dir fs (search_visit fs w (excluded_names opts) mode q opts) (ws_root w) out))"

section \<open>The contract of a callback\<close>

text \<open>
  A callback keeps a property \<open>good\<close> of the state, and \<open>saw p\<close>, once it holds after the visit of
  a file, holds ever after. It answers \<^const>\<open>Skip_all\<close> only with \<open>stopped\<close>, enters a
  directory that is \<open>open_dir\<close> and skips no file. Then a walk that was not stopped has seen every file
  below the root that lies in open directories.
\<close>

definition reached :: "fs \<Rightarrow> (path \<Rightarrow> bool) \<Rightarrow> path \<Rightarrow> path \<Rightarrow> bool" where
  "reached fs open_dir root p \<longleftrightarrow> prefix root p \<and> (\<exists>nd. node_at fs p = Some nd \<and> nd \<noteq> Dir)
     \<and> (\<forall>q. prefix root q \<longrightarrow> strict_prefix q p \<longrightarrow> node_at fs q = Some Dir \<and> open_dir q)"

locale walker =
  fixes fs :: fs and fn :: "path \<Rightarrow> node \<Rightarrow> 's \<Rightarrow> 's \<times> walk_next"
    and open_dir :: "path \<Rightarrow> bool" and root :: path
    and good :: "'s \<Rightarrow> bool" and saw :: "path \<Rightarrow> 's \<Rightarrow> bool" and stopped :: "'s \<Rightarrow> bool"
  assumes kept: "prefix root p \<Longrightarrow> node_at fs p = Some nd \<Longrightarrow> (nd \<noteq> Dir \<Longrightarrow> reached fs open_dir root p) \<Longrightarrow>
      good s \<Longrightarrow> fn p nd s = (s', r) \<Longrightarrow> good s'"
    and saw_kept: "fn p nd s = (s', r) \<Longrightarrow> saw q s \<Longrightarrow> saw q s'"
    and seen: "node_at fs p = Some nd \<Longrightarrow> nd \<noteq> Dir \<Longrightarrow> fn p nd s = (s', Go_on) \<Longrightarrow> saw p s'"
    and entered: "fn p Dir s = (s', r) \<Longrightarrow> r = (if open_dir p then Go_on else Skip_dir)"
    and no_skip: "nd \<noteq> Dir \<Longrightarrow> fn p nd s \<noteq> (s', Skip_dir)"
    and halted: "fn p nd s = (s', Skip_all) \<Longrightarrow> stopped s'"
begin

definition on_way :: "path \<Rightarrow> bool" where
  "on_way p \<longleftrightarrow> prefix root p \<and> (\<forall>q. prefix root q \<longrightarrow> strict_prefix q p \<longrightarrow> node_at fs q = Some Dir \<and> open_dir q)"

lemma on_way_child:
  "on_way p \<Longrightarrow> node_at fs p = Some Dir \<Longrightarrow> open_dir p \<Longrightarrow> on_way (p @ [c])"
  by (auto simp: on_way_def strict_prefix_snoc prefix_order.le_less)

lemma walk_induct:
  assumes tree: "\<And>p nd s. (\<And>s1. fn p nd s = (s1, Go_on) \<Longrightarrow> nd = Dir \<Longrightarrow> Q p (read_dir fs p) s1) \<Longrightarrow> P p nd s"
    and nil: "\<And>p s. Q p [] s"
    and entry: "\<And>p c cs s. (node_at fs (p @ [c]) = None \<Longrightarrow> Q p cs s)
      \<Longrightarrow> (\<And>nd. node_at fs (p @ [c]) = Some nd \<Longrightarrow> P (p @ [c]) nd s)
      \<Longrightarrow> (\<And>nd s1. node_at fs (p @ [c]) = Some nd \<Longrightarrow> walk_tree fs fn (p @ [c]) nd s = (s1, Go_on) \<Longrightarrow> Q p cs s1)
      \<Longrightarrow> Q p (c # cs) s"
  shows "P p nd s" "Q p cs s"
proof -
  have "fs' = fs \<longrightarrow> fn' = fn \<longrightarrow> P p1 nd1 s1" and "fs'' = fs \<longrightarrow> fn'' = fn \<longrightarrow> Q p2 cs2 s2"
    for fs' fn' p1 nd1 s1 fs'' fn'' p2 cs2 s2
    by (induction fs' fn' p1 nd1 s1 and fs'' fn'' p2 cs2 s2 rule: walk_tree_walk_entries.induct)
      (auto intro: tree nil entry)
  then show "P p nd s" "Q p cs s" by blast+
qed

lemma entry_cases:
  obtains (gone) "node_at fs (p @ [c]) = None" "walk_entries fs fn p (c # cs) s = walk_entries fs fn p cs s"
  | (go) nd s1 where "node_at fs (p @ [c]) = Some nd" "walk_tree fs fn (p @ [c]) nd s = (s1, Go_on)"
      "walk_entries fs fn p (c # cs) s = walk_entries fs fn p cs s1"
  | (cut) nd s1 r where "node_at fs (p @ [c]) = Some nd" "walk_tree fs fn (p @ [c]) nd s = (s1, r)" "r \<noteq> Go_on"
      "walk_entries fs fn p (c # cs) s = (s1, if r = Skip_all then Skip_all else Go_on)"
proof (cases "node_at fs (p @ [c])")
  case (Some nd)
  obtain s1 r where "walk_tree fs fn (p @ [c]) nd s = (s1, r)" by fastforce
  with Some go cut show thesis by (cases r) auto
qed (use gone in simp)

lemma walk_keeps:
  "on_way p \<longrightarrow> node_at fs p = Some nd \<longrightarrow> good s \<longrightarrow> good (fst (walk_tree fs fn p nd s))"
  "on_way p \<longrightarrow> node_at fs p = Some Dir \<longrightarrow> open_dir p \<longrightarrow> good s \<longrightarrow> good (fst (walk_entries fs fn p cs s))"
proof (induction p nd s and p cs s rule: walk_induct)
  case (1 p nd s)
  show ?case
  proof (intro impI)
    assume way: "on_way p" and nd: "node_at fs p = Some nd" and "good s"
    have "nd \<noteq> Dir \<Longrightarrow> reached fs open_dir root p" using way nd by (auto simp: reached_def on_way_def)
    with way nd \<open>good s\<close> have "good (fst (fn p nd s))" using kept [of p nd s] by (cases "fn p nd s") (auto simp: on_way_def)
    with 1 way nd show "good (fst (walk_tree fs fn p nd s))"
      using entered [of p s] by (auto split: prod.splits walk_next.splits if_splits)
  qed
next
  case (3 p c cs s)
  show ?case
  proof (intro impI)
    assume way: "on_way p" "node_at fs p = Some Dir" "open_dir p" and "good s"
    then have "on_way (p @ [c])" by (simp add: on_way_child)
    with 3 way \<open>good s\<close> show "good (fst (walk_entries fs fn p (c # cs) s))"
      by (cases rule: entry_cases [where p = p and c = c and cs = cs and s = s]) (auto simp del: walk_entries.simps walk_tree.simps)
  qed
qed auto

lemma walk_saw:
  "saw q s \<longrightarrow> saw q (fst (walk_tree fs fn p nd s))"
  "saw q s \<longrightarrow> saw q (fst (walk_entries fs fn p cs s))"
proof (induction p nd s and p cs s rule: walk_induct)
  case (1 p nd s)
  with saw_kept [of p nd s _ _ q] show ?case by (auto split: prod.splits walk_next.splits)
next
  case (3 p c cs s)
  then show ?case
    by (cases rule: entry_cases [where p = p and c = c and cs = cs and s = s]) (auto simp del: walk_entries.simps walk_tree.simps)
qed auto

lemma walk_outcome:
  "(snd (walk_tree fs fn p nd s) \<noteq> Skip_dir) \<and>
   (snd (walk_tree fs fn p nd s) = Skip_all \<longrightarrow> stopped (fst (walk_tree fs fn p nd s)))"
  "(snd (walk_entries fs fn p cs s) \<noteq> Skip_dir) \<and>
   (snd (walk_entries fs fn p cs s) = Skip_all \<longrightarrow> stopped (fst (walk_entries fs fn p cs s)))"
proof (induction p nd s and p cs s rule: walk_induct)
  case (1 p nd s)
  with halted [of p nd s] no_skip [of nd p s] show ?case by (auto split: prod.splits walk_next.splits)
next
  case (3 p c cs s)
  then show ?case
    by (cases rule: entry_cases [where p = p and c = c and cs = cs and s = s]) (auto simp del: walk_entries.simps walk_tree.simps)
qed auto

text \<open>The entries of a directory are the names below it.\<close>

lemma in_read_dir: "node_at fs (p @ [c]) = Some nd \<Longrightarrow> c \<in> set (read_dir fs p)"
  by (force simp: read_dir_def node_at_def image_iff dest: map_of_SomeD split: if_splits)

lemma reached_child:
  assumes "reached fs open_dir p q" "q \<noteq> p"
  obtains c nd where "reached fs open_dir (p @ [c]) q" "node_at fs (p @ [c]) = Some nd"
    "node_at fs p = Some Dir" "open_dir p"
proof -
  obtain zs where "q = p @ zs" using assms(1) by (auto simp: reached_def prefix_def)
  with assms(2) obtain c r where q: "q = p @ c # r" by (cases zs) auto
  then have strict: "strict_prefix p q" by (auto simp: strict_prefix_def)
  have "reached fs open_dir (p @ [c]) q"
    using assms(1) q unfolding reached_def by (auto dest: append_prefixD)
  moreover have "\<exists>nd. node_at fs (p @ [c]) = Some nd"
  proof (cases "r = []")
    case False
    with q have "prefix p (p @ [c])" "strict_prefix (p @ [c]) q" by (auto simp: strict_prefix_def)
    with assms(1) show ?thesis unfolding reached_def by blast
  qed (use assms(1) q in \<open>auto simp: reached_def\<close>)
  ultimately show thesis using that assms(1) strict unfolding reached_def by blast
qed

lemma walk_complete:
  "snd (walk_tree fs fn p nd s) = Go_on \<longrightarrow> node_at fs p = Some nd \<longrightarrow> reached fs open_dir p q
    \<longrightarrow> saw q (fst (walk_tree fs fn p nd s))"
  "\<forall>c. snd (walk_entries fs fn p cs s) = Go_on \<longrightarrow> c \<in> set cs \<longrightarrow> reached fs open_dir (p @ [c]) q
    \<longrightarrow> saw q (fst (walk_entries fs fn p cs s))"
proof (induction p nd s and p cs s rule: walk_induct)
  case (1 p nd s)
  show ?case
  proof (intro impI)
    assume go: "snd (walk_tree fs fn p nd s) = Go_on" and nd: "node_at fs p = Some nd"
      and q: "reached fs open_dir p q"
    show "saw q (fst (walk_tree fs fn p nd s))"
    proof (cases "q = p")
      case True
      with q nd have "nd \<noteq> Dir" by (auto simp: reached_def)
      with True go nd seen [of p nd s] no_skip [of nd p s] show ?thesis
        by (auto split: prod.splits walk_next.splits)
    next
      case False
      with q obtain c nd' where c: "reached fs open_dir (p @ [c]) q" "node_at fs (p @ [c]) = Some nd'"
        "node_at fs p = Some Dir" "open_dir p" by (rule reached_child)
      with nd entered [of p s] obtain s1 where s1: "fn p nd s = (s1, Go_on)" "nd = Dir"
        by (cases "fn p Dir s") auto
      with 1 [OF s1] c go in_read_dir [OF c(2)] show ?thesis by auto
    qed
  qed
next
  case (3 p c cs s)
  show ?case
  proof (intro allI impI)
    fix d
    assume go: "snd (walk_entries fs fn p (c # cs) s) = Go_on" and d: "d \<in> set (c # cs)"
      and q: "reached fs open_dir (p @ [d]) q"
    show "saw q (fst (walk_entries fs fn p (c # cs) s))"
    proof (cases rule: entry_cases [where p = p and c = c and cs = cs and s = s])
      case gone
      with q have "d \<noteq> c"
        by (cases "q = p @ [d]") (auto simp: reached_def strict_prefix_def)
      with gone 3 go d q show ?thesis by auto
    next
      case (go nd s1)
      show ?thesis
      proof (cases "d = c")
        case True
        with "3.IH"(2) [OF go(1)] go(1,2) q have "saw q s1" by auto
        with walk_saw(2) go(3) show ?thesis by simp
      next
        case False
        with "3.IH"(3) [OF go(1,2)] \<open>snd _ = Go_on\<close> d q go(3) show ?thesis by auto
      qed
    next
      case (cut nd s1 r)
      with walk_outcome(1) [of "p @ [c]" nd s] \<open>snd _ = Go_on\<close> show ?thesis
        by (cases r) (auto simp del: walk_entries.simps walk_tree.simps)
    qed
  qed
qed simp

end

section \<open>The hits of one file\<close>

text \<open>
  The reference: what the search has to find in one file, without limits and without the
  results so far.
\<close>

fun content_matches :: "string \<Rightarrow> string \<Rightarrow> int \<Rightarrow> string list \<Rightarrow> search_match list" where
  "content_matches rel q n [] = []"
| "content_matches rel q n (line # rest) =
     (if contains line q
      then [\<lparr>sm_path = rel, sm_kind = ''content'', sm_line = n + 1, sm_preview = preview_of line\<rparr>] else [])
     @ content_matches rel q (n + 1) rest"

definition file_matches ::
  "fs \<Rightarrow> workspace \<Rightarrow> string \<Rightarrow> string \<Rightarrow> search_options \<Rightarrow> path \<Rightarrow> search_match list" where
  "file_matches fs w mode q opts file =
     (let names = rel_names (ws_root w) file; rel = rel_string names in
      if \<not> is_ok (resolve_path fs w rel) then []
      else
        (if wants mode ''name'' \<and> contains (to_lower (base_name names)) (to_lower q)
         then [name_match ''name'' rel] else [])
        @ (if wants mode ''path'' \<and> contains (to_lower rel) (to_lower q) then [name_match ''path'' rel] else [])
        @ (if wants mode ''content''
           then content_matches rel q 0 (scan_lines scan_buffer (scanned_text fs w opts file)) else []))"

fun add_all :: "search_match list \<Rightarrow> int \<Rightarrow> search_result \<Rightarrow> search_result \<times> bool" where
  "add_all [] mx out = (out, True)"
| "add_all (m # ms) mx out =
     (case add_match m mx out of (out1, True) \<Rightarrow> add_all ms mx out1 | (out1, False) \<Rightarrow> (out1, False))"

lemma add_all_append:
  "add_all (ms @ ns) mx out =
     (case add_all ms mx out of (out1, True) \<Rightarrow> add_all ns mx out1 | (out1, False) \<Rightarrow> (out1, False))"
  by (induction ms arbitrary: out) (auto split: prod.splits bool.splits)

lemma match_lines_all:
  "match_lines rel q mx n ls out = (let (out', ok) = add_all (content_matches rel q n ls) mx out in (out', \<not> ok))"
  by (induction ls arbitrary: n out) (auto split: prod.splits bool.splits)

lemma add_when_all: "add_when b m mx out = add_all (if b then [m] else []) mx out"
  by (simp add: add_when_def split: prod.splits bool.splits)

lemma search_visit_file:
  assumes "nd \<noteq> Dir" "\<not> sr_truncated out"
  shows "search_visit fs w ex mode q opts file nd out =
    (let (out', ok) = add_all (file_matches fs w mode q opts file) (so_max_results opts) out
     in (out', if ok then Go_on else Skip_all))"
proof -
  let ?mx = "so_max_results opts"
  define names where "names = rel_names (ws_root w) file"
  define A where "A = (if wants mode ''name'' \<and> contains (to_lower (base_name names)) (to_lower q)
    then [name_match ''name'' (rel_string names)] else [])"
  define B where "B = (if wants mode ''path'' \<and> contains (to_lower (rel_string names)) (to_lower q)
    then [name_match ''path'' (rel_string names)] else [])"
  define C where "C = content_matches (rel_string names) q 0 (scan_lines scan_buffer (scanned_text fs w opts file))"
  have visit: "search_visit fs w ex mode q opts file nd out =
    (if \<not> is_ok (resolve_path fs w (rel_string names)) then (out, Go_on)
     else case add_all A ?mx out of (out1, False) \<Rightarrow> (out1, Skip_all)
      | (out1, True) \<Rightarrow> (case add_all B ?mx out1 of (out2, False) \<Rightarrow> (out2, Skip_all)
      | (out2, True) \<Rightarrow> if \<not> wants mode ''content'' then (out2, Go_on)
          else (case add_all C ?mx out2 of (out3, ok) \<Rightarrow> (out3, if \<not> ok then Skip_all else Go_on))))"
    using assms unfolding search_visit_def add_when_all search_file_content_def match_lines_all
    by (simp only: names_def A_def B_def C_def Let_def if_False split_def fst_conv snd_conv simp_thms)
  show ?thesis
  proof (cases "is_ok (resolve_path fs w (rel_string names))")
    case True
    then have "file_matches fs w mode q opts file = A @ B @ (if wants mode ''content'' then C else [])"
      unfolding file_matches_def A_def B_def C_def names_def by (simp only: Let_def simp_thms if_False)
    with True visit show ?thesis
      by (cases "wants mode ''content''")
        (simp_all add: add_all_append Let_def del: add_all.simps(2) split: prod.split bool.split)
  next
    case False
    then have "file_matches fs w mode q opts file = []"
      unfolding file_matches_def names_def by (simp only: Let_def simp_thms if_True)
    with False visit show ?thesis by simp
  qed
qed

definition hits_wf :: "int \<Rightarrow> search_result \<Rightarrow> bool" where
  "hits_wf mx out \<longleftrightarrow> distinct (map match_key (sr_matches out)) \<and> int (length (sr_matches out)) \<le> mx
     \<and> (sr_truncated out \<longrightarrow> int (length (sr_matches out)) = mx)"

lemma add_match_result:
  assumes "add_match m mx out = (out', ok)"
  shows "hits_wf mx out \<Longrightarrow> hits_wf mx out'" "set (sr_matches out) \<subseteq> set (sr_matches out')"
    "set (sr_matches out') \<subseteq> insert m (set (sr_matches out))"
    "ok \<Longrightarrow> match_key m \<in> match_key ` set (sr_matches out') \<and> sr_truncated out' = sr_truncated out"
    "\<not> ok \<Longrightarrow> sr_truncated out'"
proof -
  consider (dup) x where "x \<in> set (sr_matches out)" "match_key x = match_key m" "out' = out" "ok"
    | (full) "int (length (sr_matches out)) \<ge> mx" "out' = out\<lparr>sr_truncated := True\<rparr>" "\<not> ok"
    | (new) "match_key m \<notin> match_key ` set (sr_matches out)" "int (length (sr_matches out)) < mx"
        "out' = out\<lparr>sr_matches := sr_matches out @ [m]\<rparr>" "ok"
  proof (cases "list_ex (\<lambda>x. match_key x = match_key m) (sr_matches out)")
    case True
    then obtain x where "x \<in> set (sr_matches out)" "match_key x = match_key m" by (meson list_ex_iff)
    moreover have "out' = out" "ok" using True assms(1) by (simp_all add: add_match_def)
    ultimately show thesis using dup by blast
  next
    case False
    then have "match_key m \<notin> match_key ` set (sr_matches out)" by (force simp: list_ex_iff)
    with False assms(1) full new show thesis by (cases "int (length (sr_matches out)) \<ge> mx") (auto simp: add_match_def)
  qed
  then have "(hits_wf mx out \<longrightarrow> hits_wf mx out') \<and> set (sr_matches out) \<subseteq> set (sr_matches out')
    \<and> set (sr_matches out') \<subseteq> insert m (set (sr_matches out))
    \<and> (ok \<longrightarrow> match_key m \<in> match_key ` set (sr_matches out') \<and> sr_truncated out' = sr_truncated out)
    \<and> (\<not> ok \<longrightarrow> sr_truncated out')"
  proof cases
    case (dup x)
    then have "match_key m \<in> match_key ` set (sr_matches out)" by (metis imageI)
    with dup show ?thesis by auto
  qed (auto simp: hits_wf_def)
  then show "hits_wf mx out \<Longrightarrow> hits_wf mx out'" "set (sr_matches out) \<subseteq> set (sr_matches out')"
    "set (sr_matches out') \<subseteq> insert m (set (sr_matches out))"
    "ok \<Longrightarrow> match_key m \<in> match_key ` set (sr_matches out') \<and> sr_truncated out' = sr_truncated out"
    "\<not> ok \<Longrightarrow> sr_truncated out'" by simp_all
qed

lemma add_all_result:
  assumes "add_all ms mx out = (out', ok)"
  shows "(hits_wf mx out \<longrightarrow> hits_wf mx out') \<and> set (sr_matches out) \<subseteq> set (sr_matches out')
    \<and> set (sr_matches out') \<subseteq> set ms \<union> set (sr_matches out)
    \<and> (ok \<longrightarrow> match_key ` set ms \<subseteq> match_key ` set (sr_matches out')) \<and> (\<not> ok \<longrightarrow> sr_truncated out')"
  using assms
proof (induction ms arbitrary: out)
  case (Cons m ms)
  obtain out1 b where m: "add_match m mx out = (out1, b)" by fastforce
  note r = add_match_result [OF m]
  show ?case
  proof (cases b)
    case True
    with m Cons.prems have "add_all ms mx out1 = (out', ok)" by simp
    from Cons.IH [OF this] r True show ?thesis by auto
  next
    case False
    with m Cons.prems r show ?thesis by auto
  qed
qed simp

section \<open>The walk of the search\<close>

definition open_to_search :: "workspace \<Rightarrow> string list \<Rightarrow> path \<Rightarrow> bool" where
  "open_to_search w ex p \<longleftrightarrow> to_lower (base_name p) \<notin> set ex \<and> (p = ws_root w \<or> within_root (ws_root w) p)"

definition hits_good ::
  "fs \<Rightarrow> workspace \<Rightarrow> string list \<Rightarrow> string \<Rightarrow> string \<Rightarrow> search_options \<Rightarrow> search_result \<Rightarrow> bool" where
  "hits_good fs w ex mode q opts out \<longleftrightarrow> hits_wf (so_max_results opts) out
     \<and> (\<forall>m\<in>set (sr_matches out). \<exists>p. reached fs (open_to_search w ex) (ws_root w) p
          \<and> m \<in> set (file_matches fs w mode q opts p))"

definition hits_cover ::
  "fs \<Rightarrow> workspace \<Rightarrow> string \<Rightarrow> string \<Rightarrow> search_options \<Rightarrow> path \<Rightarrow> search_result \<Rightarrow> bool" where
  "hits_cover fs w mode q opts p out \<longleftrightarrow>
     match_key ` set (file_matches fs w mode q opts p) \<subseteq> match_key ` set (sr_matches out)"


lemma search_visit_cases:
  obtains (same) "search_visit fs w ex mode q opts p nd s =
      (s, if nd = Dir then (if open_to_search w ex p then Go_on else Skip_dir) else Skip_all)"
      "nd = Dir \<or> sr_truncated s"
  | (added) out' ok where "nd \<noteq> Dir" "\<not> sr_truncated s"
      "add_all (file_matches fs w mode q opts p) (so_max_results opts) s = (out', ok)"
      "search_visit fs w ex mode q opts p nd s = (out', if ok then Go_on else Skip_all)"
proof (cases "nd = Dir \<or> sr_truncated s")
  case True
  with same show thesis by (auto simp: search_visit_def open_to_search_def)
next
  case False
  obtain out' ok where a: "add_all (file_matches fs w mode q opts p) (so_max_results opts) s = (out', ok)"
    by fastforce
  with False added show thesis by (simp add: search_visit_file)
qed

interpretation search_walk: walker fs "search_visit fs w ex mode q opts" "open_to_search w ex" "ws_root w"
  "hits_good fs w ex mode q opts" "hits_cover fs w mode q opts" sr_truncated
  for fs w ex mode q opts
proof (unfold_locales, goal_cases)
  case (1 p nd s s' r)
  show ?case
  proof (cases rule: search_visit_cases [where fs = fs and w = w and ex = ex and mode = mode and q = q
        and opts = opts and p = p and nd = nd and s = s])
    case (added out' ok)
    with add_all_result [OF added(3)] 1 show ?thesis unfolding hits_good_def by auto
  qed (use 1 in simp)
next
  case (2 p nd s s' r qq)
  show ?case
  proof (cases rule: search_visit_cases [where fs = fs and w = w and ex = ex and mode = mode and q = q
        and opts = opts and p = p and nd = nd and s = s])
    case (added out' ok)
    with 2(1) have "s' = out'" by simp
    with add_all_result [OF added(3)] have "match_key ` set (sr_matches s) \<subseteq> match_key ` set (sr_matches s')"
      by blast
    with 2(2) show ?thesis unfolding hits_cover_def by blast
  qed (use 2 in simp)
next
  case (3 p nd s s')
  show ?case
  proof (cases rule: search_visit_cases [where fs = fs and w = w and ex = ex and mode = mode and q = q
        and opts = opts and p = p and nd = nd and s = s])
    case (added out' ok)
    with add_all_result [OF added(3)] 3 show ?thesis unfolding hits_cover_def by (auto split: if_splits)
  qed (use 3 in simp)
next
  case (4 p s s' r)
  then show ?case
    by (cases rule: search_visit_cases [where fs = fs and w = w and ex = ex and mode = mode and q = q
        and opts = opts and p = p and nd = Dir and s = s]) auto
next
  case (5 nd p s s')
  then show ?case
    by (cases rule: search_visit_cases [where fs = fs and w = w and ex = ex and mode = mode and q = q
        and opts = opts and p = p and nd = nd and s = s]) (auto split: if_splits)
next
  case (6 p nd s s')
  show ?case
  proof (cases rule: search_visit_cases [where fs = fs and w = w and ex = ex and mode = mode and q = q
        and opts = opts and p = p and nd = nd and s = s])
    case (added out' ok)
    with add_all_result [OF added(3)] 6 show ?thesis by (auto split: if_splits)
  qed (use 6 in \<open>auto split: if_splits\<close>)
qed

section \<open>What a search is to find\<close>

text \<open>
  The reference, without the walk, the scanner and the limits of the loop. A file is searched when it
  lies below the root and no directory on the way, the root included, has an excluded name.
\<close>

definition searched_file :: "fs \<Rightarrow> workspace \<Rightarrow> search_options \<Rightarrow> path \<Rightarrow> bool" where
  "searched_file fs w opts p \<longleftrightarrow>
     prefix (ws_root w) p \<and> (\<exists>nd. node_at fs p = Some nd \<and> nd \<noteq> Dir)
     \<and> (\<forall>q. prefix (ws_root w) q \<longrightarrow> strict_prefix q p \<longrightarrow> node_at fs q = Some Dir
          \<and> (q = ws_root w \<or> within_root (ws_root w) q)
          \<and> to_lower (base_name q) \<notin> set (map to_lower
               (case so_exclude opts of
                  None \<Rightarrow> [''.git'', ''target'', ''node_modules'', ''dist'', ''build'']
                | Some ds \<Rightarrow> ds)))"

text \<open>The text at a path: that of the file, or of the file inside the workspace that a link leads to.\<close>

definition held_text :: "fs \<Rightarrow> workspace \<Rightarrow> path \<Rightarrow> string option" where
  "held_text fs w p =
     (case lstat fs p of
        Inr (File d _) \<Rightarrow> Some d
      | Inr (Link _ _) \<Rightarrow>
          (case eval_symlinks fs p of
             Inl _ \<Rightarrow> None
           | Inr t \<Rightarrow>
               if within_root (ws_root w) t
               then (case read_content fs t of Inl _ \<Rightarrow> None | Inr d \<Rightarrow> Some d) else None)
      | _ \<Rightarrow> None)"

text \<open>
  The part of a text that is searched: nothing of a file that is longer than the limit on files or
  whose beginning (4096 bytes) is no UTF-8 or has a zero byte, otherwise the first bytes up to the
  limit on scanning, 512 KiB if none is given.
\<close>

definition scan_limit :: "search_options \<Rightarrow> nat" where
  "scan_limit opts = (if so_max_scan opts \<le> 0 then 524288 else nat (so_max_scan opts))"

definition searched_part :: "search_options \<Rightarrow> string \<Rightarrow> string" where
  "searched_part opts d =
     (let part = take (scan_limit opts) d in
      if 0 < so_max_bytes opts \<and> so_max_bytes opts < int (length d) then []
      else if \<not> utf8_valid (take 4096 part) \<or> CHR 0x00 \<in> set (take 4096 part) then []
      else part)"

text \<open>Its lines without carriage returns, up to the first that has a mebibyte or more, with their numbers.\<close>

definition numbered_lines :: "string \<Rightarrow> (nat \<times> string) list" where
  "numbered_lines d = enumerate 1 (map drop_cr (takeWhile (\<lambda>l. length l < 1048576) (split_lines d)))"

definition due_hits :: "fs \<Rightarrow> workspace \<Rightarrow> search_options \<Rightarrow> path \<Rightarrow> search_match list" where
  "due_hits fs w opts p =
     (let names = rel_names (ws_root w) p; rel = rel_string names; q = trim_space (so_query opts);
          asked = (\<lambda>kind. so_mode opts \<in> {[], ''all'', kind});
          hit = (\<lambda>kind n text. \<lparr>sm_path = rel, sm_kind = kind, sm_line = int n, sm_preview = take 200 text\<rparr>)
      in if \<not> is_ok (resolve_path fs w rel) then []
         else
           (if asked ''name'' \<and> contains (to_lower (base_name names)) (to_lower q) then [hit ''name'' 0 []] else [])
           @ (if asked ''path'' \<and> contains (to_lower rel) (to_lower q) then [hit ''path'' 0 []] else [])
           @ (if asked ''content''
              then [hit ''content'' n line. (n, line) \<leftarrow> numbered_lines (case held_text fs w p of
                        None \<Rightarrow> [] | Some d \<Rightarrow> searched_part opts d), contains line q]
              else []))"

definition allowed_hits :: "search_options \<Rightarrow> int" where
  "allowed_hits opts = (if so_max_results opts \<le> 0 then 200 else so_max_results opts)"

text \<open>The search scans what the reference says.\<close>

lemma index_byte_None: "index_byte s c = None \<longleftrightarrow> c \<notin> set s"
  by (induction s) auto

lemma index_byte_Some: "index_byte s c = Some i \<Longrightarrow> i < length s \<and> s ! i = c \<and> c \<notin> set (take i s)"
  by (induction s arbitrary: i) (auto split: if_splits)

lemma split_lines_Cons: "newline \<notin> set l \<Longrightarrow> split_lines (l @ newline # rest) = l # split_lines rest"
  by (simp add: split_lines_def split_on_append_sep Let_def)

lemma split_lines_single: "newline \<notin> set s \<Longrightarrow> s \<noteq> [] \<Longrightarrow> split_lines s = [s]"
  by (simp add: split_lines_def split_on_no_sep_id)

lemma scan_lines_spec:
  "scan_lines mx s = map drop_cr (takeWhile (\<lambda>l. int (length l) < mx) (split_lines s))"
proof (induction mx s rule: scan_lines.induct)
  case (1 mx s)
  show ?case
  proof (cases "s = []")
    case False
    show ?thesis
    proof (cases "index_byte (clip mx s) newline")
      case None
      then have cut: "newline \<notin> set (take (nat mx) s)" by (simp add: index_byte_None clip_take)
      show ?thesis
      proof (cases "int (length s) \<ge> mx")
        case True
        obtain l ls where l: "split_lines s = l # ls" "mx \<le> int (length l)"
        proof (cases "newline \<in> set s")
          case True
          then obtain l rest where "s = l @ newline # rest" "newline \<notin> set l" by (meson split_list_first)
          moreover from this cut have "nat mx \<le> length l" by (cases "nat mx \<le> length l") (auto simp: take_Cons')
          ultimately show thesis using that split_lines_Cons by auto
        next
          case False
          with True \<open>s \<noteq> []\<close> split_lines_single that show thesis by auto
        qed
        with None True False show ?thesis by (subst scan_lines.simps) simp
      next
        case short: False
        then have "take (nat mx) s = s" by simp
        with cut have "split_lines s = [s]" using split_lines_single False by simp
        with None short False show ?thesis by (subst scan_lines.simps) simp
      qed
    next
      case (Some i)
      from index_byte_Some [OF Some] have t: "i < length s" "i < nat mx" "take (nat mx) s ! i = newline"
        "newline \<notin> set (take i (take (nat mx) s))" by (simp_all add: clip_take del: take_take)
      moreover have "take i (take (nat mx) s) = take i s" using t(2) by simp
      ultimately have "int i < mx" "s ! i = newline" "newline \<notin> set (take i s)" by simp_all
      moreover have "s = take i s @ newline # drop (Suc i) s" using id_take_nth_drop [OF t(1)] \<open>s ! i = newline\<close> by simp
      ultimately have "split_lines s = take i s # split_lines (drop (Suc i) s)" "int (length (take i s)) < mx"
        using split_lines_Cons by (metis, simp add: t(1))
      with Some False "1.IH" [OF False Some] show ?thesis by (subst scan_lines.simps) simp
    qed
  qed (simp add: scan_lines.simps split_lines_def)
qed

lemma walk_no_link:
  "walk fs False n dest cs = Inr (q, Some nd) \<Longrightarrow> \<not> is_link nd \<Longrightarrow> walk fs True n dest cs = Inr (q, Some nd)"
  by (induction fs False n dest cs rule: walk.induct)
    (auto simp: Let_def split: if_splits option.splits node.splits nat.splits)

lemma lstat_file: "lstat fs p = Inr (File d m) \<Longrightarrow> read_content fs p = Inr d"
  using walk_no_link [of fs kernel_links "[]" p _ "File d m"]
  by (auto simp: lstat_def read_content_def stat_def split: if_splits sum.splits option.splits)

lemma scanned_text_spec:
  "scanned_text fs w (effective opts) p =
    (case held_text fs w p of None \<Rightarrow> [] | Some d \<Rightarrow> searched_part opts d)"
proof -
  let ?part = "\<lambda>d. if 0 < so_max_bytes opts \<and> so_max_bytes opts < int (length d) then [] else
      let limited = clip (so_max_scan (effective opts)) d; head = clip 4096 limited in
      if head = [] then [] else if \<not> utf8_valid head \<or> index_byte head (CHR 0x00) \<noteq> None then [] else limited"
  have part: "?part d = searched_part opts d" for d
    by (auto simp: searched_part_def scan_limit_def clip_take index_byte_None effective_def Let_def)
  have bytes: "so_max_bytes (effective opts) = so_max_bytes opts" by (simp add: effective_def)
  show ?thesis
  proof (cases "lstat fs p")
    case (Inr nd)
    show ?thesis
    proof (cases nd)
      case (File d m)
      with Inr lstat_file [of fs p d m] have "scanned_text fs w (effective opts) p = ?part d"
        by (simp add: scanned_text_def scan_target_def bytes)
      with Inr File part show ?thesis by (simp add: held_text_def)
    next
      case (Link ab t)
      show ?thesis
      proof (cases "eval_symlinks fs p")
        case e: (Inr q)
        show ?thesis
        proof (cases "within_root (ws_root w) q")
          case in_root: True
          show ?thesis
          proof (cases "\<exists>d m. stat fs q = Inr (File d m)")
            case True
            then obtain d m where st: "stat fs q = Inr (File d m)" by blast
            then have "read_content fs q = Inr d" by (simp add: read_content_def)
            moreover from this have "scanned_text fs w (effective opts) p = ?part d"
              using Inr Link e st in_root by (simp add: scanned_text_def scan_target_def bytes)
            ultimately show ?thesis using Inr Link e in_root part by (simp add: held_text_def)
          next
            case False
            then show ?thesis using Inr Link e in_root
              by (auto simp: scanned_text_def scan_target_def held_text_def read_content_def split: sum.split node.split)
          qed
        qed (use Inr Link e in \<open>simp add: scanned_text_def scan_target_def held_text_def\<close>)
      qed (use Inr Link in \<open>simp add: scanned_text_def scan_target_def held_text_def\<close>)
    qed (use Inr in \<open>simp add: scanned_text_def scan_target_def held_text_def\<close>)
  qed (simp add: scanned_text_def scan_target_def held_text_def)
qed

lemma content_matches_spec:
  "content_matches rel q (int n) ls =
    [\<lparr>sm_path = rel, sm_kind = ''content'', sm_line = int i, sm_preview = take 200 l\<rparr>. (i, l) \<leftarrow> enumerate (Suc n) ls, contains l q]"
proof (induction ls arbitrary: n)
  case (Cons l ls)
  from Cons.IH [of "Suc n"] show ?case by (simp add: preview_of_def clip_take add.commute)
qed simp

lemma due_hits_matches:
  "file_matches fs w (if so_mode opts = [] then ''all'' else so_mode opts) (trim_space (so_query opts))
      (effective opts) p = due_hits fs w opts p"
proof -
  let ?mode = "if so_mode opts = [] then ''all'' else so_mode opts"
  have asked: "wants ?mode ''name'' \<longleftrightarrow> so_mode opts \<in> {[], ''all'', ''name''}"
    "wants ?mode ''path'' \<longleftrightarrow> so_mode opts \<in> {[], ''all'', ''path''}"
    "wants ?mode ''content'' \<longleftrightarrow> so_mode opts \<in> {[], ''all'', ''content''}"
    by (auto simp: wants_def)
  have lines: "content_matches rel q 0 (scan_lines scan_buffer t) =
      [\<lparr>sm_path = rel, sm_kind = ''content'', sm_line = int i, sm_preview = take 200 l\<rparr>. (i, l) \<leftarrow> numbered_lines t, contains l q]" for rel q t
    using content_matches_spec [of rel q 0 "scan_lines scan_buffer t"]
    by (simp add: scan_lines_spec numbered_lines_def scan_buffer_def)
  show ?thesis
    unfolding file_matches_def due_hits_def name_match_def scanned_text_spec Let_def asked lines
    unfolding take_Nil int_ops(1) by (rule refl)
qed

lemma searched_file_reached:
  "searched_file fs w opts p \<longleftrightarrow> reached fs (open_to_search w (excluded_names opts)) (ws_root w) p"
proof -
  have "set (map to_lower (case so_exclude opts of
      None \<Rightarrow> [''.git'', ''target'', ''node_modules'', ''dist'', ''build''] | Some ds \<Rightarrow> ds)) = set (excluded_names opts)"
    unfolding excluded_names_def default_exclude_dirs_def by (rule refl)
  then show ?thesis unfolding searched_file_def reached_def open_to_search_def by simp blast
qed

section \<open>Properties\<close>

lemma excluded_effective: "excluded_names (effective opts) = excluded_names opts"
  by (simp add: excluded_names_def effective_def)

lemma effective_max: "so_max_results (effective opts) = allowed_hits opts" "0 < allowed_hits opts"
  by (simp_all add: effective_def allowed_hits_def)

text \<open>
  C35. A search answers at most \<open>MaxResults\<close> (200 if none is given) hits with different path, kind and
  line, each one a due hit of a file of the workspace that lies in no excluded directory; unless it says
  that the result is truncated it has found every due hit of every such file, and when it says so it has
  exactly as many as allowed. Due are the name and the path of a file that contain the query up to letter
  case, and the lines that contain it in the part of the file that is searched: only the first
  \<open>MaxContentScan\<close> bytes (512 KiB if none is given), up to a line of a mebibyte, and nothing of a file
  longer than \<open>MaxFileBytes\<close> or that does not begin as text. What lies beyond these limits is not
  found and does not make the answer truncated.
\<close>

theorem search_exact:
  assumes "canonical_root fs (ws_root w)" "search fs w opts = Inr out"
  shows "distinct (map match_key (sr_matches out))
    \<and> int (length (sr_matches out)) \<le> allowed_hits opts
    \<and> (\<forall>m\<in>set (sr_matches out). \<exists>p. searched_file fs w opts p \<and> m \<in> set (due_hits fs w opts p))
    \<and> (if sr_truncated out then int (length (sr_matches out)) = allowed_hits opts
       else \<forall>p. searched_file fs w opts p \<longrightarrow>
              match_key ` set (due_hits fs w opts p) \<subseteq> match_key ` set (sr_matches out))"
proof -
  let ?w = "ws_root w" and ?o = "effective opts"
  let ?mode = "if so_mode opts = [] then ''all'' else so_mode opts" and ?q = "trim_space (so_query opts)"
  let ?fn = "search_visit fs w (excluded_names ?o) ?mode ?q ?o"
  let ?s = "\<lparr>sr_query = ?q, sr_mode = ?mode, sr_matches = [], sr_truncated = False\<rparr>"
  have root: "node_at fs ?w = Some Dir" "lstat fs ?w = Inr Dir"
    using assms(1) walk_real [of fs "[]" ?w False kernel_links] by (auto simp: canonical_root_def lstat_def)
  have out: "out = fst (walk_tree fs ?fn ?w Dir ?s)"
    using assms(2) root(2) by (auto simp: search_def walk_dir_def Let_def split: if_splits)
  note due = due_hits_matches [of fs w opts]
  have way: "search_walk.on_way fs w (excluded_names ?o) ?w"
    by (auto simp: search_walk.on_way_def strict_prefix_def)
  have "hits_good fs w (excluded_names ?o) ?mode ?q ?o ?s"
    using effective_max [of opts] by (simp add: hits_good_def hits_wf_def)
  with search_walk.walk_keeps(1) way root(1) have good: "hits_good fs w (excluded_names ?o) ?mode ?q ?o out"
    unfolding out by blast
  have cover: "hits_cover fs w ?mode ?q ?o p out" if "\<not> sr_truncated out" "searched_file fs w opts p" for p
    using that search_walk.walk_outcome(1) [of fs w "excluded_names ?o" ?mode ?q ?o ?w Dir ?s]
      search_walk.walk_complete(1) [of fs w "excluded_names ?o" ?mode ?q ?o ?w Dir ?s p] root(1)
    unfolding out searched_file_reached excluded_effective
    by (cases "snd (walk_tree fs ?fn ?w Dir ?s)") (auto simp: excluded_effective)
  from good cover show ?thesis
    unfolding hits_good_def hits_wf_def hits_cover_def due effective_max(1) excluded_effective searched_file_reached [symmetric]
    by auto
qed

definition demo_search :: search_options where
  "demo_search = (default_search_options ''hi'' [])\<lparr>so_max_results := 5\<rparr>"

theorem search_exact_witness:
  "\<exists>out. search demo_fs demo_ws demo_search = Inr out
    \<and> map match_key (sr_matches out) = [(''a/f'', ''content'', 1)] \<and> \<not> sr_truncated out
    \<and> distinct (map match_key (sr_matches out))"
proof -
  have root: "canonical_root demo_fs (ws_root demo_ws)"
  proof -
    have "stat demo_fs [''w''] = Inr Dir" "eval_symlinks demo_fs [''w''] = Inr [''w'']" by code_simp+
    from canonical_eval [OF demo_fs_wf this] show ?thesis by (simp add: demo_ws_def)
  qed
  have "case search demo_fs demo_ws demo_search of Inl _ \<Rightarrow> False | Inr out \<Rightarrow>
      map match_key (sr_matches out) = [(''a/f'', ''content'', 1)] \<and> \<not> sr_truncated out"
    by code_simp
  then obtain out where "search demo_fs demo_ws demo_search = Inr out"
    "map match_key (sr_matches out) = [(''a/f'', ''content'', 1)]" "\<not> sr_truncated out"
    by (auto split: sum.splits)
  with search_exact [OF root] show ?thesis by meson
qed

text \<open>
  The limits are silent: with a limit of one byte on the scan the line is not found, with one byte on
  the size of files neither, and in both cases the answer is not marked as truncated.
\<close>

lemma search_limits_silent:
  "case search demo_fs demo_ws (demo_search\<lparr>so_max_scan := 1\<rparr>) of Inl _ \<Rightarrow> False | Inr out \<Rightarrow>
     sr_matches out = [] \<and> \<not> sr_truncated out"
  "case search demo_fs demo_ws (demo_search\<lparr>so_max_bytes := 1\<rparr>) of Inl _ \<Rightarrow> False | Inr out \<Rightarrow>
     sr_matches out = [] \<and> \<not> sr_truncated out"
  by code_simp+

text \<open>
  A workspace whose own directory has an excluded name (a project in \<open>build\<close> or \<open>target\<close>) is not
  searched at all: the answer is empty and not marked as truncated.
\<close>

lemma search_excluded_root:
  assumes "canonical_root fs (ws_root w)" "search fs w opts = Inr out"
    and "to_lower (base_name (ws_root w)) \<in> set (excluded_names opts)"
  shows "sr_matches out = [] \<and> \<not> sr_truncated out"
proof -
  have "lstat fs (ws_root w) = Inr Dir"
    using assms(1) walk_real [of fs "[]" "ws_root w" False kernel_links]
    by (auto simp: canonical_root_def lstat_def)
  with assms(2,3) show ?thesis
    by (auto simp: search_def walk_dir_def Let_def search_visit_def excluded_effective split: if_splits)
qed

end
