(* ===== verification/Workspace_Propose.thy ===== *)
theory Workspace_Propose
  imports Workspace_Read Protocol_Messages
begin

text \<open>
  \<open>local-agent/internal/workspace/propose.go\<close>: proposals, their store and the computation of a
  proposal from a change set. The planned end state is a Go map, here an association list
  updated in the order of the loop. The store hands out copies, so a lookup is the record.
\<close>

section \<open>Proposals\<close>

datatype planned_file = Planned (plan_delete: bool) (plan_content: string)

type_synonym plan = "(string \<times> planned_file) list"

record proposal =
  prop_change_set :: change_set
  prop_diff :: actual_diff
  prop_base_revision :: int
  prop_created_at :: int
  prop_planned :: plan
  prop_applied :: bool
  prop_applying :: bool

section \<open>The store\<close>

type_synonym proposal_store = "(string \<times> proposal) list"

definition new_proposal_store :: proposal_store where
  "new_proposal_store = []"

definition put_proposal :: "proposal \<Rightarrow> proposal_store \<Rightarrow> proposal_store" where
  "put_proposal p st = AList.update (cs_id (prop_change_set p)) p st"

definition get_proposal :: "proposal_store \<Rightarrow> string \<Rightarrow> proposal option" where
  "get_proposal st i = map_of st i"

definition mark_applied :: "proposal_store \<Rightarrow> string \<Rightarrow> proposal_store \<times> go_error option" where
  "mark_applied st i =
     (case map_of st i of
        None \<Rightarrow> (st, Some (must_err ChangeSetNotFound ''change set not found''))
      | Some p \<Rightarrow>
          if prop_applied p then (st, Some (must_err InvalidChangeSet ''change set already applied''))
          else (AList.update i (p\<lparr>prop_applied := True, prop_applying := False\<rparr>) st, None))"

definition claim_for_apply :: "proposal_store \<Rightarrow> string \<Rightarrow> proposal_store \<times> (go_error + proposal)" where
  "claim_for_apply st i =
     (case map_of st i of
        None \<Rightarrow> (st, Inl (must_err ChangeSetNotFound ''change set not found''))
      | Some p \<Rightarrow>
          if prop_applied p then (st, Inl (must_err InvalidChangeSet ''change set already applied''))
          else if prop_applying p
          then (st, Inl (must_err InvalidChangeSet ''change set apply already in progress''))
          else
            let p' = p\<lparr>prop_applying := True\<rparr> in (AList.update i p' st, Inr p'))"

definition abort_apply :: "proposal_store \<Rightarrow> string \<Rightarrow> proposal_store" where
  "abort_apply st i =
     (case map_of st i of
        None \<Rightarrow> st
      | Some p \<Rightarrow> if prop_applied p then st else AList.update i (p\<lparr>prop_applying := False\<rparr>) st)"

definition finish_apply :: "proposal_store \<Rightarrow> string \<Rightarrow> proposal_store \<times> go_error option" where
  "finish_apply st i = mark_applied st i"

interpretation go_map: keyed_store AList.update map_of
  by unfold_locales (simp add: update_conv')

section \<open>Conflicts between changes\<close>

text \<open>The first loop: the paths and rename targets seen so far.\<close>

fun conflict_scan ::
  "(string \<times> string) list \<Rightarrow> string list \<Rightarrow> file_change list \<Rightarrow> go_error + string list" where
  "conflict_scan seen_path seen_target [] = Inr seen_target"
| "conflict_scan seen_path seen_target (ch # cs) =
     (let p = clean (fc_path ch) in
      case map_of seen_path p of
        Some prev \<Rightarrow>
          Inl (must_err InvalidChangeSet
            (''duplicate path '' @ p @ '' ('' @ prev @ '' and '' @ fc_operation ch @ '')''))
      | None \<Rightarrow>
          let seen_path = AList.update p (fc_operation ch) seen_path in
          if fc_operation ch = op_rename then
            (let t = clean (fc_target ch) in
             if t = p then Inl (must_err InvalidChangeSet ''RENAME target_path must differ from path'')
             else if t \<in> set seen_target
             then Inl (must_err InvalidChangeSet (''duplicate target_path '' @ t))
             else if map_of seen_path t \<noteq> None
             then Inl (must_err InvalidChangeSet
                    (''target_path conflicts with another change path '' @ t))
             else conflict_scan seen_path (seen_target @ [t]) cs)
          else conflict_scan seen_path seen_target cs)"

definition create_conflict :: "string list \<Rightarrow> file_change \<Rightarrow> bool" where
  "create_conflict targets ch \<longleftrightarrow> fc_operation ch = op_create \<and> clean (fc_path ch) \<in> set targets"

definition validate_change_conflicts :: "file_change list \<Rightarrow> go_error option" where
  "validate_change_conflicts changes =
     (case conflict_scan [] [] changes of
        Inl e \<Rightarrow> Some e
      | Inr targets \<Rightarrow>
          (case find (create_conflict targets) changes of
             None \<Rightarrow> None
           | Some ch \<Rightarrow>
               Some (must_err InvalidChangeSet
                 (''CREATE path conflicts with RENAME target '' @ clean (fc_path ch)))))"

section \<open>Reading for a change\<close>

definition exists_file :: "fs \<Rightarrow> workspace \<Rightarrow> string \<Rightarrow> bool" where
  "exists_file fs w rel =
     (case resolve_path fs w rel of
        Inl _ \<Rightarrow> False
      | Inr file \<Rightarrow>
          (case lstat fs file of
             Inl _ \<Rightarrow> False
           | Inr fi \<Rightarrow>
               if is_link fi then
                 (case eval_symlinks fs file of
                    Inl _ \<Rightarrow> False
                  | Inr target \<Rightarrow>
                      if \<not> within_root (ws_root w) target then False
                      else case stat fs target of Inl _ \<Rightarrow> False | Inr fi \<Rightarrow> fi \<noteq> Dir)
               else fi \<noteq> Dir))"

definition read_existing_for_change ::
  "fs \<Rightarrow> workspace \<Rightarrow> string \<Rightarrow> string \<Rightarrow> int \<Rightarrow> go_error + string" where
  "read_existing_for_change fs w rel base_hash max_bytes =
     (case read_text_file fs w rel max_bytes of
        Inl e \<Rightarrow> Inl e
      | Inr res \<Rightarrow>
          if base_hash \<noteq> [] \<and> read_hash res \<noteq> base_hash
          then Inl (must_err FileHashMismatch (''base_hash mismatch for '' @ rel))
          else Inr (read_text res))"

section \<open>Propose\<close>

type_synonym file_diff = "string \<times> string"

definition propose_change ::
  "fs \<Rightarrow> workspace \<Rightarrow> int \<Rightarrow> file_change \<Rightarrow> file_diff list \<times> plan \<Rightarrow> go_error + file_diff list \<times> plan" where
  "propose_change fs w max_bytes ch acc =
     (case acc of (parts, planned) \<Rightarrow>
      let path = clean (fc_path ch) in
      if fc_operation ch = op_create then
        (case resolve_path fs w path of
           Inl e \<Rightarrow> Inl e
         | Inr _ \<Rightarrow>
             if exists_file fs w path
             then Inl (must_err InvalidChangeSet (''CREATE path already exists: '' @ path))
             else Inr (parts @ [(path, unified_file path [] (fc_content ch))],
                       AList.update path (Planned False (fc_content ch)) planned))
      else if fc_operation ch = op_modify then
        (case read_existing_for_change fs w path (fc_base_hash ch) max_bytes of
           Inl e \<Rightarrow> Inl e
         | Inr old \<Rightarrow>
             Inr (parts @ [(path, unified_file path old (fc_content ch))],
                  AList.update path (Planned False (fc_content ch)) planned))
      else if fc_operation ch = op_delete then
        (case read_existing_for_change fs w path (fc_base_hash ch) max_bytes of
           Inl e \<Rightarrow> Inl e
         | Inr old \<Rightarrow>
             Inr (parts @ [(path, unified_file path old [])],
                  AList.update path (Planned True []) planned))
      else if fc_operation ch = op_rename then
        (let target = clean (fc_target ch) in
         case resolve_path fs w target of
           Inl e \<Rightarrow> Inl e
         | Inr _ \<Rightarrow>
             if exists_file fs w target
             then Inl (must_err InvalidChangeSet (''RENAME target already exists: '' @ target))
             else case read_existing_for_change fs w path (fc_base_hash ch) max_bytes of
               Inl e \<Rightarrow> Inl e
             | Inr old \<Rightarrow>
                 let new_content = (if fc_content ch = [] then old else fc_content ch) in
                 Inr (parts @ [(path, unified_file path old []),
                               (target, unified_file target [] new_content)],
                      AList.update target (Planned False new_content)
                        (AList.update path (Planned True []) planned)))
      else Inl (must_err InvalidChangeSet ''invalid operation''))"

fun propose_changes ::
  "fs \<Rightarrow> workspace \<Rightarrow> int \<Rightarrow> file_change list \<Rightarrow> file_diff list \<times> plan \<Rightarrow> go_error + file_diff list \<times> plan" where
  "propose_changes fs w max_bytes [] acc = Inr acc"
| "propose_changes fs w max_bytes (ch # cs) acc =
     (case propose_change fs w max_bytes ch acc of
        Inl e \<Rightarrow> Inl e
      | Inr acc \<Rightarrow> propose_changes fs w max_bytes cs acc)"

definition check_base_revision :: "workspace \<Rightarrow> string \<Rightarrow> go_error option" where
  "check_base_revision w base =
     (if base = [] then None
      else case parse_int base of
        None \<Rightarrow> Some (must_err InvalidArgument ''invalid base_workspace_revision'')
      | Some want \<Rightarrow>
          if want \<noteq> ws_revision w
          then Some (must_err WorkspaceStale
                 (''workspace revision '' @ itoa (ws_revision w) @ '' != base '' @ itoa want))
          else None)"

definition propose :: "fs \<Rightarrow> int \<Rightarrow> workspace \<Rightarrow> change_set \<Rightarrow> int \<Rightarrow> go_error + proposal" where
  "propose fs now w cs0 max_bytes =
     (case validate_change_set cs0 of
        Some err \<Rightarrow> Inl (must_err InvalidChangeSet err)
      | None \<Rightarrow>
      if cs_workspace cs0 \<noteq> [] \<and> cs_workspace cs0 \<noteq> ws_id w
      then Inl (must_err InvalidArgument ''workspace_id mismatch'')
      else
        let cs = cs0\<lparr>cs_workspace := ws_id w\<rparr> in
        case check_base_revision w (cs_base_revision cs) of
          Some e \<Rightarrow> Inl e
        | None \<Rightarrow>
        (case validate_change_conflicts (cs_changes cs) of
           Some e \<Rightarrow> Inl e
         | None \<Rightarrow>
         (case propose_changes fs w max_bytes (cs_changes cs) ([], []) of
            Inl e \<Rightarrow> Inl e
          | Inr (parts, planned) \<Rightarrow>
              let diff_text = unified_join (map snd (sort_key fst parts)) in
              Inr \<lparr>prop_change_set = cs,
                   prop_diff = \<lparr>ad_change_set = cs_id cs, ad_diff = diff_text,
                                ad_hash = hash_bytes diff_text, ad_workspace = ws_id w\<rparr>,
                   prop_base_revision = ws_revision w, prop_created_at = now,
                   prop_planned = planned, prop_applied = False, prop_applying = False\<rparr>)))"

section \<open>One change at a time\<close>

text \<open>
  What a change contributes to the proposal, without the accumulators of the loop: its diff
  parts and its planned files.
\<close>

definition change_keys :: "file_change \<Rightarrow> string list" where
  "change_keys ch =
     clean (fc_path ch) # (if fc_operation ch = op_rename then [clean (fc_target ch)] else [])"

definition change_result ::
  "fs \<Rightarrow> workspace \<Rightarrow> int \<Rightarrow> file_change \<Rightarrow> go_error + file_diff list \<times> plan" where
  "change_result fs w m ch = propose_change fs w m ch ([], [])"

definition ok_parts :: "go_error + file_diff list \<times> plan \<Rightarrow> file_diff list" where
  "ok_parts r = (case r of Inr (ps, _) \<Rightarrow> ps | Inl _ \<Rightarrow> [])"

definition ok_plan :: "go_error + file_diff list \<times> plan \<Rightarrow> plan" where
  "ok_plan r = (case r of Inr (_, pl) \<Rightarrow> pl | Inl _ \<Rightarrow> [])"

definition update_all :: "plan \<Rightarrow> plan \<Rightarrow> plan" where
  "update_all effs planned = fold (\<lambda>(k, v). AList.update k v) effs planned"

lemma op_distinct [simp]:
  "op_create \<noteq> op_modify" "op_create \<noteq> op_delete" "op_create \<noteq> op_rename"
  "op_modify \<noteq> op_create" "op_modify \<noteq> op_delete" "op_modify \<noteq> op_rename"
  "op_delete \<noteq> op_create" "op_delete \<noteq> op_modify" "op_delete \<noteq> op_rename"
  "op_rename \<noteq> op_create" "op_rename \<noteq> op_modify" "op_rename \<noteq> op_delete"
  by (simp_all add: op_defs)

lemma read_implies_exists:
  "read_text_file fs w rel m = Inr res \<Longrightarrow> exists_file fs w rel"
  by (auto simp: read_text_file_def exists_file_def follow_target_def Let_def
      split: sum.splits if_splits)

lemma read_existing_exists:
  "read_existing_for_change fs w rel h m = Inr d \<Longrightarrow> exists_file fs w rel"
  by (auto simp: read_existing_for_change_def read_implies_exists split: sum.splits)

text \<open>The cases of a change that is accepted.\<close>

lemma change_result_cases [consumes 1, case_names create modify delete rename]:
  assumes "change_result fs w m ch = Inr (ps, pl)"
  obtains
    q where "fc_operation ch = op_create" "resolve_path fs w (clean (fc_path ch)) = Inr q"
      "\<not> exists_file fs w (clean (fc_path ch))"
      "ps = [(clean (fc_path ch), unified_file (clean (fc_path ch)) [] (fc_content ch))]"
      "pl = [(clean (fc_path ch), Planned False (fc_content ch))]"
  | old where "fc_operation ch = op_modify"
      "read_existing_for_change fs w (clean (fc_path ch)) (fc_base_hash ch) m = Inr old"
      "ps = [(clean (fc_path ch), unified_file (clean (fc_path ch)) old (fc_content ch))]"
      "pl = [(clean (fc_path ch), Planned False (fc_content ch))]"
  | old where "fc_operation ch = op_delete"
      "read_existing_for_change fs w (clean (fc_path ch)) (fc_base_hash ch) m = Inr old"
      "ps = [(clean (fc_path ch), unified_file (clean (fc_path ch)) old [])]"
      "pl = [(clean (fc_path ch), Planned True [])]"
  | old q where "fc_operation ch = op_rename"
      "read_existing_for_change fs w (clean (fc_path ch)) (fc_base_hash ch) m = Inr old"
      "resolve_path fs w (clean (fc_target ch)) = Inr q" "\<not> exists_file fs w (clean (fc_target ch))"
      "clean (fc_path ch) \<noteq> clean (fc_target ch)"
      "ps = [(clean (fc_path ch), unified_file (clean (fc_path ch)) old []),
        (clean (fc_target ch), unified_file (clean (fc_target ch)) []
           (if fc_content ch = [] then old else fc_content ch))]"
      "pl = [(clean (fc_path ch), Planned True []),
        (clean (fc_target ch), Planned False (if fc_content ch = [] then old else fc_content ch))]"
proof -
  let ?p = "clean (fc_path ch)" and ?t = "clean (fc_target ch)"
  consider "fc_operation ch = op_create" | "fc_operation ch = op_modify" | "fc_operation ch = op_delete"
    | "fc_operation ch = op_rename"
    using assms by (auto simp: change_result_def propose_change_def Let_def split: if_splits)
  then show thesis
  proof cases
    case 4
    then obtain old q where old: "read_existing_for_change fs w ?p (fc_base_hash ch) m = Inr old"
      "\<not> exists_file fs w ?t" "resolve_path fs w ?t = Inr q"
      using assms by (auto simp: change_result_def propose_change_def Let_def split: sum.splits if_splits)
    then have "?p \<noteq> ?t" using read_existing_exists by metis
    with 4 assms old show thesis
      by (intro that(4) [of old q])
        (auto simp: change_result_def propose_change_def Let_def split: sum.splits if_splits)
  qed (use assms that in
      \<open>auto simp: change_result_def propose_change_def Let_def split: sum.splits if_splits\<close>)
qed

lemma change_result_keys:
  "change_result fs w m ch = Inr (ps, pl) \<Longrightarrow> map fst ps = change_keys ch \<and> map fst pl = change_keys ch"
  by (cases rule: change_result_cases) (auto simp: change_keys_def)

lemma propose_change_result:
  "propose_change fs w m ch (parts, planned) =
     (case change_result fs w m ch of
        Inl e \<Rightarrow> Inl e
      | Inr (ps, pl) \<Rightarrow> Inr (parts @ ps, update_all pl planned))"
proof (cases "change_result fs w m ch")
  case (Inl e)
  then show ?thesis
    by (auto simp: change_result_def propose_change_def Let_def split: sum.splits if_splits)
next
  case (Inr r)
  then obtain ps pl where eq: "change_result fs w m ch = Inr (ps, pl)" by (cases r) auto
  then show ?thesis
    by (cases rule: change_result_cases) (auto simp: eq propose_change_def update_all_def Let_def)
qed

lemma propose_changes_Inr:
  "propose_changes fs w m cs (parts, planned) = Inr (parts', planned') \<longleftrightarrow>
     (\<forall>ch\<in>set cs. is_ok (change_result fs w m ch))
     \<and> parts' = parts @ concat (map (\<lambda>ch. ok_parts (change_result fs w m ch)) cs)
     \<and> planned' = update_all (concat (map (\<lambda>ch. ok_plan (change_result fs w m ch)) cs)) planned"
proof (induction cs arbitrary: parts planned)
  case (Cons ch cs)
  show ?case
  proof (cases "change_result fs w m ch")
    case (Inr r)
    then show ?thesis
      by (cases r) (simp add: propose_change_result Cons.IH ok_parts_def ok_plan_def update_all_def)
  qed (simp add: propose_change_result)
qed (auto simp: update_all_def)

section \<open>No path is planned twice\<close>

definition paths_of :: "file_change list \<Rightarrow> string list" where
  "paths_of cs = map (\<lambda>c. clean (fc_path c)) cs"

definition targets_of :: "file_change list \<Rightarrow> string list" where
  "targets_of cs = map (\<lambda>c. clean (fc_target c)) (filter (\<lambda>c. fc_operation c = op_rename) cs)"

lemma conflict_scan_Inr:
  "conflict_scan sp st cs = Inr ts \<Longrightarrow> distinct st \<Longrightarrow>
     ts = st @ targets_of cs \<and> distinct ts \<and> distinct (paths_of cs)
     \<and> set (paths_of cs) \<inter> fst ` set sp = {}"
proof (induction cs arbitrary: sp st)
  case (Cons ch cs)
  let ?p = "clean (fc_path ch)" and ?sp = "AList.update (clean (fc_path ch)) (fc_operation ch) sp"
  have fresh: "?p \<notin> fst ` set sp"
    using Cons.prems(1) by (auto simp: Let_def map_of_None_iff [symmetric] split: option.splits)
  show ?case
  proof (cases "fc_operation ch = op_rename")
    case True
    then have "conflict_scan ?sp (st @ [clean (fc_target ch)]) cs = Inr ts" "clean (fc_target ch) \<notin> set st"
      using Cons.prems(1) by (auto simp: Let_def split: option.splits if_splits)
    with Cons.IH [of ?sp "st @ [clean (fc_target ch)]"] Cons.prems(2)
    have "ts = (st @ [clean (fc_target ch)]) @ targets_of cs" "distinct ts" "distinct (paths_of cs)"
      "set (paths_of cs) \<inter> fst ` set ?sp = {}"
      by auto
    moreover have "targets_of (ch # cs) = clean (fc_target ch) # targets_of cs"
      using True by (simp add: targets_of_def)
    ultimately show ?thesis using fresh by (auto simp: paths_of_def keys_update)
  next
    case False
    then have "conflict_scan ?sp st cs = Inr ts"
      using Cons.prems(1) by (auto simp: Let_def split: option.splits)
    with Cons.IH [of ?sp st] Cons.prems(2)
    have "ts = st @ targets_of cs" "distinct ts" "distinct (paths_of cs)"
      "set (paths_of cs) \<inter> fst ` set ?sp = {}"
      by auto
    moreover have "targets_of (ch # cs) = targets_of cs"
      using False by (simp add: targets_of_def)
    ultimately show ?thesis using fresh by (auto simp: paths_of_def keys_update)
  qed
qed (simp add: targets_of_def paths_of_def)

lemma distinct_change_keys:
  "distinct (paths_of cs) \<Longrightarrow> distinct (targets_of cs) \<Longrightarrow> set (paths_of cs) \<inter> set (targets_of cs) = {} \<Longrightarrow>
    distinct (concat (map change_keys cs))"
proof (induction cs)
  case (Cons ch cs)
  have keys: "set (concat (map change_keys cs)) = set (paths_of cs) \<union> set (targets_of cs)"
    by (auto simp: change_keys_def paths_of_def targets_of_def split: if_splits)
  from Cons show ?case
    by (auto simp: keys [simplified] change_keys_def paths_of_def targets_of_def split: if_splits)
qed simp

text \<open>The facts a successful proposal rests on.\<close>

definition result_parts :: "fs \<Rightarrow> workspace \<Rightarrow> int \<Rightarrow> file_change list \<Rightarrow> file_diff list" where
  "result_parts fs w m cs = concat (map (\<lambda>ch. ok_parts (change_result fs w m ch)) cs)"

definition result_plan :: "fs \<Rightarrow> workspace \<Rightarrow> int \<Rightarrow> file_change list \<Rightarrow> plan" where
  "result_plan fs w m cs = concat (map (\<lambda>ch. ok_plan (change_result fs w m ch)) cs)"

lemma propose_Inr:
  assumes "propose fs now w cs m = Inr p"
  shows "validate_change_set cs = None" "cs_workspace cs \<in> {[], ws_id w}"
    "check_base_revision w (cs_base_revision cs) = None"
    "validate_change_conflicts (cs_changes cs) = None"
    "\<forall>ch\<in>set (cs_changes cs). is_ok (change_result fs w m ch)"
    "prop_change_set p = cs\<lparr>cs_workspace := ws_id w\<rparr>"
    "prop_planned p = update_all (result_plan fs w m (cs_changes cs)) []"
    "prop_diff p = (let t = unified_join (map snd (sort_key fst (result_parts fs w m (cs_changes cs))))
      in \<lparr>ad_change_set = cs_id cs, ad_diff = t, ad_hash = hash_bytes t, ad_workspace = ws_id w\<rparr>)"
    "prop_base_revision p = ws_revision w" "\<not> prop_applied p" "\<not> prop_applying p"
  using assms
  by (auto simp: propose_def propose_changes_Inr result_plan_def result_parts_def Let_def
      split: option.splits sum.splits if_splits)

lemma proposeI:
  assumes "validate_change_set cs = None" "cs_workspace cs \<in> {[], ws_id w}"
    "check_base_revision w (cs_base_revision cs) = None"
    "validate_change_conflicts (cs_changes cs) = None"
    "\<forall>ch\<in>set (cs_changes cs). is_ok (change_result fs w m ch)"
  shows "\<exists>p. propose fs now w cs m = Inr p"
proof -
  have "propose_changes fs w m (cs_changes cs) ([], []) =
      Inr (result_parts fs w m (cs_changes cs), update_all (result_plan fs w m (cs_changes cs)) [])"
    using assms(5) by (simp add: propose_changes_Inr result_plan_def result_parts_def)
  with assms(1-4) show ?thesis by (auto simp: propose_def Let_def)
qed

lemma result_keys:
  "\<forall>ch\<in>set cs. is_ok (change_result fs w m ch) \<Longrightarrow>
    map fst (result_parts fs w m cs) = concat (map change_keys cs)
    \<and> map fst (result_plan fs w m cs) = concat (map change_keys cs)"
proof (induction cs)
  case (Cons ch cs)
  then obtain ps pl where r: "change_result fs w m ch = Inr (ps, pl)"
    by (cases "change_result fs w m ch") auto
  with Cons change_result_keys [OF r] show ?case
    by (simp add: result_parts_def result_plan_def ok_parts_def ok_plan_def)
qed (simp add: result_parts_def result_plan_def)

lemma accepted_change:
  assumes "\<forall>ch\<in>set cs. is_ok (change_result fs w m ch)" "ch \<in> set cs"
  obtains ps pl where "change_result fs w m ch = Inr (ps, pl)"
  using assms by (cases "change_result fs w m ch") auto

lemma accepted_keys_distinct:
  assumes conf: "validate_change_conflicts cs = None"
    and ok: "\<forall>ch\<in>set cs. is_ok (change_result fs w m ch)"
  shows "distinct (concat (map change_keys cs))"
proof -
  obtain ts where ts: "conflict_scan [] [] cs = Inr ts" and none: "find (create_conflict ts) cs = None"
    using conf by (auto simp: validate_change_conflicts_def split: sum.splits option.splits)
  from conflict_scan_Inr [OF ts] have scan: "ts = targets_of cs" "distinct ts" "distinct (paths_of cs)"
    by auto
  have "clean (fc_path c) \<noteq> clean (fc_target d)"
    if c: "c \<in> set cs" and d: "d \<in> set cs" "fc_operation d = op_rename" for c d
  proof
    assume eq: "clean (fc_path c) = clean (fc_target d)"
    obtain ps pl where rc: "change_result fs w m c = Inr (ps, pl)" using accepted_change [OF ok c] .
    obtain ps' pl' where rd: "change_result fs w m d = Inr (ps', pl')" using accepted_change [OF ok d(1)] .
    from rd d(2) have "\<not> exists_file fs w (clean (fc_target d))"
      by (cases rule: change_result_cases) auto
    with rc eq read_existing_exists have "fc_operation c = op_create"
      by (cases rule: change_result_cases) metis+
    moreover have "clean (fc_target d) \<in> set ts"
      using d scan(1) by (auto simp: targets_of_def)
    ultimately show False using none c eq by (auto simp: find_None_iff create_conflict_def)
  qed
  then have "set (paths_of cs) \<inter> set (targets_of cs) = {}"
    by (auto simp: paths_of_def targets_of_def)
  with scan show ?thesis by (intro distinct_change_keys) simp_all
qed

lemma proposal_keys_distinct:
  assumes "propose fs now w cs m = Inr p"
  shows "distinct (map fst (result_parts fs w m (cs_changes cs)))"
    "distinct (map fst (result_plan fs w m (cs_changes cs)))"
  using accepted_keys_distinct [OF propose_Inr(4,5) [OF assms]] result_keys [OF propose_Inr(5) [OF assms]]
  by simp_all

lemma map_of_update_all:
  "distinct (map fst effs) \<Longrightarrow> map_of (update_all effs []) = map_of effs"
proof
  fix k
  assume d: "distinct (map fst effs)"
  then have "map_of (rev effs) = map_of effs"
    by (subst map_of_inject_set) (simp_all flip: rev_map)
  then show "map_of (update_all effs []) k = map_of effs k"
    by (simp add: update_all_def go_map.stored_all split: option.splits)
qed

section \<open>What a proposal promises\<close>

lemma exists_file_iff:
  assumes "fs_wf fs" "proper_path (ws_root w)"
  shows "exists_file fs w rel \<longleftrightarrow>
    (\<exists>q d perm. resolve_path fs w rel = Inr q \<and> node_at fs q = Some (File d perm))"
proof (cases "resolve_path fs w rel")
  case (Inr q)
  note l = ws_paths.confined_lstat [OF assms Inr] ws_paths.confined_no_link [OF assms Inr]
  show ?thesis
  proof (cases "node_at fs q")
    case (Some nd)
    with l Inr show ?thesis by (cases nd) (auto simp: exists_file_def)
  qed (use l Inr in \<open>simp add: exists_file_def\<close>)
qed (simp add: exists_file_def)

lemma read_existing_Inr:
  assumes "fs_wf fs" "proper_path (ws_root w)" "m < 2 ^ 63 - 1" "h \<noteq> []"
    and "read_existing_for_change fs w rel h m = Inr d"
  obtains q perm where "resolve_path fs w rel = Inr q" "node_at fs q = Some (File d perm)" "hash_bytes d = h"
proof -
  obtain res where res: "read_text_file fs w rel m = Inr res" "read_hash res = h" "read_text res = d"
    using assms(4,5) by (auto simp: read_existing_for_change_def split: sum.splits if_splits)
  from assms(1,2) res(1) show thesis
  proof (rule read_text_file_Inr)
    fix q c perm
    assume r: "resolve_path fs w rel = Inr q" "node_at fs q = Some (File c perm)"
      "m > 0 \<longrightarrow> int (length c) \<le> m" "read_text res = limited_read m c"
      "read_hash res = hash_bytes (read_text res)"
    have "read_text res = c"
      using r(3,4) assms(3) limited_read_all [of c m] by (auto simp: limited_read_def)
    with r res show thesis by (intro that) auto
  qed
qed

lemma proposal_plan:
  assumes "propose fs now w cs m = Inr p" "ch \<in> set (cs_changes cs)"
    and "change_result fs w m ch = Inr (ps, pl)" "(k, v) \<in> set pl"
  shows "map_of (prop_planned p) k = Some v"
proof -
  have "(k, v) \<in> set (result_plan fs w m (cs_changes cs))"
    using assms(2-4) by (force simp: result_plan_def ok_plan_def)
  then show ?thesis
    using map_of_update_all [OF proposal_keys_distinct(2) [OF assms(1)]]
      proposal_keys_distinct(2) [OF assms(1)] propose_Inr(7) [OF assms(1)] by simp
qed

lemma proposal_change:
  assumes "propose fs now w cs m = Inr p" "ch \<in> set (cs_changes cs)"
  obtains ps pl where "change_result fs w m ch = Inr (ps, pl)"
    "\<And>k v. (k, v) \<in> set pl \<Longrightarrow> map_of (prop_planned p) k = Some v"
    "validate_change ch = None"
  using accepted_change [OF propose_Inr(5) [OF assms(1)] assms(2)]
    proposal_plan [OF assms] validate_change_set_None(3) [OF propose_Inr(1) [OF assms(1)] assms(2)]
  by metis

lemma proposal_keys:
  assumes "propose fs now w cs m = Inr p"
  shows "dom (map_of (prop_planned p)) = set (concat (map change_keys (cs_changes cs)))"
proof -
  have "dom (map_of (prop_planned p)) = set (map fst (result_plan fs w m (cs_changes cs)))"
    unfolding propose_Inr(7) [OF assms] map_of_update_all [OF proposal_keys_distinct(2) [OF assms]]
    by (simp add: dom_map_of_conv_image_fst)
  then show ?thesis using result_keys [OF propose_Inr(5) [OF assms]] by simp
qed

lemma proposal_key_resolves:
  assumes "propose fs now w cs m = Inr p" "map_of (prop_planned p) k = Some v"
  shows "\<exists>q. resolve_path fs w k = Inr q"
proof -
  have "k \<in> set (concat (map change_keys (cs_changes cs)))"
    using assms proposal_keys by blast
  then obtain ch where ch: "ch \<in> set (cs_changes cs)" "k \<in> set (change_keys ch)" by auto
  have read: "\<exists>q. resolve_path fs w r = Inr q" if "read_existing_for_change fs w r h m = Inr d" for r h d
    using that by (auto simp: read_existing_for_change_def read_text_file_def split: sum.splits)
  obtain ps pl where r: "change_result fs w m ch = Inr (ps, pl)"
    using assms(1) ch(1) by (rule proposal_change)
  from r ch(2) show ?thesis
    by (cases rule: change_result_cases) (auto simp: change_keys_def dest: read split: if_splits)
qed

text \<open>
  What a reader of the diff should be shown of a plan: for each planned path in order, the change from
  what its file holds to what the plan gives it, where no file and a deleted one count as empty.
\<close>

definition current_text :: "fs \<Rightarrow> workspace \<Rightarrow> string \<Rightarrow> string" where
  "current_text fs w k =
     (case resolve_path fs w k of
        Inl _ \<Rightarrow> []
      | Inr q \<Rightarrow> (case node_at fs q of Some (File d _) \<Rightarrow> d | _ \<Rightarrow> []))"

definition planned_text :: "plan \<Rightarrow> string \<Rightarrow> string" where
  "planned_text planned k = (case map_of planned k of Some (Planned False c) \<Rightarrow> c | _ \<Rightarrow> [])"

definition shown_diff :: "fs \<Rightarrow> workspace \<Rightarrow> plan \<Rightarrow> string" where
  "shown_diff fs w planned =
     unified_join (map (\<lambda>k. unified_file k (current_text fs w k) (planned_text planned k)) (sort (map fst planned)))"

lemma current_text_at:
  "resolve_path fs w k = Inr q \<Longrightarrow> node_at fs q = Some (File d perm) \<Longrightarrow> current_text fs w k = d"
  by (simp add: current_text_def)

lemma current_text_none:
  "fs_wf fs \<Longrightarrow> proper_path (ws_root w) \<Longrightarrow> \<not> exists_file fs w k \<Longrightarrow> current_text fs w k = []"
  by (auto simp: exists_file_iff current_text_def split: sum.split option.split node.split)

lemma change_parts_shown:
  assumes wf: "fs_wf fs" "proper_path (ws_root w)" "m < 2 ^ 63 - 1"
    and p: "propose fs now w cs m = Inr p" "ch \<in> set (cs_changes cs)" and r: "change_result fs w m ch = Inr (ps, pl)"
  shows "ps = map (\<lambda>k. (k, unified_file k (current_text fs w k) (planned_text (prop_planned p) k))) (change_keys ch)"
proof -
  obtain ps' pl' where "change_result fs w m ch = Inr (ps', pl')"
    and plan: "\<And>k v. (k, v) \<in> set pl' \<Longrightarrow> map_of (prop_planned p) k = Some v"
    and valid: "validate_change ch = None"
    using p by (rule proposal_change) blast
  then have plan: "\<And>k v. (k, v) \<in> set pl \<Longrightarrow> map_of (prop_planned p) k = Some v" using r by simp
  have cur: "current_text fs w (clean (fc_path ch)) = d"
    if "read_existing_for_change fs w (clean (fc_path ch)) (fc_base_hash ch) m = Inr d" "fc_operation ch \<noteq> op_create" for d
  proof -
    have "fc_base_hash ch \<noteq> []" using valid that(2) by (auto simp: validate_change_None)
    from read_existing_Inr [OF wf this that(1)] current_text_at show ?thesis by metis
  qed
  from r show ?thesis
  proof (cases rule: change_result_cases)
    case (create q)
    with plan current_text_none [OF wf(1,2)] show ?thesis by (simp add: change_keys_def planned_text_def)
  next
    case (modify old)
    with plan cur [OF modify(2)] show ?thesis by (simp add: change_keys_def planned_text_def)
  next
    case (delete old)
    with plan cur [OF delete(2)] show ?thesis by (simp add: change_keys_def planned_text_def)
  next
    case (rename old q)
    with plan cur [OF rename(2)] current_text_none [OF wf(1,2) rename(4)] show ?thesis
      by (simp add: change_keys_def planned_text_def)
  qed
qed

lemma sort_tagged:
  fixes ks :: "'a :: linorder list"
  assumes "distinct ks"
  shows "sort_key fst (map (\<lambda>k. (k, f k)) ks) = map (\<lambda>k. (k, f k)) (sort ks)"
proof -
  let ?t = "map (\<lambda>k. (k, f k))"
  have "sort_key fst (?t ks) = sort_key fst (?t (sort ks))"
    by (rule sort_key_mset_cong) (simp_all add: assms o_def)
  also have "\<dots> = ?t (sort ks)" by (rule sort_key_id_if_sorted) (simp add: o_def)
  finally show ?thesis .
qed

lemma update_all_distinct: "distinct (map fst planned) \<Longrightarrow> distinct (map fst (update_all effs planned))"
  by (induction effs arbitrary: planned) (auto simp: update_all_def distinct_update)

lemma proposal_shows:
  assumes wf: "fs_wf fs" "proper_path (ws_root w)" "m < 2 ^ 63 - 1" and p: "propose fs now w cs m = Inr p"
  shows "ad_diff (prop_diff p) = shown_diff fs w (prop_planned p)"
proof -
  let ?keys = "concat (map change_keys (cs_changes cs))"
  let ?part = "\<lambda>k. (k, unified_file k (current_text fs w k) (planned_text (prop_planned p) k))"
  have each: "ok_parts (change_result fs w m ch) = map ?part (change_keys ch)" if ch: "ch \<in> set (cs_changes cs)" for ch
  proof -
    obtain ps pl where r: "change_result fs w m ch = Inr (ps, pl)"
      using accepted_change [OF propose_Inr(5) [OF p] ch] .
    with change_parts_shown [OF wf p ch r] show ?thesis by (simp add: ok_parts_def)
  qed
  have "result_parts fs w m (cs_changes cs) = concat (map (\<lambda>ch. map ?part (change_keys ch)) (cs_changes cs))"
    unfolding result_parts_def using each by (intro arg_cong [of _ _ concat] map_cong) simp_all
  then have parts: "result_parts fs w m (cs_changes cs) = map ?part ?keys" by (simp add: map_concat o_def)
  have d: "distinct ?keys" by (rule accepted_keys_distinct [OF propose_Inr(4,5) [OF p]])
  have "distinct (map fst (prop_planned p))" using propose_Inr(7) [OF p] by (simp add: update_all_distinct)
  moreover have "set (map fst (prop_planned p)) = set ?keys"
    using proposal_keys [OF p] by (simp add: dom_map_of_conv_image_fst)
  ultimately have "sort (map fst (prop_planned p)) = sort ?keys"
    using d by (metis sorted_list_of_set_sort_remdups distinct_remdups_id)
  then show ?thesis
    using propose_Inr(8) [OF p] parts sort_tagged [OF d, of "snd \<circ> ?part"] by (simp add: shown_diff_def o_def Let_def)
qed

section \<open>Properties\<close>

text \<open>
  C18. A proposal is faithful to its change set and to the files it was computed from. Every
  changed, deleted or renamed file exists inside the workspace and its SHA-256 is the
  \<open>base_hash\<close> of the change; a created or target path has no file; the planned end state holds
  exactly the paths of the changes and what each asks for (a rename without content keeps the
  old content). The diff that is shown is, path by path in order, the unified diff from what the file
  holds now (nothing, if there is none) to what the plan gives it (nothing, if it is deleted), and the
  hash that is approved is the SHA-256 of that text.
\<close>

theorem propose_sound:
  assumes "fs_wf fs" "proper_path (ws_root w)" "m < 2 ^ 63 - 1"
    and "propose fs now w cs m = Inr p" "ch \<in> set (cs_changes cs)"
  shows "map_of (prop_planned p) (clean (fc_path ch)) =
      Some (if fc_operation ch \<in> {op_delete, op_rename} then Planned True [] else Planned False (fc_content ch))
    \<and> (fc_operation ch = op_create \<longrightarrow> \<not> exists_file fs w (clean (fc_path ch)))
    \<and> (fc_operation ch \<noteq> op_create \<longrightarrow>
        (\<exists>q d perm. resolve_path fs w (clean (fc_path ch)) = Inr q \<and> prefix (ws_root w) q
          \<and> node_at fs q = Some (File d perm) \<and> hash_bytes d = fc_base_hash ch
          \<and> (fc_operation ch = op_rename \<longrightarrow>
              \<not> exists_file fs w (clean (fc_target ch)) \<and> map_of (prop_planned p) (clean (fc_target ch)) =
                Some (Planned False (if fc_content ch = [] then d else fc_content ch)))))
    \<and> dom (map_of (prop_planned p)) = set (concat (map change_keys (cs_changes cs)))
    \<and> ad_diff (prop_diff p) = shown_diff fs w (prop_planned p)
    \<and> ad_hash (prop_diff p) = hash_bytes (shown_diff fs w (prop_planned p))"
proof -
  obtain ps pl where r: "change_result fs w m ch = Inr (ps, pl)"
    and plan: "\<And>k v. (k, v) \<in> set pl \<Longrightarrow> map_of (prop_planned p) k = Some v"
    and valid: "validate_change ch = None"
    using assms(4,5) by (rule proposal_change) blast
  have read: "\<exists>q perm. resolve_path fs w (clean (fc_path ch)) = Inr q \<and> prefix (ws_root w) q
      \<and> node_at fs q = Some (File d perm) \<and> hash_bytes d = fc_base_hash ch"
    if "read_existing_for_change fs w (clean (fc_path ch)) (fc_base_hash ch) m = Inr d"
      "fc_operation ch \<noteq> op_create" for d
  proof -
    have "fc_base_hash ch \<noteq> []" using valid that(2) by (auto simp: validate_change_None)
    from read_existing_Inr [OF assms(1-3) this that(1)] ws_paths.confined [OF assms(1,2)]
    show ?thesis by metis
  qed
  have "ad_hash (prop_diff p) = hash_bytes (ad_diff (prop_diff p))"
    using propose_Inr(8) [OF assms(4)] by (simp add: Let_def)
  note keys = proposal_keys [OF assms(4)] proposal_shows [OF assms(1-4)] this
  from r show ?thesis
  proof (cases rule: change_result_cases)
    case (create q)
    with plan keys show ?thesis by simp
  next
    case (modify old)
    with plan keys read [OF modify(2)] show ?thesis by auto
  next
    case (delete old)
    with plan keys read [OF delete(2)] show ?thesis by auto
  next
    case (rename old q)
    with plan keys read [OF rename(2)] show ?thesis by (simp split del: if_split) blast
  qed
qed

definition demo_id :: string where
  "demo_id = ''CHG-00000000-0000-7000-8000-000000000000''"

definition demo_changes :: "file_change list" where
  "demo_changes =
     [\<lparr>fc_path = ''in/f'', fc_operation = op_modify, fc_base_hash = hash_bytes ''hi'',
       fc_content = ''ho'', fc_target = []\<rparr>,
      \<lparr>fc_path = ''b'', fc_operation = op_create, fc_base_hash = [], fc_content = ''new'', fc_target = []\<rparr>]"

definition demo_set :: change_set where
  "demo_set = \<lparr>cs_id = demo_id, cs_workspace = ws_id demo_ws, cs_base_revision = ''0'', cs_changes = demo_changes\<rparr>"

lemma demo_read: "read_text_file demo_fs demo_ws ''in/f'' 100 =
  Inr \<lparr>read_path = ''in/f'', read_text = ''hi'', read_hash = hash_bytes ''hi'', read_size = 2\<rparr>"
proof -
  have q: "resolve_path demo_fs demo_ws ''in/f'' = Inr [''w'', ''a'', ''f'']"
    and n: "node_at demo_fs [''w'', ''a'', ''f''] = Some (File ''hi'' 420)"
    and c: "clean ''in/f'' = ''in/f''" "utf8_valid ''hi''"
    by code_simp+
  show ?thesis using read_text_file_ok [OF demo_fs_wf demo_root q n c(2), of 100] c(1) by simp
qed

lemma demo_create: "resolve_path demo_fs demo_ws ''b'' = Inr [''w'', ''b''] \<and> \<not> exists_file demo_fs demo_ws ''b''
    \<and> clean ''b'' = ''b'' \<and> clean ''in/f'' = ''in/f''"
  by code_simp

lemma demo_accepted: "\<forall>ch\<in>set demo_changes. is_ok (change_result demo_fs demo_ws 100 ch)"
  using demo_read demo_create
  by (simp add: demo_changes_def change_result_def propose_change_def read_existing_for_change_def Let_def)

lemma demo_valid: "validate_change_set demo_set = None"
proof -
  have "validate_id KChangeSet demo_id = None" "validate_id KWorkspace (ws_id demo_ws) = None" by code_simp+
  then show ?thesis
    by (simp add: validate_change_set_def demo_set_def optional_id_def demo_changes_def validate_change_None)
qed

lemma demo_conflicts: "validate_change_conflicts demo_changes = None"
  using demo_create
  by (simp add: validate_change_conflicts_def demo_changes_def create_conflict_def Let_def)

lemma demo_propose: "\<exists>p. propose demo_fs 1 demo_ws demo_set 100 = Inr p"
proof (rule proposeI)
  have "parse_int ''0'' = Some 0" by code_simp
  then show "check_base_revision demo_ws (cs_base_revision demo_set) = None"
    by (simp add: check_base_revision_def demo_set_def demo_ws_def)
  have c: "cs_changes demo_set = demo_changes" "cs_workspace demo_set = ws_id demo_ws"
    by (simp_all add: demo_set_def)
  show "validate_change_conflicts (cs_changes demo_set) = None" unfolding c by (rule demo_conflicts)
  show "\<forall>ch\<in>set (cs_changes demo_set). is_ok (change_result demo_fs demo_ws 100 ch)"
    unfolding c by (rule demo_accepted)
  show "cs_workspace demo_set \<in> {[], ws_id demo_ws}" unfolding c by simp
qed (rule demo_valid)

theorem propose_sound_witness:
  "\<exists>p. propose demo_fs 1 demo_ws demo_set 100 = Inr p
    \<and> map_of (prop_planned p) ''in/f'' = Some (Planned False ''ho'')
    \<and> dom (map_of (prop_planned p)) = {''in/f'', ''b''}"
proof -
  obtain p where p: "propose demo_fs 1 demo_ws demo_set 100 = Inr p" using demo_propose by blast
  have ch: "hd demo_changes \<in> set (cs_changes demo_set)" by (simp add: demo_set_def demo_changes_def)
  note sound = propose_sound [OF demo_fs_wf demo_root _ p ch]
  have "map_of (prop_planned p) ''in/f'' = Some (Planned False ''ho'')"
    using conjunct1 [OF sound] demo_create by (simp add: demo_changes_def)
  moreover have "dom (map_of (prop_planned p)) = {''in/f'', ''b''}"
    using conjunct2 [OF conjunct2 [OF conjunct2 [OF sound]]] demo_create
    by (simp add: demo_set_def demo_changes_def change_keys_def)
  ultimately show ?thesis using p by blast
qed

section \<open>Order of the changes\<close>

lemma conflict_scan_ok:
  "distinct (concat (map change_keys cs)) \<Longrightarrow> distinct (st @ targets_of cs) \<Longrightarrow>
     set (concat (map change_keys cs)) \<inter> fst ` set sp = {} \<Longrightarrow>
     conflict_scan sp st cs = Inr (st @ targets_of cs)"
proof (induction cs arbitrary: sp st)
  case (Cons ch cs)
  let ?p = "clean (fc_path ch)" and ?sp = "AList.update (clean (fc_path ch)) (fc_operation ch) sp"
  have fresh: "map_of sp ?p = None"
    using Cons.prems(3) by (auto simp: map_of_None_iff change_keys_def)
  show ?case
  proof (cases "fc_operation ch = op_rename")
    case True
    let ?t = "clean (fc_target ch)"
    have sub: "targets_of (ch # cs) = ?t # targets_of cs" and keys: "change_keys ch = [?p, ?t]"
      using True by (simp_all add: targets_of_def change_keys_def)
    have t: "?t \<noteq> ?p" "?t \<notin> set st" "map_of ?sp ?t = None"
      using Cons.prems by (auto simp: map_of_None_iff keys sub keys_update)
    have "conflict_scan ?sp (st @ [?t]) cs = Inr ((st @ [?t]) @ targets_of cs)"
      by (rule Cons.IH) (use Cons.prems in \<open>auto simp: sub keys keys_update\<close>)
    with fresh t sub True show ?thesis by (simp add: Let_def)
  next
    case False
    then have sub: "targets_of (ch # cs) = targets_of cs" and keys: "change_keys ch = [?p]"
      by (simp_all add: targets_of_def change_keys_def)
    have "conflict_scan ?sp st cs = Inr (st @ targets_of cs)"
      by (rule Cons.IH) (use Cons.prems in \<open>auto simp: sub keys keys_update\<close>)
    with fresh sub False show ?thesis by (simp add: Let_def)
  qed
qed (simp add: targets_of_def)

lemma distinct_keys_targets:
  "distinct (concat (map change_keys cs)) \<Longrightarrow> distinct (targets_of cs)"
proof (induction cs)
  case (Cons ch cs)
  have "set (targets_of cs) \<subseteq> set (concat (map change_keys cs))"
    by (auto simp: targets_of_def change_keys_def)
  with Cons show ?case by (auto simp: targets_of_def change_keys_def)
qed (simp add: targets_of_def)

lemma path_not_target:
  "distinct (concat (map change_keys cs)) \<Longrightarrow> c \<in> set cs \<Longrightarrow> clean (fc_path c) \<notin> set (targets_of cs)"
proof (induction cs)
  case (Cons ch cs)
  have t: "set (targets_of cs) \<subseteq> set (concat (map change_keys cs))"
    by (auto simp: targets_of_def change_keys_def)
  have p: "c \<in> set cs \<Longrightarrow> clean (fc_path c) \<in> set (concat (map change_keys cs))"
    by (auto simp: change_keys_def)
  from Cons t p show ?case
    by (auto simp: targets_of_def change_keys_def split: if_splits)
qed simp

lemma no_conflict:
  assumes "distinct (concat (map change_keys cs))"
  shows "validate_change_conflicts cs = None"
proof -
  have "conflict_scan [] [] cs = Inr (targets_of cs)"
    using conflict_scan_ok [of cs "[]" "[]"] assms distinct_keys_targets by simp
  moreover have "find (create_conflict (targets_of cs)) cs = None"
    using path_not_target [OF assms] by (auto simp: find_None_iff create_conflict_def)
  ultimately show ?thesis by (simp add: validate_change_conflicts_def)
qed

lemma distinct_mset_cong: "mset xs = mset ys \<Longrightarrow> distinct xs = distinct ys"
  by (metis distinct_count_atmost_1 set_mset_mset)

lemma mset_concat_map_cong: "mset xs = mset ys \<Longrightarrow> mset (concat (map f xs)) = mset (concat (map f ys))"
proof -
  have "mset (concat (map f zs)) = (\<Sum>z\<in>#mset zs. mset (f z))" for zs
    by (induction zs) auto
  then show "mset xs = mset ys \<Longrightarrow> ?thesis" by simp
qed

text \<open>
  C19. The identity of a proposal does not depend on the order of the changes in the request:
  any permutation of an accepted change set is accepted and has the same diff, the same hash
  and the same planned end state.
\<close>

theorem propose_order_independent:
  assumes "propose fs now w cs m = Inr p" "mset changes = mset (cs_changes cs)"
  shows "\<exists>p'. propose fs now w (cs\<lparr>cs_changes := changes\<rparr>) m = Inr p'
    \<and> prop_diff p' = prop_diff p \<and> map_of (prop_planned p') = map_of (prop_planned p)"
proof -
  note P = propose_Inr [OF assms(1)]
  note S = mset_eq_setD [OF assms(2)]
  let ?cs = "cs\<lparr>cs_changes := changes\<rparr>"
  have ok: "\<forall>ch\<in>set changes. is_ok (change_result fs w m ch)" using P(5) S by simp
  have "distinct (concat (map change_keys changes))"
    using distinct_mset_cong [OF mset_concat_map_cong [OF assms(2)], of change_keys]
      accepted_keys_distinct [OF P(4,5)]
    by simp
  then have "validate_change_conflicts changes = None" by (rule no_conflict)
  moreover have "validate_change_set ?cs = None"
    using P(1) S assms(2) by (auto simp: validate_change_set_def)
  ultimately obtain p' where p': "propose fs now w ?cs m = Inr p'"
    using proposeI [of ?cs w fs m now] P(2,3) ok by auto
  note P' = propose_Inr [OF p']
  have "sort_key fst (result_parts fs w m changes) = sort_key fst (result_parts fs w m (cs_changes cs))"
    unfolding result_parts_def
    by (rule sort_key_mset_cong [OF mset_concat_map_cong [OF assms(2)]])
      (use proposal_keys_distinct(1) [OF p'] in \<open>simp add: result_parts_def\<close>)
  then have "prop_diff p' = prop_diff p" using P(8) P'(8) by simp
  moreover have "map_of (prop_planned p') = map_of (prop_planned p)"
  proof -
    have "mset (result_plan fs w m changes) = mset (result_plan fs w m (cs_changes cs))"
      unfolding result_plan_def by (rule mset_concat_map_cong [OF assms(2)])
    then have set: "set (result_plan fs w m changes) = set (result_plan fs w m (cs_changes cs))"
      by (rule mset_eq_setD)
    have d: "distinct (map fst (result_plan fs w m changes))"
      using proposal_keys_distinct(2) [OF p'] by simp
    note d' = proposal_keys_distinct(2) [OF assms(1)]
    have "map_of (result_plan fs w m changes) = map_of (result_plan fs w m (cs_changes cs))"
      using map_of_inject_set [OF d d'] set by blast
    then show ?thesis
      using P(7) P'(7) map_of_update_all [OF d] map_of_update_all [OF d'] by simp
  qed
  ultimately show ?thesis using p' by blast
qed

theorem propose_order_independent_witness:
  "\<exists>p p'. propose demo_fs 1 demo_ws demo_set 100 = Inr p
    \<and> propose demo_fs 1 demo_ws (demo_set\<lparr>cs_changes := rev demo_changes\<rparr>) 100 = Inr p'
    \<and> prop_diff p' = prop_diff p"
proof -
  obtain p where p: "propose demo_fs 1 demo_ws demo_set 100 = Inr p" using demo_propose by blast
  have "mset (rev demo_changes) = mset (cs_changes demo_set)" by (simp add: demo_set_def)
  from propose_order_independent [OF p this] p show ?thesis by blast
qed

end
