(* ===== verification/Proposal_Lifecycle.thy ===== *)
theory Proposal_Lifecycle
  imports Workspace_Propose
begin

text \<open>
  The proposal store as a state machine. The store is guarded by a mutex, so concurrent callers
  produce some sequence of its operations; an event is an operation together with whether it
  succeeded. The lemmas say which flags an event can change; the properties are about any run.
\<close>

datatype store_event =
    Put proposal
  | Claim string bool
  | Abort string
  | Finish string bool

inductive store_step :: "proposal_store \<Rightarrow> store_event \<Rightarrow> proposal_store \<Rightarrow> bool" where
  put: "store_step st (Put p) (put_proposal p st)"
| claimed: "claim_for_apply st i = (st', Inr p) \<Longrightarrow> store_step st (Claim i True) st'"
| not_claimed: "claim_for_apply st i = (st', Inl e) \<Longrightarrow> store_step st (Claim i False) st'"
| aborted: "store_step st (Abort i) (abort_apply st i)"
| finished: "finish_apply st i = (st', None) \<Longrightarrow> store_step st (Finish i True) st'"
| not_finished: "finish_apply st i = (st', Some e) \<Longrightarrow> store_step st (Finish i False) st'"

inductive_cases store_stepE: "store_step st ev st'"

inductive_simps store_step_simps:
  "store_step st (Put p) st'" "store_step st (Claim i True) st'" "store_step st (Claim i False) st'"
  "store_step st (Abort i) st'" "store_step st (Finish i True) st'" "store_step st (Finish i False) st'"

inductive store_run :: "proposal_store \<Rightarrow> store_event list \<Rightarrow> proposal_store \<Rightarrow> bool" where
  stop: "store_run st [] st"
| go: "store_step st ev st1 \<Longrightarrow> store_run st1 evs st2 \<Longrightarrow> store_run st (ev # evs) st2"

inductive_simps store_run_simps: "store_run st [] st'" "store_run st (ev # evs) st'"

definition claimed_or_applied :: "proposal_store \<Rightarrow> string \<Rightarrow> bool" where
  "claimed_or_applied st i =
     (case map_of st i of None \<Rightarrow> False | Some p \<Rightarrow> prop_applying p \<or> prop_applied p)"

definition applied :: "proposal_store \<Rightarrow> string \<Rightarrow> bool" where
  "applied st i = (case map_of st i of None \<Rightarrow> False | Some p \<Rightarrow> prop_applied p)"

definition replaces :: "string \<Rightarrow> store_event \<Rightarrow> bool" where
  "replaces i ev = (case ev of Put p \<Rightarrow> cs_id (prop_change_set p) = i | _ \<Rightarrow> False)"

lemmas store_defs = put_proposal_def claim_for_apply_def abort_apply_def finish_apply_def
  mark_applied_def claimed_or_applied_def applied_def replaces_def

lemma claim_locks:
  "claim_for_apply st i = (st', Inr p) \<Longrightarrow> \<not> claimed_or_applied st i \<and> claimed_or_applied st' i"
  by (auto simp: store_defs go_map.look_ins Let_def split: option.splits if_splits)

lemma claim_when_free:
  "map_of st i = Some p \<Longrightarrow> \<not> claimed_or_applied st i \<Longrightarrow>
    claim_for_apply st i = (AList.update i (p\<lparr>prop_applying := True\<rparr>) st, Inr (p\<lparr>prop_applying := True\<rparr>))"
  by (auto simp: store_defs Let_def)

lemma finish_applies:
  "finish_apply st i = (st', None) \<Longrightarrow> \<not> applied st i \<and> applied st' i"
  by (auto simp: store_defs go_map.look_ins split: option.splits if_splits)

lemma applied_locks: "applied st i \<Longrightarrow> claimed_or_applied st i"
  by (auto simp: store_defs split: option.splits)

lemma step_keeps_lock:
  "store_step st ev st' \<Longrightarrow> claimed_or_applied st i \<Longrightarrow> ev \<noteq> Abort i \<Longrightarrow> \<not> replaces i ev \<Longrightarrow>
    claimed_or_applied st' i"
  by (erule store_stepE)
    (auto simp: store_defs go_map.look_ins Let_def split: option.splits if_splits)

lemma step_keeps_applied:
  "store_step st ev st' \<Longrightarrow> applied st i \<Longrightarrow> \<not> replaces i ev \<Longrightarrow> applied st' i"
  by (erule store_stepE)
    (auto simp: store_defs go_map.look_ins Let_def split: option.splits if_splits)

lemma run_keeps_lock:
  "store_run st evs st' \<Longrightarrow> claimed_or_applied st i \<Longrightarrow> Abort i \<notin> set evs \<Longrightarrow>
    \<forall>ev\<in>set evs. \<not> replaces i ev \<Longrightarrow> claimed_or_applied st' i"
  by (induction rule: store_run.induct) (auto dest: step_keeps_lock)

lemma run_keeps_applied:
  "store_run st evs st' \<Longrightarrow> applied st i \<Longrightarrow> \<forall>ev\<in>set evs. \<not> replaces i ev \<Longrightarrow> applied st' i"
  by (induction rule: store_run.induct) (auto dest: step_keeps_applied)

lemma store_run_append:
  "store_run st (xs @ ys) st' \<longleftrightarrow> (\<exists>mid. store_run st xs mid \<and> store_run mid ys st')"
  by (induction xs arbitrary: st) (auto simp: store_run_simps)

section \<open>Properties\<close>

text \<open>
  C17. At most one apply of a change set is in flight: in every run of the store, between two
  successful claims of one change set the first claim was given back (\<open>AbortApply\<close>) or a new
  proposal was stored under its identifier.
\<close>

theorem claims_exclusive:
  assumes "store_run st (Claim i True # evs @ [Claim i True]) st'"
  shows "Abort i \<in> set evs \<or> (\<exists>ev\<in>set evs. replaces i ev)"
proof (rule ccontr)
  assume none: "\<not> ?thesis"
  from assms obtain st1 st2 p q where c: "claim_for_apply st i = (st1, Inr p)"
    "store_run st1 evs st2" "claim_for_apply st2 i = (st', Inr q)"
    by (auto simp: store_run_simps store_run_append store_step_simps)
  from run_keeps_lock [OF c(2)] claim_locks [OF c(1)] none have "claimed_or_applied st2 i" by blast
  with claim_locks [OF c(3)] show False by simp
qed

definition demo_proposal :: proposal where
  "demo_proposal =
     \<lparr>prop_change_set = \<lparr>cs_id = ''C'', cs_workspace = ''W'', cs_base_revision = [], cs_changes = []\<rparr>,
      prop_diff = \<lparr>ad_change_set = ''C'', ad_diff = [], ad_hash = ''H'', ad_workspace = ''W''\<rparr>,
      prop_base_revision = 0, prop_created_at = 0, prop_planned = [], prop_applied = False,
      prop_applying = False\<rparr>"

lemma demo_run:
  "store_run (put_proposal demo_proposal [])
     [Claim ''C'' True, Claim ''C'' False, Abort ''C'', Claim ''C'' True]
     [(''C'', demo_proposal\<lparr>prop_applying := True\<rparr>)]"
  by (auto simp: store_run_simps store_step_simps store_defs demo_proposal_def Let_def)

theorem claims_exclusive_witness:
  "Abort ''C'' \<in> set [Claim ''C'' False, Abort ''C'']
    \<or> (\<exists>ev\<in>set [Claim ''C'' False, Abort ''C'']. replaces ''C'' ev)"
  using claims_exclusive [of "put_proposal demo_proposal []" "''C''" "[Claim ''C'' False, Abort ''C'']"]
    demo_run by simp

text \<open>
  An applied change set is final: after a successful \<open>FinishApply\<close>, no later claim and no
  later finish of the same change set succeeds unless a new proposal was stored under its
  identifier; giving up a claim in between does not reopen it.
\<close>

lemma applied_is_final:
  assumes "store_run st (Finish i True # evs @ [ev]) st'"
    and "\<forall>e\<in>set evs. \<not> replaces i e"
  shows "ev \<noteq> Claim i True \<and> ev \<noteq> Finish i True \<and> (\<not> replaces i ev \<longrightarrow> applied st' i)"
proof -
  from assms(1) obtain st1 st2 where c: "finish_apply st i = (st1, None)" "store_run st1 evs st2"
    "store_step st2 ev st'"
    by (auto simp: store_run_simps store_run_append store_step_simps)
  from run_keeps_applied [OF c(2)] finish_applies [OF c(1)] assms(2) have st2: "applied st2 i" by blast
  have "ev \<noteq> Claim i True"
    using c(3) claim_locks [of st2 i] applied_locks [OF st2] by (auto simp: store_step_simps)
  moreover have "ev \<noteq> Finish i True"
    using c(3) finish_applies [of st2 i] st2 by (auto simp: store_step_simps)
  ultimately show ?thesis using step_keeps_applied [OF c(3) st2] by blast
qed

theorem applied_is_final_witness:
  "\<exists>st. store_run (put_proposal demo_proposal []) [Finish ''C'' True, Abort ''C'', Claim ''C'' False] st
    \<and> applied st ''C''"
proof -
  let ?st = "[(''C'', demo_proposal\<lparr>prop_applied := True\<rparr>)]"
  have run: "store_run (put_proposal demo_proposal []) (Finish ''C'' True # [Abort ''C''] @ [Claim ''C'' False]) ?st"
    by (auto simp: store_run_simps store_step_simps store_defs demo_proposal_def)
  from applied_is_final [OF this] run show ?thesis by (auto simp: replaces_def)
qed

end
