(* ===== verification/Policy.thy ===== *)
theory Policy
  imports Protocol_Ids
begin

text \<open>
  \<open>local-agent/internal/policy/approval.go\<close>: the interface \<open>ApprovalValidator\<close> and its local
  implementation, with the second implementation, \<open>boundApproval\<close> of
  \<open>local-agent/internal/idesession/apply.go\<close>. A validator maps approval id, change set id and
  approved diff hash to an error, \<open>None\<close> for nil.
\<close>

type_synonym validator = "string \<Rightarrow> string \<Rightarrow> string \<Rightarrow> go_error option"

definition local_approval :: validator where
  "local_approval approval_id change_set_id diff_hash =
     (if approval_id = [] then Some (must_err ApprovalRequired ''approval_id required'')
      else if validate_id KApproval approval_id \<noteq> None
      then Some (must_err ApprovalInvalid ''invalid approval_id'')
      else if change_set_id = [] then Some (must_err InvalidArgument ''change_set_id required'')
      else if diff_hash = [] then Some (must_err DiffMismatch ''approved_diff_hash required'')
      else None)"

record bound_approval =
  bound_id :: string
  bound_change_set :: string
  bound_hash :: string

definition bound_validate :: "bound_approval \<Rightarrow> validator" where
  "bound_validate b approval_id change_set_id diff_hash =
     (if approval_id = [] \<or> change_set_id = [] \<or> diff_hash = []
      then Some (must_err ApprovalRequired ''approval bind fields are required'')
      else if approval_id \<noteq> bound_id b \<or> change_set_id \<noteq> bound_change_set b \<or> diff_hash \<noteq> bound_hash b
      then Some (must_err ApprovalInvalid ''approval bind does not match stored proposal'')
      else None)"

text \<open>
  What applying relies on: nothing passes a validator without an approval, a change set and
  an approved hash, and a refusal is a protocol error.
\<close>

locale approval_validator =
  fixes approve :: validator
  assumes accepted: "approve a c h = None \<Longrightarrow> a \<noteq> [] \<and> c \<noteq> [] \<and> h \<noteq> []"
    and refused: "approve a c h = Some e \<Longrightarrow> error_code e \<noteq> None"
begin

lemma no_approval_refused: "\<exists>e. approve [] c h = Some e"
  using accepted [of "[]" c h] by (cases "approve [] c h") auto

lemma no_hash_refused: "\<exists>e. approve a c [] = Some e"
  using accepted [of a c "[]"] by (cases "approve a c []") auto

end

interpretation local_approval: approval_validator local_approval
  by unfold_locales (auto simp: local_approval_def split: if_splits)

interpretation bound_approval: approval_validator "bound_validate b"
  by unfold_locales (auto simp: bound_validate_def split: if_splits)

lemma bound_validate_None:
  "bound_validate b a c h = None \<Longrightarrow>
    a = bound_id b \<and> c = bound_change_set b \<and> h = bound_hash b \<and> a \<noteq> [] \<and> c \<noteq> [] \<and> h \<noteq> []"
  by (auto simp: bound_validate_def split: if_splits)

end
