(* ===== verification/Workspace_Apply.thy ===== *)
theory Workspace_Apply
  imports Proposal_Lifecycle Policy
begin

text \<open>
  \<open>local-agent/internal/workspace/apply.go\<close>: applying a stored proposal under the lock of its
  workspace, with a backup of every path and a rollback on any failure. The calls of the
  rollback and of the clean-up of a staged file take their faults from the second schedule of
  the operating system, so that a failing apply with a working rollback can be told from a
  failing rollback. The deferred \<open>AbortApply\<close> is written out at every failing exit.
\<close>

section \<open>Requests, results and backups\<close>

record apply_request =
  ar_change_set :: string
  ar_workspace :: string
  ar_approval :: string
  ar_diff_hash :: string

record apply_file_result =
  afr_path :: string
  afr_hash :: string
  afr_deleted :: bool

record apply_result =
  res_change_set :: string
  res_workspace :: string
  res_revision :: int
  res_files :: "apply_file_result list"

record apply_options =
  opt_max_bytes :: int
  opt_fail_after :: int

record backup =
  bk_path :: string
  bk_file :: path
  bk_existed :: bool
  bk_data :: string
  bk_mode :: perm

definition dir_mode :: perm where "dir_mode = 493"
definition file_mode :: perm where "file_mode = 420"

definition tmp_suffix :: string where
  "tmp_suffix = ''.oncode-tmp''"

text \<open>\<open>abs + ".oncode-tmp"\<close>.\<close>

definition tmp_path :: "path \<Rightarrow> path" where
  "tmp_path p = butlast p @ [(if p = [] then [] else last p) @ tmp_suffix]"

section \<open>Rollback\<close>

text \<open>A call that takes its faults from the rollback schedule.\<close>

definition undoing :: "(os \<Rightarrow> os) \<Rightarrow> os \<Rightarrow> os" where
  "undoing f os =
     (let os1 = f (os\<lparr>faults := undo_faults os, undo_faults := faults os\<rparr>)
      in os1\<lparr>faults := undo_faults os1, undo_faults := faults os1\<rparr>)"

definition restore_one :: "backup \<Rightarrow> os \<Rightarrow> os" where
  "restore_one b os =
     (if bk_existed b
      then fst (write_file (fst (mkdir_all os (dir_path (bk_file b)))) (bk_file b) (bk_data b) (bk_mode b))
      else fst (remove_path os (bk_file b)))"

definition rollback :: "backup list \<Rightarrow> os \<Rightarrow> os" where
  "rollback backups os = undoing (fold restore_one (rev backups)) os"

definition clean_tmp :: "path \<Rightarrow> os \<Rightarrow> os" where
  "clean_tmp tmp os = undoing (\<lambda>os. fst (remove_path os tmp)) os"

section \<open>One path\<close>

definition replace_file :: "os \<Rightarrow> path \<Rightarrow> path \<Rightarrow> os \<times> string option" where
  "replace_file os tmp dest =
     (case remove_path os dest of
        (os1, Some e) \<Rightarrow>
          if e \<noteq> ENOENT then (os1, Some (path_error ''remove'' dest e))
          else (case rename_path os1 tmp dest of
                  (os2, r) \<Rightarrow> (os2, map_option (path_error ''rename'' tmp) r))
      | (os1, None) \<Rightarrow>
          (case rename_path os1 tmp dest of
             (os2, r) \<Rightarrow> (os2, map_option (path_error ''rename'' tmp) r)))"

text \<open>The backup of a path, taken before it is touched.\<close>

definition take_backup :: "os \<Rightarrow> string \<Rightarrow> path \<Rightarrow> os \<times> (go_error + backup)" where
  "take_backup os rel file =
     (let b = \<lparr>bk_path = rel, bk_file = file, bk_existed = False, bk_data = [], bk_mode = 0\<rparr> in
      case lstat (files os) file of
        Inl _ \<Rightarrow> (os, Inr b)
      | Inr (File d mode) \<Rightarrow>
          (case read_file os file of
             (os1, Inl e) \<Rightarrow> (os1, Inl (wrap_err ApplyFailed ''backup read'' (path_error ''open'' file e)))
           | (os1, Inr data) \<Rightarrow>
               (os1, Inr (b\<lparr>bk_existed := True, bk_data := data, bk_mode := mode\<rparr>)))
      | Inr (Link _ _) \<Rightarrow> (os, Inl (must_err ApplyFailed (''refusing to apply over symlink: '' @ rel)))
      | Inr Dir \<Rightarrow> (os, Inr b))"

text \<open>Bringing one path to its planned state; the error is answered after the rollback.\<close>

definition write_planned ::
  "backup list \<Rightarrow> planned_file \<Rightarrow> path \<Rightarrow> bool \<Rightarrow> os \<Rightarrow> os \<times> go_error option" where
  "write_planned backups plan file existed os =
     (if plan_delete plan then
        (if existed then
           (case remove_path os file of
              (os1, Some e) \<Rightarrow>
                (rollback backups os1, Some (wrap_err ApplyFailed ''delete'' (path_error ''remove'' file e)))
            | (os1, None) \<Rightarrow> (os1, None))
         else (os, None))
      else
        (case mkdir_all os (dir_path file) of
           (os1, Some e) \<Rightarrow>
             (rollback backups os1, Some (wrap_err ApplyFailed ''mkdir'' (path_error ''mkdir'' file e)))
         | (os1, None) \<Rightarrow>
             let tmp = tmp_path file in
             (case write_file os1 tmp (plan_content plan) file_mode of
                (os2, Some e) \<Rightarrow>
                  (clean_tmp tmp (rollback backups os2),
                   Some (wrap_err ApplyFailed ''stage write'' (path_error ''open'' tmp e)))
              | (os2, None) \<Rightarrow>
                  (case replace_file os2 tmp file of
                     (os3, Some e) \<Rightarrow>
                       (rollback backups (clean_tmp tmp os3),
                        Some (wrap_err ApplyFailed ''replace into place'' e))
                   | (os3, None) \<Rightarrow> (os3, None)))))"

definition apply_path ::
  "workspace \<Rightarrow> plan \<Rightarrow> int \<Rightarrow> string \<Rightarrow> os \<times> backup list \<times> int
    \<Rightarrow> os \<times> (go_error + backup list \<times> int)" where
  "apply_path ws planned fail_after rel st =
     (case st of (os, backups, done_ops) \<Rightarrow>
      let plan = (case map_of planned rel of Some pf \<Rightarrow> pf | None \<Rightarrow> Planned False []) in
      case resolve_path (files os) ws rel of
        Inl e \<Rightarrow> (rollback backups os, Inl e)
      | Inr file \<Rightarrow>
      (case take_backup os rel file of
         (os1, Inl e) \<Rightarrow> (rollback backups os1, Inl e)
       | (os1, Inr b) \<Rightarrow>
           let backups = backups @ [b] in
           (case write_planned backups plan file (bk_existed b) os1 of
              (os2, Some e) \<Rightarrow> (os2, Inl e)
            | (os2, None) \<Rightarrow>
                let done_ops = done_ops + 1 in
                if fail_after > 0 \<and> done_ops \<ge> fail_after
                then (rollback backups os2,
                      Inl (must_err ApplyFailed (''forced failure after '' @ itoa fail_after @ '' ops'')))
                else (os2, Inr (backups, done_ops)))))"

fun apply_paths ::
  "workspace \<Rightarrow> plan \<Rightarrow> int \<Rightarrow> string list \<Rightarrow> os \<times> backup list \<times> int \<Rightarrow> os \<times> go_error option" where
  "apply_paths ws planned fail_after [] (os, backups, done_ops) = (os, None)"
| "apply_paths ws planned fail_after (rel # rels) st =
     (case apply_path ws planned fail_after rel st of
        (os, Inl e) \<Rightarrow> (os, Some e)
      | (os, Inr (backups, done_ops)) \<Rightarrow> apply_paths ws planned fail_after rels (os, backups, done_ops))"

section \<open>Applying a proposal\<close>

definition file_result :: "plan \<Rightarrow> string \<Rightarrow> apply_file_result" where
  "file_result planned rel =
     (case map_of planned rel of
        Some (Planned True _) \<Rightarrow> \<lparr>afr_path = rel, afr_hash = [], afr_deleted = True\<rparr>
      | Some (Planned False c) \<Rightarrow> \<lparr>afr_path = rel, afr_hash = hash_bytes c, afr_deleted = False\<rparr>
      | None \<Rightarrow> \<lparr>afr_path = rel, afr_hash = hash_bytes [], afr_deleted = False\<rparr>)"

text \<open>The function that \<open>Mutate\<close> runs.\<close>

definition apply_locked ::
  "int \<Rightarrow> proposal \<Rightarrow> apply_request \<Rightarrow> apply_options \<Rightarrow> workspace \<Rightarrow> os \<times> apply_result option
    \<Rightarrow> workspace \<times> (os \<times> apply_result option) \<times> go_error option" where
  "apply_locked now prop req opts ws s =
     (case s of (os, result) \<Rightarrow>
      case propose (files os) now ws (prop_change_set prop) (opt_max_bytes opts) of
        Inl e \<Rightarrow>
          (ws, s, Some (case e of
             ProtoError pe \<Rightarrow>
               if err_code pe = FileHashMismatch then must_err WorkspaceFileChanged (err_message pe) else e
           | PlainError _ \<Rightarrow> e))
      | Inr fresh \<Rightarrow>
          if ad_hash (prop_diff fresh) \<noteq> ad_hash (prop_diff prop)
          then (ws, s, Some (must_err DiffMismatch ''workspace changed; diff identity mismatch''))
          else
            let planned = prop_planned prop; paths = sort (map fst planned) in
            case apply_paths ws planned (opt_fail_after opts) paths (os, [], 0) of
              (os1, Some e) \<Rightarrow> (ws, (os1, result), Some e)
            | (os1, None) \<Rightarrow>
                let ws' = ws\<lparr>ws_revision := int64_wrap (ws_revision ws + 1)\<rparr> in
                (ws', (os1, Some \<lparr>res_change_set = ar_change_set req, res_workspace = ws_id ws',
                                  res_revision = ws_revision ws',
                                  res_files = map (file_result planned) paths\<rparr>), None))"

text \<open>From the claim on, with the deferred \<open>AbortApply\<close>.\<close>

definition apply_claimed ::
  "int \<Rightarrow> registry \<Rightarrow> proposal_store \<Rightarrow> apply_request \<Rightarrow> apply_options \<Rightarrow> os
    \<Rightarrow> registry \<times> proposal_store \<times> os \<times> (go_error + apply_result)" where
  "apply_claimed now reg st req opts os =
     (let cs = ar_change_set req in
      case claim_for_apply st cs of
        (st1, Inl e) \<Rightarrow> (reg, st1, os, Inl e)
      | (st1, Inr prop) \<Rightarrow>
          if cs_workspace (prop_change_set prop) \<noteq> ar_workspace req
          then (reg, abort_apply st1 cs, os, Inl (must_err InvalidArgument ''workspace_id mismatch''))
          else if ar_diff_hash req \<noteq> ad_hash (prop_diff prop)
          then (reg, abort_apply st1 cs, os,
                Inl (must_err DiffMismatch ''approved_diff_hash does not match proposal''))
          else
            (case mutate reg (ar_workspace req) (apply_locked now prop req opts) (os, None) of
               (reg1, (os1, _), Some e) \<Rightarrow> (reg1, abort_apply st1 cs, os1, Inl e)
             | (reg1, (os1, result), None) \<Rightarrow>
                 (case finish_apply st1 cs of
                    (st2, Some e) \<Rightarrow> (reg1, abort_apply st2 cs, os1, Inl e)
                  | (st2, None) \<Rightarrow>
                      (case result of
                         Some r \<Rightarrow> (reg1, st2, os1, Inr r)
                       | None \<Rightarrow> (reg1, st2, os1, Inl (PlainError ''nil result''))))))"

definition apply_changes ::
  "int \<Rightarrow> registry option \<Rightarrow> proposal_store option \<Rightarrow> validator option \<Rightarrow> apply_request
    \<Rightarrow> apply_options \<Rightarrow> os \<Rightarrow> registry option \<times> proposal_store option \<times> os \<times> (go_error + apply_result)" where
  "apply_changes now rego sto approval req opts os =
     (case (rego, sto) of
        (Some reg, Some st) \<Rightarrow>
          let approve = (case approval of None \<Rightarrow> local_approval | Some v \<Rightarrow> v) in
          if validate_id KChangeSet (ar_change_set req) \<noteq> None
          then (rego, sto, os, Inl (must_err InvalidArgument ''invalid change_set_id''))
          else (case approve (ar_approval req) (ar_change_set req) (ar_diff_hash req) of
             Some e \<Rightarrow> (rego, sto, os, Inl e)
           | None \<Rightarrow>
               (case apply_claimed now reg st req opts os of
                  (reg1, st1, os1, r) \<Rightarrow> (Some reg1, Some st1, os1, r)))
      | _ \<Rightarrow> (rego, sto, os, Inl (must_err InternalError ''registry/store required'')))"

end
