(* ===== verification/Workspace_Tools.thy ===== *)
theory Workspace_Tools
  imports Tool_Dispatch Workspace_Search Workspace_Apply
begin

text \<open>
  \<open>local-agent/internal/tools/workspace/tools.go\<close>: the handlers of the workspace tools. Their state
  is the registry, the proposals and the operating system; the clock and the random bytes of the
  request are part of it. The copies of \<open>fail\<close> in the tool packages are \<^const>\<open>failed\<close>.
\<close>

section \<open>State and arguments\<close>

record tool_world =
  tw_registry :: registry
  tw_proposals :: "proposal_store option"
  tw_os :: os
  tw_now :: int
  tw_random :: "u8 list option"

record workspace_deps =
  wd_approval :: "validator option"
  wd_max_bytes :: int
  wd_excludes :: "string list"
  wd_max_hits :: int

type_synonym 'w outcome = "('w \<times> tool_response option \<times> go_error option) option"

definition reply :: "'w \<Rightarrow> tool_response \<Rightarrow> 'w outcome" where
  "reply w r = Some (w, Some r, None)"

definition refuse :: "'w \<Rightarrow> go_error \<Rightarrow> 'w outcome" where
  "refuse w e = Some (w, None, Some e)"

definition arguments :: "tool_request \<Rightarrow> jmap" where
  "arguments req = (case req_arguments req of None \<Rightarrow> [] | Some m \<Rightarrow> m)"

definition arg_str :: "tool_request \<Rightarrow> string \<Rightarrow> string" where
  "arg_str req k = get_str (arguments req) k"

definition workspace_required :: "tool_request \<Rightarrow> tool_response" where
  "workspace_required req = failed (req_call_id req) InvalidArgument ''workspace_id required''"

definition jint :: "int \<Rightarrow> json" where
  "jint i = JNum (itoa i)"

section \<open>Reading\<close>

definition enc_read_result :: "read_result \<Rightarrow> json" where
  "enc_read_result r =
     JObj [(''path'', JStr (read_path r)), (''content'', JStr (read_text r)),
           (''hash'', JStr (read_hash r)), (''size'', jint (read_size r))]"

definition read_file_tool :: "workspace_deps \<Rightarrow> tool_world handler" where
  "read_file_tool deps w req =
     (let wid = arg_str req ''workspace_id''; path = arg_str req ''path'' in
      if wid = [] then reply w (workspace_required req)
      else if path = [] then reply w (failed (req_call_id req) InvalidArgument ''path required'')
      else case get_workspace (tw_registry w) wid of
        Inl e \<Rightarrow> refuse w e
      | Inr ws \<Rightarrow>
          (case read_text_file (files (tw_os w)) ws path (wd_max_bytes deps) of
             Inl e \<Rightarrow> refuse w e
           | Inr r \<Rightarrow> reply w (success (req_call_id req) (Some (enc_read_result r)))))"

definition enc_read_entry :: "read_entry \<Rightarrow> json" where
  "enc_read_entry r =
     JObj ([(''path'', JStr (entry_path r)), (''status'', JStr (entry_status r))]
           @ opt_str ''content'' (entry_content r) @ opt_str ''hash'' (entry_hash r)
           @ opt_int ''size'' (entry_size r) @ opt_field ''error'' (map_option enc_error (entry_error r)))"

definition enc_read_files :: "read_files_result \<Rightarrow> json" where
  "enc_read_files r =
     JObj [(''files'', JArr (map enc_read_entry (rf_files r))), (''total'', jint (rf_total r)),
           (''success'', jint (rf_success r)), (''failed'', jint (rf_failed r))]"

text \<open>\<open>stringSliceArg\<close>: an argument decoded from JSON is never a \<open>[]string\<close>.\<close>

fun string_items :: "json list \<Rightarrow> string + string list" where
  "string_items [] = Inr []"
| "string_items (JStr s # vs) =
     (case string_items vs of Inl e \<Rightarrow> Inl e | Inr ss \<Rightarrow> Inr (s # ss))"
| "string_items (_ # vs) = Inl ''paths elements must be strings''"

fun string_slice_arg :: "json \<Rightarrow> string + string list" where
  "string_slice_arg (JArr vs) = (if vs = [] then Inl ''paths required'' else string_items vs)"
| "string_slice_arg _ = Inl ''paths required''"

text \<open>When every path failed, the error of the first entry is the error of the response.\<close>

definition aggregate_error :: "read_files_result \<Rightarrow> string \<Rightarrow> proto_error option" where
  "aggregate_error r status =
     (if status = ''FAILED'' \<and> rf_failed r = rf_total r \<and> rf_total r > 0 then
        (case entry_error (rf_files r ! 0) of
           Some e \<Rightarrow> Some e
         | None \<Rightarrow> (case new_error WorkspaceFileNotFound ''all paths failed'' of Inr e \<Rightarrow> Some e | Inl _ \<Rightarrow> None))
      else None)"

definition read_files_tool :: "workspace_deps \<Rightarrow> tool_world handler" where
  "read_files_tool deps w req =
     (let wid = arg_str req ''workspace_id'' in
      if wid = [] then reply w (workspace_required req)
      else case string_slice_arg (get_any (arguments req) ''paths'') of
        Inl e \<Rightarrow> reply w (failed (req_call_id req) InvalidArgument e)
      | Inr paths \<Rightarrow>
      (case get_workspace (tw_registry w) wid of
         Inl e \<Rightarrow> refuse w e
       | Inr ws \<Rightarrow>
       (case read_text_files (files (tw_os w)) ws paths (wd_max_bytes deps) of
          Inl e \<Rightarrow> refuse w e
        | Inr r \<Rightarrow>
            let status = overall_status (Some r) in
            reply w \<lparr>resp_call_id = req_call_id req, resp_status = status,
                     resp_result = Some (enc_read_files r), resp_error = aggregate_error r status,
                     resp_duration_ms = None\<rparr>)))"

section \<open>Searching\<close>

definition enc_match :: "search_match \<Rightarrow> json" where
  "enc_match m =
     JObj ([(''path'', JStr (sm_path m)), (''kind'', JStr (sm_kind m))]
           @ opt_int ''line'' (sm_line m) @ opt_str ''preview'' (sm_preview m))"

definition enc_search :: "search_result \<Rightarrow> json" where
  "enc_search r =
     JObj [(''query'', JStr (sr_query r)), (''mode'', JStr (sr_mode r)),
           (''matches'', JArr (map enc_match (sr_matches r))), (''truncated'', JBool (sr_truncated r))]"

definition tool_search_options :: "workspace_deps \<Rightarrow> string \<Rightarrow> string \<Rightarrow> search_options" where
  "tool_search_options deps query mode =
     (let opts = (default_search_options query mode)\<lparr>so_max_bytes := wd_max_bytes deps\<rparr>;
          opts = (if wd_excludes deps \<noteq> [] then opts\<lparr>so_exclude := Some (wd_excludes deps)\<rparr> else opts)
      in if wd_max_hits deps > 0 then opts\<lparr>so_max_results := wd_max_hits deps\<rparr> else opts)"

definition search_tool :: "workspace_deps \<Rightarrow> tool_world handler" where
  "search_tool deps w req =
     (let wid = arg_str req ''workspace_id''; query = arg_str req ''query''; mode = arg_str req ''mode'' in
      if wid = [] then reply w (workspace_required req)
      else case get_workspace (tw_registry w) wid of
        Inl e \<Rightarrow> refuse w e
      | Inr ws \<Rightarrow>
          (case search (files (tw_os w)) ws (tool_search_options deps query mode) of
             Inl e \<Rightarrow> refuse w e
           | Inr r \<Rightarrow> reply w (success (req_call_id req) (Some (enc_search r)))))"

section \<open>Proposing\<close>

text \<open>\<open>json.Marshal\<close> writes the keys of a map in order.\<close>

fun marshal_any :: "json \<Rightarrow> json"
  and marshal_fields :: "jmap \<Rightarrow> jmap"
  and marshal_items :: "json list \<Rightarrow> json list" where
  "marshal_any (JObj m) = JObj (sort_key fst (marshal_fields m))"
| "marshal_any (JArr vs) = JArr (marshal_items vs)"
| "marshal_any v = v"
| "marshal_fields [] = []"
| "marshal_fields ((k, v) # m) = (k, marshal_any v) # marshal_fields m"
| "marshal_items [] = []"
| "marshal_items (v # vs) = marshal_any v # marshal_items vs"

definition read_file_change :: "json \<Rightarrow> file_change option" where
  "read_file_change j =
     (case struct_fields j of
        None \<Rightarrow> None
      | Some m \<Rightarrow>
          (case (string_field ''path'' m, string_field ''operation'' m, string_field ''base_hash'' m,
                 string_field ''content'' m, string_field ''target_path'' m) of
             (Some p, Some oper, Some b, Some c, Some t) \<Rightarrow>
               Some \<lparr>fc_path = p, fc_operation = oper, fc_base_hash = b, fc_content = c, fc_target = t\<rparr>
           | _ \<Rightarrow> None))"

definition read_change_set :: "json \<Rightarrow> change_set option" where
  "read_change_set j =
     (case struct_fields j of
        None \<Rightarrow> None
      | Some m \<Rightarrow>
          (case (string_field ''change_set_id'' m, string_field ''workspace_id'' m,
                 string_field ''base_workspace_revision'' m,
                 assign_slice read_file_change [] (field_values ''changes'' m)) of
             (Some i, Some wid, Some b, Some cs) \<Rightarrow>
               Some \<lparr>cs_id = i, cs_workspace = wid, cs_base_revision = b, cs_changes = cs\<rparr>
           | _ \<Rightarrow> None))"

text \<open>A single change given by the arguments themselves.\<close>

definition flat_change :: "jmap \<Rightarrow> file_change list" where
  "flat_change args =
     (let path = get_str args ''path'' in
      if path = [] then []
      else [\<lparr>fc_path = path, fc_operation = get_str args ''operation'', fc_base_hash = [],
             fc_content = get_str args ''content'', fc_target = []\<rparr>])"

definition resolve_propose_workspace :: "registry option \<Rightarrow> string \<Rightarrow> go_error + workspace" where
  "resolve_propose_workspace rego wid =
     (case rego of
        None \<Rightarrow> Inl (PlainError ''workspace registry is required'')
      | Some reg \<Rightarrow>
          if validate_id KWorkspace wid = None then get_workspace reg wid else sole (Some reg))"

fun fill_base_hashes :: "fs \<Rightarrow> workspace \<Rightarrow> int \<Rightarrow> file_change list \<Rightarrow> go_error + file_change list" where
  "fill_base_hashes fs ws max_bytes [] = Inr []"
| "fill_base_hashes fs ws max_bytes (c # cs) =
     (let oper = to_upper (fc_operation c); oper = (if oper = [] then op_modify else oper); c = c\<lparr>fc_operation := oper\<rparr>;
          filled = (if oper \<notin> {op_modify, op_delete, op_rename} \<or> fc_base_hash c \<noteq> [] then Inr c
                    else case read_text_file fs ws (fc_path c) max_bytes of
                      Inl e \<Rightarrow> Inl e
                    | Inr r \<Rightarrow> Inr (c\<lparr>fc_base_hash := read_hash r\<rparr>))
      in case filled of
           Inl e \<Rightarrow> Inl e
         | Inr c1 \<Rightarrow>
             (case fill_base_hashes fs ws max_bytes cs of Inl e \<Rightarrow> Inl e | Inr cs1 \<Rightarrow> Inr (c1 # cs1)))"

text \<open>\<open>None\<close> is the panic of \<open>MustNew\<close> without random bytes.\<close>

definition parse_proposed_change_set ::
  "jmap option \<Rightarrow> registry option \<Rightarrow> int \<Rightarrow> tool_world \<Rightarrow> (go_error + change_set) option" where
  "parse_proposed_change_set argso rego max_bytes w =
     (case argso of
        None \<Rightarrow> Some (Inl (PlainError ''arguments required''))
      | Some args \<Rightarrow>
      (case read_change_set (marshal_any (JObj args)) of
         None \<Rightarrow> Some (Inl (PlainError ''invalid proposed change set''))
       | Some cs0 \<Rightarrow>
           let changes = (if cs_changes cs0 = [] then flat_change args else cs_changes cs0) in
           (case resolve_propose_workspace rego (cs_workspace cs0) of
              Inl e \<Rightarrow> Some (Inl e)
            | Inr ws \<Rightarrow>
            (case (if validate_id KChangeSet (cs_id cs0) = None then Inr (cs_id cs0)
                   else new_id KChangeSet (tw_random w) (tw_now w)) of
               Inl _ \<Rightarrow> None
             | Inr i \<Rightarrow>
                 Some (case fill_base_hashes (files (tw_os w)) ws max_bytes changes of
                    Inl e \<Rightarrow> Inl e
                  | Inr filled \<Rightarrow>
                      Inr (cs0\<lparr>cs_id := i, cs_workspace := ws_id ws, cs_changes := filled\<rparr>))))))"

definition enc_change :: "file_change \<Rightarrow> json" where
  "enc_change c =
     JObj ([(''path'', JStr (fc_path c)), (''operation'', JStr (fc_operation c))] @ opt_str ''base_hash'' (fc_base_hash c)
           @ opt_str ''content'' (fc_content c) @ opt_str ''target_path'' (fc_target c))"

definition enc_proposal :: "proposal \<Rightarrow> json" where
  "enc_proposal p =
     (let cs = prop_change_set p in
      JObj ([(''change_set_id'', JStr (cs_id cs)), (''workspace_id'', JStr (cs_workspace cs))]
            @ opt_str ''base_workspace_revision'' (cs_base_revision cs)
            @ [(''diff'', JStr (ad_diff (prop_diff p))), (''diff_hash'', JStr (ad_hash (prop_diff p))),
               (''changes'', JArr (map enc_change (cs_changes cs)))]))"

definition propose_tool :: "workspace_deps \<Rightarrow> tool_world handler" where
  "propose_tool deps w req =
     (case parse_proposed_change_set (req_arguments req) (Some (tw_registry w)) (wd_max_bytes deps) w of
        None \<Rightarrow> None
      | Some (Inl (ProtoError e)) \<Rightarrow> refuse w (ProtoError e)
      | Some (Inl (PlainError s)) \<Rightarrow> reply w (failed (req_call_id req) InvalidArgument s)
      | Some (Inr cs) \<Rightarrow>
      (case get_workspace (tw_registry w) (cs_workspace cs) of
         Inl e \<Rightarrow> refuse w e
       | Inr ws \<Rightarrow>
       (case propose (files (tw_os w)) (tw_now w) ws cs (wd_max_bytes deps) of
          Inl e \<Rightarrow> refuse w e
        | Inr p \<Rightarrow>
            reply (w\<lparr>tw_proposals := map_option (put_proposal p) (tw_proposals w)\<rparr>)
              (success (req_call_id req) (Some (enc_proposal p))))))"

section \<open>Applying\<close>

definition enc_file_result :: "apply_file_result \<Rightarrow> json" where
  "enc_file_result r =
     JObj ([(''path'', JStr (afr_path r))] @ opt_str ''hash'' (afr_hash r)
           @ (if afr_deleted r then [(''deleted'', JBool True)] else []))"

definition enc_apply_result :: "apply_result \<Rightarrow> json" where
  "enc_apply_result r =
     JObj [(''change_set_id'', JStr (res_change_set r)), (''workspace_id'', JStr (res_workspace r)),
           (''workspace_revision'', jint (res_revision r)),
           (''files'', JArr (map enc_file_result (res_files r)))]"

definition apply_tool :: "workspace_deps \<Rightarrow> tool_world handler" where
  "apply_tool deps w req =
     (let csid = arg_str req ''change_set_id''; wid = arg_str req ''workspace_id'' in
      if csid = [] \<or> wid = []
      then reply w (failed (req_call_id req) InvalidArgument ''change_set_id and workspace_id required'')
      else
        let approval = (case wd_approval deps of None \<Rightarrow> local_approval | Some v \<Rightarrow> v) in
        case apply_changes (tw_now w) (Some (tw_registry w)) (tw_proposals w) (Some approval)
               \<lparr>ar_change_set = csid, ar_workspace = wid, ar_approval = arg_str req ''approval_id'',
                ar_diff_hash = arg_str req ''approved_diff_hash''\<rparr>
               \<lparr>opt_max_bytes = wd_max_bytes deps, opt_fail_after = 0\<rparr> (tw_os w) of
          (rego, sto, os, r) \<Rightarrow>
            let w1 = w\<lparr>tw_registry := (case rego of Some reg \<Rightarrow> reg | None \<Rightarrow> tw_registry w),
                       tw_proposals := sto, tw_os := os\<rparr>
            in (case r of
                  Inl e \<Rightarrow> refuse w1 e
                | Inr res \<Rightarrow> reply w1 (success (req_call_id req) (Some (enc_apply_result res)))))"

definition register_workspace_tools :: "workspace_deps \<Rightarrow> tool_world tool_registry \<Rightarrow> tool_world tool_registry" where
  "register_workspace_tools deps reg =
     register_tool ''workspace.apply_changes'' (apply_tool deps)
       (register_tool ''workspace.propose_changes'' (propose_tool deps)
         (register_tool ''workspace.search'' (search_tool deps)
           (register_tool ''workspace.read_files'' (read_files_tool deps)
             (register_tool ''workspace.read_file'' (read_file_tool deps) reg))))"

end
