(* ===== verification/Process_Runner.thy ===== *)
theory Process_Runner
  imports Workspace_Registry
begin

text \<open>
  \<open>local-agent/internal/process/runner.go\<close>: running a child process without a shell. What the
  child does (the writes to its pipes, the way it ends, its changes to the file system, the
  \<open>LookPath\<close> of its name) is the operating system's and an argument of the model; the bounded
  buffers, the time limit and the outcome are the runner's.
\<close>

section \<open>The machine\<close>

text \<open>\<open>runCtx.Err()\<close> when the child has ended, and the error of \<open>cmd.Run\<close>.\<close>

datatype ctx_error = Deadline_exceeded | Canceled

datatype run_error = Exit_error int | Run_error string

record command =
  cmd_dir :: path
  cmd_path :: string
  cmd_args :: "string list"
  cmd_timeout :: int

record child =
  ch_stdout :: "string list"
  ch_stderr :: "string list"
  ch_ctx :: "ctx_error option"
  ch_error :: "run_error option"
  ch_state :: "int option"
  ch_millis :: int

record machine =
  mc_exec :: "command \<Rightarrow> os \<Rightarrow> os \<times> child"
  mc_look_path :: "string \<Rightarrow> string option"
  mc_cwd :: path

section \<open>Bounded buffers\<close>

definition default_max_log_bytes :: int where
  "default_max_log_bytes = 256 * 1024"

record limited_buffer =
  lb_buf :: string
  lb_max :: int

definition buffer_write :: "limited_buffer \<Rightarrow> string \<Rightarrow> limited_buffer \<times> int" where
  "buffer_write l p =
     (let remain = lb_max l - int (length (lb_buf l)) in
      if remain \<le> 0 then (l, int (length p))
      else if int (length p) > remain
      then (l\<lparr>lb_buf := lb_buf l @ take (nat remain) p\<rparr>, int (length p))
      else (l\<lparr>lb_buf := lb_buf l @ p\<rparr>, int (length p)))"

fun buffer_writes :: "limited_buffer \<Rightarrow> string list \<Rightarrow> limited_buffer \<times> int list" where
  "buffer_writes l [] = (l, [])"
| "buffer_writes l (p # ps) =
     (case buffer_write l p of (l1, n) \<Rightarrow>
      case buffer_writes l1 ps of (l2, ns) \<Rightarrow> (l2, n # ns))"

definition collect :: "int \<Rightarrow> string list \<Rightarrow> string" where
  "collect mx ps = lb_buf (fst (buffer_writes \<lparr>lb_buf = [], lb_max = mx\<rparr> ps))"

section \<open>Run\<close>

record proc_options =
  po_dir :: string
  po_path :: string
  po_args :: "string list"
  po_timeout :: int
  po_max_log :: int

record proc_result =
  pr_exit_code :: int
  pr_duration_ms :: int
  pr_stdout :: string
  pr_stderr :: string
  pr_timed_out :: bool
  pr_cancelled :: bool

definition second :: int where
  "second = 1000000000"

text \<open>What the end of the child means.\<close>

definition run_outcome :: "child \<Rightarrow> proc_result \<Rightarrow> string + proc_result" where
  "run_outcome ch res =
     (case ch_ctx ch of
        Some Deadline_exceeded \<Rightarrow>
          Inr (res\<lparr>pr_timed_out := True,
                   pr_exit_code := (case ch_state ch of None \<Rightarrow> - 1 | Some c \<Rightarrow> c)\<rparr>)
      | Some Canceled \<Rightarrow> Inr (res\<lparr>pr_cancelled := True, pr_exit_code := - 1\<rparr>)
      | None \<Rightarrow>
          (case ch_error ch of
             Some (Exit_error c) \<Rightarrow> Inr (res\<lparr>pr_exit_code := c\<rparr>)
           | Some (Run_error e) \<Rightarrow> Inl e
           | None \<Rightarrow> Inr (res\<lparr>pr_exit_code := 0\<rparr>)))"

definition run_process :: "machine \<Rightarrow> proc_options \<Rightarrow> os \<Rightarrow> os \<times> (string + proc_result)" where
  "run_process mc opts os =
     (if po_path opts = [] then (os, Inl ''executable path required'')
      else if po_dir opts = [] then (os, Inl ''working directory required'')
      else
        let dir = abs_path (mc_cwd mc) (po_dir opts) in
        if stat (files os) dir \<noteq> Inr Dir
        then (os, Inl (''working directory invalid: '' @ path_string dir))
        else
          let max_log = (if po_max_log opts \<le> 0 then default_max_log_bytes else po_max_log opts);
              timeout = (if po_timeout opts \<le> 0 then 600 * second else po_timeout opts)
          in case mc_exec mc \<lparr>cmd_dir = dir, cmd_path = po_path opts, cmd_args = po_args opts,
                              cmd_timeout = timeout\<rparr> os of
               (os1, ch) \<Rightarrow>
                 (os1, run_outcome ch
                    \<lparr>pr_exit_code = 0, pr_duration_ms = ch_millis ch,
                     pr_stdout = collect max_log (ch_stdout ch),
                     pr_stderr = collect max_log (ch_stderr ch),
                     pr_timed_out = False, pr_cancelled = False\<rparr>))"

section \<open>Summaries of logs\<close>

definition truncated_mark :: string where
  "truncated_mark = newline # ''...[truncated]...'' @ [newline]"

definition summary :: "string \<Rightarrow> int \<Rightarrow> string" where
  "summary s mx0 =
     (let mx = (if mx0 \<le> 0 then 4000 else mx0) in
      if int (length s) \<le> mx then s
      else let half = nat (mx div 2) in take half s @ truncated_mark @ drop (length s - half) s)"

section \<open>Properties\<close>

lemma buffer_write_keeps: "lb_max (fst (buffer_write l p)) = lb_max l" "snd (buffer_write l p) = int (length p)"
  by (simp_all add: buffer_write_def Let_def)

lemma buffer_write_clip:
  "lb_buf l = clip (lb_max l) s \<Longrightarrow> lb_buf (fst (buffer_write l p)) = clip (lb_max l) (s @ p)"
  by (auto simp: buffer_write_def clip_take Let_def min_def take_all nat_le_iff nat_diff_distrib'
      split: if_splits)

lemma buffer_writes_clip:
  "lb_buf l = clip (lb_max l) s \<Longrightarrow>
    buffer_writes l ps = (l\<lparr>lb_buf := clip (lb_max l) (s @ concat ps)\<rparr>, map (\<lambda>p. int (length p)) ps)"
proof (induction ps arbitrary: l s)
  case (Cons p ps)
  obtain l1 n where w: "buffer_write l p = (l1, n)" by fastforce
  with buffer_write_keeps [of l p] buffer_write_clip [OF Cons.prems, of p]
  have l1: "lb_max l1 = lb_max l" "n = int (length p)" "lb_buf l1 = clip (lb_max l1) (s @ p)" by simp_all
  then have "l1\<lparr>lb_buf := b\<rparr> = l\<lparr>lb_buf := b\<rparr>" for b by (cases l; cases l1) simp
  with w l1 Cons.IH [OF l1(3)] show ?case by simp
qed simp

lemma collect_take: "collect mx ps = take (nat mx) (concat ps)"
  by (simp add: collect_def buffer_writes_clip [where s = "[]"] clip_take)

text \<open>
  C37. The bounded buffer of a child's output implements its abstract contract: after any sequence
  of writes, cut as the pipe happens to cut them, it holds exactly the first \<open>max\<close> bytes of what was
  written, and every write reports all its bytes, so that the child never sees a short write.
\<close>

theorem limited_buffer_refines:
  "buffer_writes \<lparr>lb_buf = [], lb_max = mx\<rparr> ps
    = (\<lparr>lb_buf = take (nat mx) (concat ps), lb_max = mx\<rparr>, map (\<lambda>p. int (length p)) ps)"
  by (simp add: buffer_writes_clip [where s = "[]"] clip_take)

lemma length_truncated_mark: "length truncated_mark = 19"
  by code_simp

text \<open>
  A summary that had to be cut keeps the first and the last half of its limit around the mark: it
  is up to 19 bytes longer than the limit.
\<close>

lemma summary_cut:
  assumes "0 < mx" "mx < int (length s)"
  shows "summary s mx = take (nat (mx div 2)) s @ truncated_mark @ drop (length s - nat (mx div 2)) s"
    "int (length (summary s mx)) = 2 * (mx div 2) + 19"
  using assms by (auto simp: summary_def Let_def length_truncated_mark min_def)

lemma run_outcome_keeps:
  "run_outcome ch r = Inr res \<Longrightarrow>
    pr_stdout res = pr_stdout r \<and> pr_stderr res = pr_stderr r \<and> pr_duration_ms res = pr_duration_ms r"
  by (auto simp: run_outcome_def split: option.splits ctx_error.splits run_error.splits)

definition log_limit :: "proc_options \<Rightarrow> int" where
  "log_limit opts = (if po_max_log opts \<le> 0 then default_max_log_bytes else po_max_log opts)"

lemma run_process_result:
  assumes "run_process mc opts os = (os', Inr res)"
  obtains cmd ch where "mc_exec mc cmd os = (os', ch)" "pr_duration_ms res = ch_millis ch"
    "pr_stdout res = take (nat (log_limit opts)) (concat (ch_stdout ch))"
    "pr_stderr res = take (nat (log_limit opts)) (concat (ch_stderr ch))"
proof -
  obtain cmd ch r where "mc_exec mc cmd os = (os', ch)" "run_outcome ch r = Inr res"
    "pr_duration_ms r = ch_millis ch" "pr_stdout r = collect (log_limit opts) (ch_stdout ch)"
    "pr_stderr r = collect (log_limit opts) (ch_stderr ch)"
    using assms that by (auto simp: run_process_def log_limit_def Let_def split: if_splits prod.splits)
  with run_outcome_keeps [of ch r res] that show thesis by (simp add: collect_take)
qed

end
