(* ===== verification/Maven.thy ===== *)
theory Maven
  imports Process_Runner
begin

text \<open>
  \<open>local-agent/internal/maven/maven.go\<close> with the requests and results of packages \<open>build\<close> and
  \<open>testrun\<close>: detecting a Maven project, choosing the executable, running a build or the tests, and
  reading the counts of Surefire from the log. Only the Unix branch is modelled.
\<close>

section \<open>Adapters\<close>

record build_result =
  br_status :: string
  br_exit_code :: int
  br_duration_ms :: int
  br_stdout :: string
  br_stderr :: string
  br_diagnostics :: "string list"
  br_tool :: string
  br_command :: "string list"

record test_result =
  tr_status :: string
  tr_exit_code :: int
  tr_duration_ms :: int
  tr_total :: int
  tr_passed :: int
  tr_failed :: int
  tr_skipped :: int
  tr_stdout :: string
  tr_stderr :: string
  tr_tool :: string
  tr_command :: "string list"

text \<open>The interface \<open>Adapter\<close> of both packages, with result type \<open>'r\<close>.\<close>

record 'r adapter =
  ad_name :: string
  ad_detect :: "fs \<Rightarrow> path \<Rightarrow> bool"
  ad_run :: "machine \<Rightarrow> path \<Rightarrow> int \<Rightarrow> os \<Rightarrow> os \<times> (go_error + 'r)"

section \<open>The executable\<close>

definition maven_name :: string where
  "maven_name = ''maven''"

definition detect :: "fs \<Rightarrow> path \<Rightarrow> bool" where
  "detect fs root \<longleftrightarrow> is_ok (stat fs (join_path root ''pom.xml''))"

definition resolve_executable :: "machine \<Rightarrow> fs \<Rightarrow> path \<Rightarrow> go_error + string" where
  "resolve_executable mc fs root =
     (let unix = join_path root ''mvnw'' in
      if is_ok (stat fs unix) then Inr (path_string unix)
      else case mc_look_path mc ''mvn'' of
        None \<Rightarrow> Inl (must_err BuildToolNotFound ''maven wrapper and mvn not found'')
      | Some p \<Rightarrow> Inr p)"

section \<open>Surefire counts\<close>

text \<open>
  The regular expression: the literal parts, runs of white space and groups of digits follow one
  another without a choice, so its leftmost match is found by trying every position in turn.
\<close>

definition re_space :: "char \<Rightarrow> bool" where
  "re_space c \<longleftrightarrow> c \<in> {CHR 0x09, CHR 0x0A, CHR 0x0C, CHR 0x0D, CHR 0x20}"

definition is_digit :: "char \<Rightarrow> bool" where
  "is_digit c \<longleftrightarrow> digit_val c \<noteq> None"

definition count_group :: "string \<Rightarrow> string \<Rightarrow> (string \<times> string) option" where
  "count_group label s =
     (if \<not> has_prefix s label then None
      else
        let r = dropWhile re_space (drop (length label) s); ds = takeWhile is_digit r in
        if ds = [] then None else Some (ds, drop (length ds) r))"

text \<open>The groups after the first are preceded by a comma and white space.\<close>

fun comma_groups :: "string list \<Rightarrow> string \<Rightarrow> string list option" where
  "comma_groups [] s = Some []"
| "comma_groups (l # ls) s =
     (if \<not> has_prefix s '','' then None
      else case count_group l (dropWhile re_space (drop 1 s)) of
        None \<Rightarrow> None
      | Some (ds, r) \<Rightarrow> map_option ((#) ds) (comma_groups ls r))"

definition surefire_at :: "string \<Rightarrow> string list option" where
  "surefire_at s =
     (case count_group ''Tests run:'' s of
        None \<Rightarrow> None
      | Some (ds, r) \<Rightarrow> map_option ((#) ds) (comma_groups [''Failures:'', ''Errors:'', ''Skipped:''] r))"

fun find_submatch :: "string \<Rightarrow> string list option" where
  "find_submatch [] = surefire_at []"
| "find_submatch (c # s) =
     (case surefire_at (c # s) of Some m \<Rightarrow> Some m | None \<Rightarrow> find_submatch s)"

text \<open>\<open>strconv.Atoi\<close> of digits with the error ignored: a value out of range is the largest one.\<close>

definition atoi_digits :: "string \<Rightarrow> int" where
  "atoi_digits ds =
     (case digits_val 0 ds of None \<Rightarrow> 0 | Some n \<Rightarrow> if int n < 2 ^ 63 then int n else 2 ^ 63 - 1)"

definition parse_surefire :: "string \<Rightarrow> int \<times> int \<times> int \<times> int" where
  "parse_surefire log =
     (case find_submatch log of
        Some [a, b, c, d] \<Rightarrow> (atoi_digits a, atoi_digits b, atoi_digits c, atoi_digits d)
      | _ \<Rightarrow> (0, 0, 0, 0))"

section \<open>Runs\<close>

definition status_of :: "proc_result \<Rightarrow> string" where
  "status_of pr =
     (if pr_timed_out pr then ''TIMEOUT''
      else if pr_cancelled pr then ''CANCELLED''
      else if pr_exit_code pr = 0 then ''SUCCESS''
      else ''FAILED'')"

definition duration_ms :: "int \<Rightarrow> int \<Rightarrow> int" where
  "duration_ms ms def = (if ms \<le> 0 then def else int64_wrap (ms * 1000000))"

definition wrap_internal :: "string \<Rightarrow> go_error" where
  "wrap_internal s = (case new_error InternalError s of Inl _ \<Rightarrow> PlainError s | Inr e \<Rightarrow> ProtoError e)"

definition maven_options :: "path \<Rightarrow> string \<Rightarrow> string list \<Rightarrow> int \<Rightarrow> proc_options" where
  "maven_options root exe args timeout =
     \<lparr>po_dir = path_string root, po_path = exe, po_args = args, po_timeout = timeout, po_max_log = 0\<rparr>"

definition build_run :: "machine \<Rightarrow> path \<Rightarrow> int \<Rightarrow> os \<Rightarrow> os \<times> (go_error + build_result)" where
  "build_run mc root timeout_ms os =
     (case resolve_executable mc (files os) root of
        Inl e \<Rightarrow> (os, Inl e)
      | Inr exe \<Rightarrow>
          let args = [''-B'', ''-DskipTests'', ''compile'']; timeout = duration_ms timeout_ms (600 * second) in
          (case run_process mc (maven_options root exe args timeout) os of
             (os1, Inl e) \<Rightarrow> (os1, Inl (wrap_internal e))
           | (os1, Inr pr) \<Rightarrow>
               let status = status_of pr in
               (os1, Inr \<lparr>br_status = status, br_exit_code = pr_exit_code pr, br_duration_ms = pr_duration_ms pr,
                          br_stdout = summary (pr_stdout pr) 4000, br_stderr = summary (pr_stderr pr) 4000,
                          br_diagnostics = (if status = ''FAILED'' then [''maven compile failed''] else []),
                          br_tool = maven_name, br_command = exe # args\<rparr>)))"

definition test_run :: "machine \<Rightarrow> path \<Rightarrow> int \<Rightarrow> os \<Rightarrow> os \<times> (go_error + test_result)" where
  "test_run mc root timeout_ms os =
     (case resolve_executable mc (files os) root of
        Inl e \<Rightarrow> (os, Inl e)
      | Inr exe \<Rightarrow>
          let args = [''-B'', ''test'']; timeout = duration_ms timeout_ms (900 * second) in
          (case run_process mc (maven_options root exe args timeout) os of
             (os1, Inl e) \<Rightarrow> (os1, Inl (wrap_internal e))
           | (os1, Inr pr) \<Rightarrow>
               (case parse_surefire (pr_stdout pr @ newline # pr_stderr pr) of
                  (tot, failed, errors, skipped) \<Rightarrow>
                    let passed = int64_wrap (tot - failed - errors - skipped);
                        out = \<lparr>tr_status = status_of pr, tr_exit_code = pr_exit_code pr,
                               tr_duration_ms = pr_duration_ms pr, tr_total = tot,
                               tr_passed = (if passed < 0 then 0 else passed),
                               tr_failed = int64_wrap (failed + errors), tr_skipped = skipped,
                               tr_stdout = summary (pr_stdout pr) 4000, tr_stderr = summary (pr_stderr pr) 4000,
                               tr_tool = maven_name, tr_command = exe # args\<rparr>
                    in (os1, Inr (if tr_failed out > 0 \<and> tr_status out = ''SUCCESS''
                                  then out\<lparr>tr_status := ''FAILED''\<rparr> else out)))))"

definition maven_build :: "build_result adapter" where
  "maven_build = \<lparr>ad_name = maven_name, ad_detect = detect, ad_run = build_run\<rparr>"

definition maven_test :: "test_result adapter" where
  "maven_test = \<lparr>ad_name = maven_name, ad_detect = detect, ad_run = test_run\<rparr>"

section \<open>Reading the counts\<close>

text \<open>The line that Surefire prints, per class and again at the end.\<close>

definition surefire_line :: "nat \<Rightarrow> nat \<Rightarrow> nat \<Rightarrow> nat \<Rightarrow> string" where
  "surefire_line a b c d =
     ''Tests run: '' @ nat_digits a @ '', Failures: '' @ nat_digits b @ '', Errors: '' @ nat_digits c
       @ '', Skipped: '' @ nat_digits d"

definition no_digit :: "string \<Rightarrow> bool" where
  "no_digit s \<longleftrightarrow> s = [] \<or> \<not> is_digit (hd s)"

lemma digits_are_digits: "c \<in> set (nat_digits n) \<Longrightarrow> is_digit c"
  using set_nat_digits [of c n] by (auto simp: is_digit_def)

lemma is_digit_no_space: "is_digit c \<Longrightarrow> \<not> re_space c"
  by (auto simp: is_digit_def re_space_def digit_val_def split: if_splits)

lemma count_group_line:
  assumes "no_digit r"
  shows "count_group l (l @ CHR 0x20 # nat_digits n @ r) = Some (nat_digits n, r)"
proof -
  obtain c ds where ds: "nat_digits n = c # ds" by (cases "nat_digits n") auto
  then have c: "is_digit c" using digits_are_digits [of c n] by simp
  have "takeWhile is_digit (nat_digits n @ r) = nat_digits n"
    using assms digits_are_digits by (cases r) (auto simp: no_digit_def takeWhile_append)
  moreover have "dropWhile re_space (CHR 0x20 # nat_digits n @ r) = nat_digits n @ r"
    using ds is_digit_no_space [OF c] by (simp add: re_space_def)
  ultimately show ?thesis by (simp add: count_group_def has_prefix_def Let_def)
qed

lemma comma_group_line:
  assumes "no_digit r" "l \<noteq> []" "\<not> re_space (hd l)"
  shows "comma_groups (l # ls) (CHR '','' # CHR 0x20 # l @ CHR 0x20 # nat_digits n @ r)
    = map_option ((#) (nat_digits n)) (comma_groups ls r)"
proof -
  have "dropWhile re_space (CHR 0x20 # l @ t) = l @ t" for t
    using assms(2,3) by (cases l) (auto simp: re_space_def)
  with count_group_line [OF assms(1), of l n] show ?thesis by (simp add: has_prefix_def)
qed

lemma comma_no_digit [simp]: "no_digit (CHR '','' # s)"
  by (simp add: no_digit_def is_digit_def digit_val_def)

lemma surefire_line_at:
  assumes "no_digit r"
  shows "surefire_at (surefire_line a b c d @ r) = Some [nat_digits a, nat_digits b, nat_digits c, nat_digits d]"
proof -
  let ?C = "CHR '','' # CHR 0x20 # ''Skipped:'' @ CHR 0x20 # nat_digits d @ r"
  let ?B = "CHR '','' # CHR 0x20 # ''Errors:'' @ CHR 0x20 # nat_digits c @ ?C"
  let ?A = "CHR '','' # CHR 0x20 # ''Failures:'' @ CHR 0x20 # nat_digits b @ ?B"
  have line: "surefire_line a b c d @ r = ''Tests run:'' @ CHR 0x20 # nat_digits a @ ?A"
    by (simp add: surefire_line_def)
  have "comma_groups [''Skipped:''] ?C = Some [nat_digits d]"
    using comma_group_line [OF assms, of "''Skipped:''" "[]" d] by (simp add: re_space_def)
  moreover have "comma_groups [''Errors:'', ''Skipped:''] ?B
      = map_option ((#) (nat_digits c)) (comma_groups [''Skipped:''] ?C)"
    by (rule comma_group_line) (simp_all add: re_space_def)
  moreover have "comma_groups [''Failures:'', ''Errors:'', ''Skipped:''] ?A
      = map_option ((#) (nat_digits b)) (comma_groups [''Errors:'', ''Skipped:''] ?B)"
    by (rule comma_group_line) (simp_all add: re_space_def)
  moreover have "count_group ''Tests run:'' (''Tests run:'' @ CHR 0x20 # nat_digits a @ ?A) = Some (nat_digits a, ?A)"
    by (rule count_group_line) simp
  ultimately show ?thesis unfolding line surefire_at_def by (simp del: comma_groups.simps)
qed

lemma find_submatch_first:
  "index_str log ''Tests run:'' = Some i \<Longrightarrow> surefire_at (drop i log) = Some m \<Longrightarrow> find_submatch log = Some m"
proof (induction log arbitrary: i)
  case (Cons c s)
  show ?case
  proof (cases "has_prefix (c # s) ''Tests run:''")
    case True
    with Cons.prems show ?thesis by simp
  next
    case False
    with Cons.prems obtain j where j: "index_str s ''Tests run:'' = Some j" "i = Suc j" by auto
    from False have "surefire_at (c # s) = None" by (simp add: surefire_at_def count_group_def)
    with Cons.IH [OF j(1)] Cons.prems(2) j(2) show ?thesis by simp
  qed
qed simp

lemma atoi_nat_digits: "int n < 2 ^ 63 \<Longrightarrow> atoi_digits (nat_digits n) = int n"
  by (simp add: atoi_digits_def digits_val_nat_digits)

text \<open>
  C39. The counts are read back from the line that Surefire prints, and from the first such line of
  the log: whatever comes before it without the words, and whatever comes after it, the lines of the
  other test classes and the final total included.
\<close>

theorem parse_surefire_first_line:
  assumes "index_str log ''Tests run:'' = Some i" "drop i log = surefire_line a b c d @ rest" "no_digit rest"
    and "int a < 2 ^ 63" "int b < 2 ^ 63" "int c < 2 ^ 63" "int d < 2 ^ 63"
  shows "parse_surefire log = (int a, int b, int c, int d)"
  using find_submatch_first [OF assms(1)] surefire_line_at [OF assms(3)] assms(2,4-)
  by (simp add: parse_surefire_def atoi_nat_digits)

theorem parse_surefire_first_line_witness:
  "parse_surefire (''[INFO] '' @ surefire_line 1 0 0 0 @ newline # ''[INFO] '' @ surefire_line 3 1 0 0)
    = (1, 0, 0, 0)"
proof -
  have "index_str (''[INFO] '' @ surefire_line 1 0 0 0 @ newline # ''[INFO] '' @ surefire_line 3 1 0 0)
      ''Tests run:'' = Some 7" by code_simp
  moreover have "no_digit (newline # ''[INFO] '' @ surefire_line 3 1 0 0)" by code_simp
  ultimately show ?thesis
    using parse_surefire_first_line [of _ 7 1 0 0 0 "newline # ''[INFO] '' @ surefire_line 3 1 0 0"] by simp
qed

text \<open>
  Without the words there are no counts, and a run that ended well is then a success of no tests.
\<close>

lemma parse_surefire_none: "index_str log ''Tests run:'' = None \<Longrightarrow> parse_surefire log = (0, 0, 0, 0)"
proof -
  have "index_str log ''Tests run:'' = None \<Longrightarrow> find_submatch log = None"
    by (induction log) (auto simp: surefire_at_def count_group_def has_prefix_def split: if_splits)
  then show "index_str log ''Tests run:'' = None \<Longrightarrow> parse_surefire log = (0, 0, 0, 0)"
    by (simp add: parse_surefire_def)
qed

section \<open>Properties of the runs\<close>

lemma wrap_internal_eq: "wrap_internal s = must_err InternalError s"
  by (simp add: wrap_internal_def must_err_def new_error_def)

lemma test_run_success:
  assumes "test_run mc root t os = (os', Inr r)" "tr_status r = ''SUCCESS''"
  shows "tr_exit_code r = 0 \<and> tr_failed r \<le> 0"
  using assms
  by (auto simp: test_run_def status_of_def Let_def split: sum.splits prod.splits if_splits)

end
