(* ===== verification/Git_Ops.thy ===== *)
theory Git_Ops
  imports Process_Runner Workspace_Path
begin

text \<open>
  \<open>local-agent/internal/gitops/git.go\<close>: the status and the diff of a work tree, read from the
  output of the \<open>git\<close> program, which is a child process of the machine.
\<close>

section \<open>Results\<close>

record status_result =
  gs_branch :: string
  gs_head :: string
  gs_changed :: "string list"
  gs_staged :: "string list"
  gs_untracked :: "string list"

record git_diff_result =
  gd_diff :: string
  gd_staged :: bool
  gd_path :: string

section \<open>Running git\<close>

definition ensure_available :: "machine \<Rightarrow> fs \<Rightarrow> path \<Rightarrow> go_error option" where
  "ensure_available mc fs root =
     (if mc_look_path mc ''git'' = None then Some (must_err GitNotAvailable ''git executable not found'')
      else if \<not> is_ok (stat fs (join_path root ''.git''))
      then Some (must_err GitNotAvailable ''workspace is not a git repository'')
      else None)"

definition exit_message :: "proc_result \<Rightarrow> string" where
  "exit_message res =
     (let msg = trim_space (pr_stderr res);
          msg = (if msg = [] then trim_space (pr_stdout res) else msg)
      in if msg = [] then ''git exit '' @ itoa (pr_exit_code res) else msg)"

definition git_out :: "machine \<Rightarrow> path \<Rightarrow> string list \<Rightarrow> os \<Rightarrow> os \<times> (go_error + string)" where
  "git_out mc root args os =
     (case run_process mc \<lparr>po_dir = path_string root, po_path = ''git'', po_args = args,
                           po_timeout = 60 * second, po_max_log = 0\<rparr> os of
        (os1, Inl e) \<Rightarrow> (os1, Inl (must_err InternalError e))
      | (os1, Inr res) \<Rightarrow>
          (os1,
           if pr_timed_out res then Inl (must_err ProcessTimeout ''git timed out'')
           else if pr_cancelled res then Inl (must_err ProcessCancelled ''git cancelled'')
           else if pr_exit_code res \<noteq> 0 then Inl (must_err GitNotAvailable (exit_message res))
           else Inr (pr_stdout res)))"

section \<open>Porcelain output\<close>

definition add_new :: "string \<Rightarrow> string list \<Rightarrow> string list" where
  "add_new p ps = (if p \<in> set ps then ps else ps @ [p])"

text \<open>The path of a line: after the arrow of a rename or copy.\<close>

definition arrow :: string where
  "arrow = '' -> ''"

definition line_path :: "string \<Rightarrow> string" where
  "line_path rest =
     (let part = (if has_prefix rest '' '' then drop 1 rest else rest); part = trim_space part in
      case index_str part arrow of None \<Rightarrow> part | Some i \<Rightarrow> drop (i + 4) part)"

type_synonym porcelain = "string list \<times> string list \<times> string list"

fun porcelain_line :: "string \<Rightarrow> porcelain \<Rightarrow> porcelain" where
  "porcelain_line (x # y # c # r) (changed, staged, untracked) =
     (let p = line_path (c # r) in
      if x = CHR ''?'' \<and> y = CHR ''?'' then (changed, staged, add_new p untracked)
      else
        (if y \<noteq> CHR 0x20 \<and> y \<noteq> CHR ''?'' then add_new p changed else changed,
         if x \<noteq> CHR 0x20 \<and> x \<noteq> CHR ''?'' then add_new p staged else staged,
         untracked))"
| "porcelain_line _ acc = acc"

definition parse_porcelain :: "string \<Rightarrow> porcelain" where
  "parse_porcelain out = fold porcelain_line (split_on newline out) ([], [], [])"

section \<open>Status and diff\<close>

definition git_status :: "machine \<Rightarrow> path \<Rightarrow> os \<Rightarrow> os \<times> (go_error + status_result)" where
  "git_status mc root os =
     (case ensure_available mc (files os) root of
        Some e \<Rightarrow> (os, Inl e)
      | None \<Rightarrow>
      (case git_out mc root [''rev-parse'', ''--abbrev-ref'', ''HEAD''] os of
         (os1, Inl e) \<Rightarrow> (os1, Inl e)
       | (os1, Inr branch) \<Rightarrow>
       (case git_out mc root [''rev-parse'', ''HEAD''] os1 of
          (os2, hr) \<Rightarrow>
            let head = (case hr of Inl _ \<Rightarrow> [] | Inr h \<Rightarrow> h) in
            (case git_out mc root [''status'', ''--porcelain=v1'', ''-uall''] os2 of
               (os3, Inl e) \<Rightarrow> (os3, Inl e)
             | (os3, Inr porcelain) \<Rightarrow>
                 (case parse_porcelain porcelain of
                    (changed, staged, untracked) \<Rightarrow>
                      (os3, Inr \<lparr>gs_branch = trim_space branch, gs_head = trim_space head,
                                 gs_changed = changed, gs_staged = staged, gs_untracked = untracked\<rparr>))))))"

definition git_diff :: "machine \<Rightarrow> path \<Rightarrow> string \<Rightarrow> bool \<Rightarrow> os \<Rightarrow> os \<times> (go_error + git_diff_result)" where
  "git_diff mc root rel0 staged os =
     (case ensure_available mc (files os) root of
        Some e \<Rightarrow> (os, Inl e)
      | None \<Rightarrow>
          let rel = (if rel0 = [] then [] else clean rel0);
              args = [''diff'', ''--no-color''] @ (if staged then [''--cached''] else [])
                @ (if rel0 = [] then [] else [''--'', rel])
          in case git_out mc root args os of
               (os1, Inl e) \<Rightarrow> (os1, Inl e)
             | (os1, Inr out) \<Rightarrow> (os1, Inr \<lparr>gd_diff = out, gd_staged = staged, gd_path = rel\<rparr>))"

section \<open>Reading what git prints\<close>

text \<open>An entry of the output: the two status letters and a plain path.\<close>

type_synonym entry = "char \<times> char \<times> string"

definition print_entry :: "entry \<Rightarrow> string" where
  "print_entry e = (case e of (x, y, p) \<Rightarrow> x # y # CHR 0x20 # p @ [newline])"

definition plain_entry :: "entry \<Rightarrow> bool" where
  "plain_entry e = (case e of (x, y, p) \<Rightarrow>
     x \<noteq> newline \<and> y \<noteq> newline \<and> newline \<notin> set p \<and> trim_space p = p \<and> index_str p arrow = None)"

definition untracked_entry :: "entry \<Rightarrow> bool" where
  "untracked_entry e = (case e of (x, y, p) \<Rightarrow> x = CHR ''?'' \<and> y = CHR ''?'')"

definition in_index :: "entry \<Rightarrow> bool" where
  "in_index e = (case e of (x, y, p) \<Rightarrow> \<not> untracked_entry e \<and> x \<noteq> CHR 0x20 \<and> x \<noteq> CHR ''?'')"

definition in_tree :: "entry \<Rightarrow> bool" where
  "in_tree e = (case e of (x, y, p) \<Rightarrow> \<not> untracked_entry e \<and> y \<noteq> CHR 0x20 \<and> y \<noteq> CHR ''?'')"

definition status_path :: "entry \<Rightarrow> string" where
  "status_path e = snd (snd e)"

text \<open>The paths of the entries with a property, each once, in the order of their first entry.\<close>

definition paths_with :: "(entry \<Rightarrow> bool) \<Rightarrow> entry list \<Rightarrow> string list" where
  "paths_with P es = fold add_new (map status_path (filter P es)) []"

lemma set_add_new: "set (fold add_new ps acc) = set acc \<union> set ps"
  by (induction ps arbitrary: acc) (auto simp: add_new_def)

lemma distinct_add_new: "distinct acc \<Longrightarrow> distinct (fold add_new ps acc)"
  by (induction ps arbitrary: acc) (auto simp: add_new_def)

lemma paths_with: "set (paths_with P es) = status_path ` {e \<in> set es. P e}" "distinct (paths_with P es)"
  by (auto simp: paths_with_def set_add_new distinct_add_new)

lemma split_entries:
  "list_all plain_entry es \<Longrightarrow>
    split_on newline (concat (map print_entry es)) = map (\<lambda>(x, y, p). x # y # CHR 0x20 # p) es @ [[]]"
proof (induction es)
  case (Cons e es)
  obtain x y p where e: "e = (x, y, p)" by (cases e)
  with Cons.prems have "newline \<notin> set (x # y # CHR 0x20 # p)" by (auto simp: plain_entry_def newline_def)
  from split_on_append_sep [OF this] Cons e show ?case by (simp add: print_entry_def)
qed simp

lemma entry_line:
  assumes "plain_entry e"
  shows "porcelain_line (case e of (x, y, p) \<Rightarrow> x # y # CHR 0x20 # p) (c, s, u) =
    (if in_tree e then add_new (status_path e) c else c, if in_index e then add_new (status_path e) s else s,
     if untracked_entry e then add_new (status_path e) u else u)"
proof -
  obtain x y p where e: "e = (x, y, p)" by (cases e)
  with assms have "line_path (CHR 0x20 # p) = p" by (simp add: line_path_def has_prefix_def plain_entry_def)
  with e show ?thesis by (auto simp: in_tree_def in_index_def untracked_entry_def status_path_def Let_def)
qed

lemma fold_entries:
  "list_all plain_entry es \<Longrightarrow>
    fold porcelain_line (map (\<lambda>(x, y, p). x # y # CHR 0x20 # p) es) (c, s, u) =
      (fold add_new (map status_path (filter in_tree es)) c,
       fold add_new (map status_path (filter in_index es)) s,
       fold add_new (map status_path (filter untracked_entry es)) u)"
  by (induction es arbitrary: c s u) (auto simp: entry_line)

text \<open>
  C38. What git prints for a list of entries with plain paths is read back: the changed, the staged
  and the untracked paths are those of the entries whose letters say so, each once and in order.
\<close>

theorem parse_porcelain_reads:
  assumes "list_all plain_entry es"
  shows "parse_porcelain (concat (map print_entry es))
    = (paths_with in_tree es, paths_with in_index es, paths_with untracked_entry es)"
  using fold_entries [OF assms, of "[]" "[]" "[]"]
  by (simp add: parse_porcelain_def split_entries [OF assms] paths_with_def)

theorem parse_porcelain_reads_witness:
  "parse_porcelain (concat (map print_entry
      [(CHR '' '', CHR ''M'', ''a.txt''), (CHR ''A'', CHR ''M'', ''b.txt''), (CHR ''?'', CHR ''?'', ''c'')]))
    = ([''a.txt'', ''b.txt''], [''b.txt''], [''c''])"
proof -
  let ?es = "[(CHR '' '', CHR ''M'', ''a.txt''), (CHR ''A'', CHR ''M'', ''b.txt''), (CHR ''?'', CHR ''?'', ''c'')]"
  have "list_all plain_entry ?es" by code_simp
  moreover have "paths_with in_tree ?es = [''a.txt'', ''b.txt'']" "paths_with in_index ?es = [''b.txt'']"
    "paths_with untracked_entry ?es = [''c'']" by code_simp+
  ultimately show ?thesis using parse_porcelain_reads [of ?es] by simp
qed

text \<open>
  The path of a name with an arrow in it is cut, and a name that git has to quote keeps its quotes.
\<close>

lemma porcelain_quirks:
  "parse_porcelain (''?? a -> b'' @ [newline]) = ([], [], [''b''])"
  "parse_porcelain (''?? '' @ [CHR 0x22] @ ''a b'' @ [CHR 0x22, newline]) = ([], [], [[CHR 0x22] @ ''a b'' @ [CHR 0x22]])"
  by code_simp+

text \<open>
  Output beyond the log limit is lost without a sign: a diff is at most 256 KiB long.
\<close>

lemma git_diff_cut:
  assumes "git_diff mc root rel staged os = (os', Inr d)"
  shows "int (length (gd_diff d)) \<le> default_max_log_bytes"
proof -
  have "int (length s) \<le> default_max_log_bytes" if out: "git_out mc root args os = (os', Inr s)" for args s
  proof -
    obtain res opts where "run_process mc opts os = (os', Inr res)" "pr_stdout res = s" "po_max_log opts = 0"
      using out by (fastforce simp: git_out_def split: prod.splits sum.splits if_splits)
    then show ?thesis by (auto simp: log_limit_def default_max_log_bytes_def elim!: run_process_result)
  qed
  with assms show ?thesis
    by (auto simp: git_diff_def Let_def split: prod.splits option.splits sum.splits)
qed

end
