(* ===== verification/Tool_Suite.thy ===== *)
theory Tool_Suite
  imports Workspace_Tools Maven Git_Ops
begin

text \<open>
  The other tools of the agent: \<open>local-agent/internal/tools/build\<close>, \<open>test\<close>, \<open>git\<close> and \<open>system\<close>.
  A child process may change the files, so each run goes through the operating system of the state.
\<close>

section \<open>Builds and tests\<close>

definition opt_strs :: "string \<Rightarrow> string list \<Rightarrow> jmap" where
  "opt_strs k ss = (if ss = [] then [] else [(k, JArr (map JStr ss))])"

definition enc_build :: "build_result \<Rightarrow> json" where
  "enc_build r =
     JObj ([(''status'', JStr (br_status r)), (''exit_code'', jint (br_exit_code r)),
            (''duration_ms'', jint (br_duration_ms r)), (''stdout_summary'', JStr (br_stdout r)),
            (''stderr_summary'', JStr (br_stderr r))]
           @ opt_strs ''diagnostics'' (br_diagnostics r) @ opt_str ''tool'' (br_tool r)
           @ opt_strs ''command'' (br_command r))"

definition enc_test :: "test_result \<Rightarrow> json" where
  "enc_test r =
     JObj ([(''status'', JStr (tr_status r)), (''exit_code'', jint (tr_exit_code r)),
            (''duration_ms'', jint (tr_duration_ms r)), (''total'', jint (tr_total r)),
            (''passed'', jint (tr_passed r)), (''failed'', jint (tr_failed r)), (''skipped'', jint (tr_skipped r))]
           @ opt_str ''stdout_summary'' (tr_stdout r) @ opt_str ''stderr_summary'' (tr_stderr r)
           @ opt_str ''tool'' (tr_tool r) @ opt_strs ''command'' (tr_command r))"

definition map_status :: "string \<Rightarrow> string" where
  "map_status s =
     (if s = ''TIMEOUT'' then ''TIMEOUT'' else if s = ''CANCELLED'' then ''CANCELLED'' else ''FAILED'')"

definition known_error :: "code \<Rightarrow> string \<Rightarrow> proto_error option" where
  "known_error c msg = (case new_error c msg of Inr e \<Rightarrow> Some e | Inl _ \<Rightarrow> None)"

text \<open>
  The response of a run that ended: \<open>kind\<close> is the word of its messages, \<open>bad\<close> the code and text
  of a failure.
\<close>

definition run_response :: "string \<Rightarrow> string \<Rightarrow> code \<times> string \<Rightarrow> string \<Rightarrow> int \<Rightarrow> json \<Rightarrow> tool_response" where
  "run_response call_id kind bad status duration result =
     (let resp = success call_id (Some result);
          resp = (if status = ''SUCCESS'' then resp
                  else resp\<lparr>resp_status := map_status status,
                       resp_error :=
                         (if status = ''TIMEOUT'' then known_error ProcessTimeout (kind @ '' timed out'')
                          else if status = ''CANCELLED'' then known_error ProcessCancelled (kind @ '' cancelled'')
                          else known_error (fst bad) (snd bad))\<rparr>)
      in if resp_duration_ms resp = None then resp\<lparr>resp_duration_ms := Some duration\<rparr> else resp)"

definition timeout_of :: "tool_request \<Rightarrow> int" where
  "timeout_of req = (case req_timeout_ms req of None \<Rightarrow> 0 | Some ms \<Rightarrow> ms)"

definition build_tool :: "machine \<Rightarrow> build_result adapter list \<Rightarrow> tool_world handler" where
  "build_tool mc adapters0 w req =
     (let adapters = (if adapters0 = [] then [maven_build] else adapters0); wid = arg_str req ''workspace_id'' in
      if wid = [] then reply w (workspace_required req)
      else case get_workspace (tw_registry w) wid of
        Inl e \<Rightarrow> refuse w e
      | Inr ws \<Rightarrow>
      (case find (\<lambda>a. ad_detect a (files (tw_os w)) (ws_root ws)) adapters of
         None \<Rightarrow> reply w (failed (req_call_id req) BuildToolNotFound ''no build adapter detected for workspace'')
       | Some a \<Rightarrow>
       (case ad_run a mc (ws_root ws) (timeout_of req) (tw_os w) of
          (os, Inl e) \<Rightarrow> refuse (w\<lparr>tw_os := os\<rparr>) e
        | (os, Inr r) \<Rightarrow>
            reply (w\<lparr>tw_os := os\<rparr>)
              (run_response (req_call_id req) ''build'' (BuildFailed, ''build failed'') (br_status r)
                (br_duration_ms r) (enc_build r)))))"

definition test_tool :: "machine \<Rightarrow> test_result adapter list \<Rightarrow> tool_world handler" where
  "test_tool mc adapters0 w req =
     (let adapters = (if adapters0 = [] then [maven_test] else adapters0); wid = arg_str req ''workspace_id'' in
      if wid = [] then reply w (workspace_required req)
      else case get_workspace (tw_registry w) wid of
        Inl e \<Rightarrow> refuse w e
      | Inr ws \<Rightarrow>
      (case find (\<lambda>a. ad_detect a (files (tw_os w)) (ws_root ws)) adapters of
         None \<Rightarrow> reply w (failed (req_call_id req) BuildToolNotFound ''no test adapter detected for workspace'')
       | Some a \<Rightarrow>
       (case ad_run a mc (ws_root ws) (timeout_of req) (tw_os w) of
          (os, Inl e) \<Rightarrow> refuse (w\<lparr>tw_os := os\<rparr>) e
        | (os, Inr r) \<Rightarrow>
            reply (w\<lparr>tw_os := os\<rparr>)
              (run_response (req_call_id req) ''test'' (TestFailed, ''tests failed'') (tr_status r)
                (tr_duration_ms r) (enc_test r)))))"

section \<open>Git\<close>

definition jstrs :: "string list \<Rightarrow> json" where
  "jstrs ss = JArr (map JStr ss)"

definition enc_status :: "status_result \<Rightarrow> json" where
  "enc_status r =
     JObj [(''branch'', JStr (gs_branch r)), (''head'', JStr (gs_head r)),
           (''changed_files'', jstrs (gs_changed r)), (''staged_files'', jstrs (gs_staged r)),
           (''untracked_files'', jstrs (gs_untracked r))]"

definition enc_diff :: "git_diff_result \<Rightarrow> json" where
  "enc_diff r =
     JObj ([(''diff'', JStr (gd_diff r)), (''staged'', JBool (gd_staged r))] @ opt_str ''path'' (gd_path r))"

definition git_status_tool :: "machine \<Rightarrow> tool_world handler" where
  "git_status_tool mc w req =
     (let wid = arg_str req ''workspace_id'' in
      if wid = [] then reply w (workspace_required req)
      else case get_workspace (tw_registry w) wid of
        Inl e \<Rightarrow> refuse w e
      | Inr ws \<Rightarrow>
          (case git_status mc (ws_root ws) (tw_os w) of
             (os, Inl e) \<Rightarrow> refuse (w\<lparr>tw_os := os\<rparr>) e
           | (os, Inr r) \<Rightarrow> reply (w\<lparr>tw_os := os\<rparr>) (success (req_call_id req) (Some (enc_status r)))))"

definition git_diff_tool :: "machine \<Rightarrow> tool_world handler" where
  "git_diff_tool mc w req =
     (let wid = arg_str req ''workspace_id'' in
      if wid = [] then reply w (workspace_required req)
      else
        let path = arg_str req ''path'';
            staged = (case get_any (arguments req) ''staged'' of JBool b \<Rightarrow> b | _ \<Rightarrow> False)
        in case get_workspace (tw_registry w) wid of
             Inl e \<Rightarrow> refuse w e
           | Inr ws \<Rightarrow>
           (case (if path = [] then Inr [] else resolve_path (files (tw_os w)) ws path) of
              Inl e \<Rightarrow> refuse w e
            | Inr _ \<Rightarrow>
            (case git_diff mc (ws_root ws) path staged (tw_os w) of
               (os, Inl e) \<Rightarrow> refuse (w\<lparr>tw_os := os\<rparr>) e
             | (os, Inr r) \<Rightarrow> reply (w\<lparr>tw_os := os\<rparr>) (success (req_call_id req) (Some (enc_diff r))))))"

section \<open>System\<close>

record system_deps =
  sd_agent_id :: string
  sd_agent_version :: string
  sd_os :: string
  sd_arch :: string

text \<open>The time of the answer is the clock of the request, printed by \<open>stamp\<close>.\<close>

definition ping_tool :: "system_deps \<Rightarrow> (int \<Rightarrow> string) \<Rightarrow> tool_world handler" where
  "ping_tool deps stamp w req =
     reply w (success (req_call_id req) (Some (JObj
       [(''agent_id'', JStr (sd_agent_id deps)), (''version'', JStr (sd_agent_version deps)),
        (''protocol_version'', JStr version_current), (''timestamp'', JStr (stamp (tw_now w)))])))"

record capabilities =
  cap_workspace :: bool
  cap_project_index :: bool
  cap_build :: "string list"
  cap_test :: "string list"
  cap_git :: bool
  cap_languages :: "string list"

record capabilities_result =
  cr_agent_version :: string
  cr_protocol_version :: string
  cr_os :: string
  cr_arch :: string
  cr_capabilities :: capabilities
  cr_tools :: "string list"

definition enc_capabilities :: "capabilities \<Rightarrow> json" where
  "enc_capabilities c =
     JObj ([(''workspace'', JBool (cap_workspace c)), (''project_index'', JBool (cap_project_index c))]
           @ opt_strs ''build'' (cap_build c) @ opt_strs ''test'' (cap_test c) @ [(''git'', JBool (cap_git c))]
           @ opt_strs ''languages'' (cap_languages c))"

definition enc_capabilities_result :: "capabilities_result \<Rightarrow> json" where
  "enc_capabilities_result r =
     JObj [(''agent_version'', JStr (cr_agent_version r)), (''protocol_version'', JStr (cr_protocol_version r)),
           (''platform'', JObj [(''os'', JStr (cr_os r)), (''arch'', JStr (cr_arch r))]),
           (''capabilities'', enc_capabilities (cr_capabilities r)), (''supported_tools'', jstrs (cr_tools r))]"

definition capabilities_tool :: "system_deps \<Rightarrow> string list \<Rightarrow> tool_world handler" where
  "capabilities_tool deps names w req =
     reply w (success (req_call_id req) (Some (enc_capabilities_result
       \<lparr>cr_agent_version = sd_agent_version deps, cr_protocol_version = version_current,
        cr_os = sd_os deps, cr_arch = sd_arch deps,
        cr_capabilities = \<lparr>cap_workspace = True, cap_project_index = False, cap_build = [''maven''],
                           cap_test = [''maven''], cap_git = True, cap_languages = [''java'']\<rparr>,
        cr_tools = names\<rparr>)))"

end
