(* ===== verification/Tool_Contracts.thy ===== *)
theory Tool_Contracts
  imports Tool_Suite
begin

text \<open>
  Every handler of the agent meets the contract of the dispatcher: what it answers is a response to
  the call that the peer accepts, or an error that can be reported as one, and it keeps the invariant
  of the shared state.
\<close>

section \<open>Errors that can be reported\<close>

named_theorems error_goods \<open>the errors that an operation returns are good\<close>

lemma get_workspace_err [error_goods]: "get_workspace reg wid = Inl e \<Longrightarrow> good_go_error e"
  by (auto simp: get_workspace_def split: if_splits option.splits)

lemma resolve_path_err [error_goods]: "resolve_path fs w rel = Inl e \<Longrightarrow> good_go_error e"
  by (auto simp: resolve_path_def Let_def split: if_splits sum.splits)

lemma follow_target_err [error_goods]: "follow_target fs w p = Inl e \<Longrightarrow> good_go_error e"
  by (auto simp: follow_target_def split: if_splits sum.splits)

lemma read_text_file_err [error_goods]: "read_text_file fs w rel mx = Inl e \<Longrightarrow> good_go_error e"
  by (auto simp: read_text_file_def Let_def dest: error_goods split: if_splits sum.splits prod.splits)

lemma read_text_files_err [error_goods]: "read_text_files fs w ps mx = Inl e \<Longrightarrow> good_go_error e"
  by (auto simp: read_text_files_def split: if_splits)

lemma search_err [error_goods]: "search fs w opts = Inl e \<Longrightarrow> good_go_error e"
  by (auto simp: search_def Let_def split: if_splits)

lemma sole_err [error_goods]: "sole r = Inl e \<Longrightarrow> good_go_error e"
  by (auto simp: sole_def split: option.splits if_splits list.splits)

lemma resolve_propose_err [error_goods]: "resolve_propose_workspace r wid = Inl e \<Longrightarrow> good_go_error e"
  by (auto simp: resolve_propose_workspace_def dest: error_goods split: option.splits if_splits)

lemma fill_base_hashes_err [error_goods]: "fill_base_hashes fs w mx cs = Inl e \<Longrightarrow> good_go_error e"
  by (induction cs) (auto simp: Let_def dest: error_goods split: if_splits sum.splits)

lemma conflict_scan_err [error_goods]: "conflict_scan sp st cs = Inl e \<Longrightarrow> good_go_error e"
  by (induction sp st cs rule: conflict_scan.induct) (auto simp: Let_def split: option.splits if_splits)

lemma conflicts_err [error_goods]: "validate_change_conflicts cs = Some e \<Longrightarrow> good_go_error e"
  by (auto simp: validate_change_conflicts_def dest: error_goods split: sum.splits option.splits)

lemma read_existing_err [error_goods]: "read_existing_for_change fs w rel h mx = Inl e \<Longrightarrow> good_go_error e"
  by (auto simp: read_existing_for_change_def dest: error_goods split: sum.splits if_splits)

lemma propose_change_err [error_goods]: "propose_change fs w mx ch acc = Inl e \<Longrightarrow> good_go_error e"
  by (cases acc) (auto simp: propose_change_def Let_def dest: error_goods split: sum.splits if_splits)

lemma propose_changes_err [error_goods]: "propose_changes fs w mx cs acc = Inl e \<Longrightarrow> good_go_error e"
  by (induction cs arbitrary: acc) (auto dest: error_goods split: sum.splits)

lemma base_revision_err [error_goods]: "check_base_revision w b = Some e \<Longrightarrow> good_go_error e"
  by (auto simp: check_base_revision_def split: if_splits option.splits)

lemma propose_err [error_goods]: "propose fs now w cs mx = Inl e \<Longrightarrow> good_go_error e"
  by (auto simp: propose_def Let_def dest: error_goods split: option.splits if_splits sum.splits prod.splits)

lemma claim_err [error_goods]: "claim_for_apply st i = (st', Inl e) \<Longrightarrow> good_go_error e"
  by (auto simp: claim_for_apply_def Let_def split: option.splits if_splits)

lemma finish_err [error_goods]: "finish_apply st i = (st', Some e) \<Longrightarrow> good_go_error e"
  by (auto simp: finish_apply_def mark_applied_def split: option.splits if_splits)

lemma take_backup_err [error_goods]: "take_backup os rel p = (os', Inl e) \<Longrightarrow> good_go_error e"
  by (auto simp: take_backup_def Let_def split: sum.splits node.splits prod.splits)

lemma write_planned_err [error_goods]: "write_planned bs pl p b os = (os', Some e) \<Longrightarrow> good_go_error e"
  by (auto simp: write_planned_def Let_def split: if_splits prod.splits option.splits)

lemma apply_path_err [error_goods]: "apply_path w pl n rel st = (os, Inl e) \<Longrightarrow> good_go_error e"
  by (cases st) (auto simp: apply_path_def Let_def dest: error_goods
      split: sum.splits prod.splits option.splits if_splits)

lemma apply_paths_err [error_goods]: "apply_paths w pl n rels st = (os, Some e) \<Longrightarrow> good_go_error e"
  by (induction w pl n rels st rule: apply_paths.induct) (auto dest: error_goods split: prod.splits sum.splits)

lemma apply_locked_err [error_goods]: "apply_locked now p req opts w s = (w', s', Some e) \<Longrightarrow> good_go_error e"
  by (cases s) (auto simp: apply_locked_def Let_def dest: error_goods
      split: sum.splits prod.splits option.splits if_splits go_error.splits)

lemma mutate_err:
  assumes "mutate reg wid fn s = (reg', s', Some e)" "\<And>w w' s'' e. fn w s = (w', s'', Some e) \<Longrightarrow> good_go_error e"
  shows "good_go_error e"
  using assms by (auto simp: mutate_def split: if_splits option.splits prod.splits)

lemma apply_claimed_err [error_goods]: "apply_claimed now reg st req opts os = (r, s, o', Inl e) \<Longrightarrow> good_go_error e"
  by (auto simp: apply_claimed_def Let_def dest: error_goods mutate_err
      split: sum.splits prod.splits option.splits if_splits)

definition good_approval :: "validator option \<Rightarrow> bool" where
  "good_approval vo \<longleftrightarrow> (\<forall>v a c d e. vo = Some v \<longrightarrow> v a c d = Some e \<longrightarrow> good_go_error e)"

lemma local_approval_good [simp]: "good_approval (Some local_approval)" "good_approval None"
  by (auto simp: good_approval_def local_approval_def split: if_splits)

lemma apply_changes_err [error_goods]:
  "apply_changes now rego sto approval req opts os = (r, s, o', Inl e) \<Longrightarrow> good_approval approval \<Longrightarrow> good_go_error e"
  using local_approval_good(1)
  by (auto simp: apply_changes_def good_approval_def Let_def dest: error_goods
      split: option.splits prod.splits if_splits)

lemma parse_change_set_err [error_goods]:
  "parse_proposed_change_set a r mx w = Some (Inl e) \<Longrightarrow> good_go_error e"
  by (auto simp: parse_proposed_change_set_def Let_def dest: error_goods split: option.splits sum.splits if_splits)

lemma git_out_err [error_goods]: "git_out mc root args os = (os', Inl e) \<Longrightarrow> good_go_error e"
  by (auto simp: git_out_def split: prod.splits sum.splits if_splits)

lemma ensure_available_err [error_goods]: "ensure_available mc fs root = Some e \<Longrightarrow> good_go_error e"
  by (auto simp: ensure_available_def split: if_splits)

lemma git_status_err [error_goods]: "git_status mc root os = (os', Inl e) \<Longrightarrow> good_go_error e"
  by (auto simp: git_status_def Let_def dest: error_goods split: option.splits prod.splits sum.splits)

lemma git_diff_err [error_goods]: "git_diff mc root p b os = (os', Inl e) \<Longrightarrow> good_go_error e"
  by (auto simp: git_diff_def Let_def dest: error_goods split: option.splits prod.splits sum.splits)

lemma executable_err [error_goods]: "resolve_executable mc fs root = Inl e \<Longrightarrow> good_go_error e"
  by (auto simp: resolve_executable_def Let_def split: if_splits option.splits)

section \<open>The adapters\<close>

text \<open>
  What the tools rely on of an adapter: it reports good errors, and a duration that fits the metrics
  when the machine's do.
\<close>

definition machine_ok :: "machine \<Rightarrow> bool" where
  "machine_ok mc \<longleftrightarrow> (\<forall>cmd os os' ch. mc_exec mc cmd os = (os', ch) \<longrightarrow> int64_range (ch_millis ch))"

locale run_adapter =
  fixes a :: "'r adapter" and status :: "'r \<Rightarrow> string" and duration :: "'r \<Rightarrow> int"
  assumes run_error: "ad_run a mc root t os = (os', Inl e) \<Longrightarrow> good_go_error e"
    and run_duration: "machine_ok mc \<Longrightarrow> ad_run a mc root t os = (os', Inr r) \<Longrightarrow> int64_range (duration r)"
    and run_status: "ad_run a mc root t os = (os', Inr r) \<Longrightarrow>
      status r \<in> {''SUCCESS'', ''FAILED'', ''TIMEOUT'', ''CANCELLED''}"
begin

lemma run_fits:
  assumes "machine_ok mc" "ad_run a mc root t os = (os', Inr r)" "known_code (fst bad)"
  shows "fits c (run_response c kind bad (status r) (duration r) j)"
proof -
  have known: "\<exists>e. known_error cd msg = Some e \<and> known_code (err_code e) \<and> good_error e" if c: "known_code cd" for cd msg
  proof -
    obtain m where "catalog cd = Some m" using c unfolding known_code_def by blast
    then obtain e where "new_error cd msg = Inr e" by (simp add: new_error_def Let_def)
    with new_error_known show ?thesis by (auto simp: known_error_def)
  qed
  have codes: "known_code ProcessTimeout" "known_code ProcessCancelled" by code_simp+
  from known [OF codes(1), of "kind @ '' timed out''"] obtain e1
    where e1: "known_error ProcessTimeout (kind @ '' timed out'') = Some e1" "good_error e1" by blast
  from known [OF codes(2), of "kind @ '' cancelled''"] obtain e2
    where e2: "known_error ProcessCancelled (kind @ '' cancelled'') = Some e2" "good_error e2" by blast
  from known [OF assms(3), of "snd bad"] obtain e3
    where e3: "known_error (fst bad) (snd bad) = Some e3" "known_code (err_code e3)" "good_error e3" by blast
  note known = e1 e2 e3 run_duration [OF assms(1,2)]
  have s: "fits c (run_response c kind bad s (duration r) j)"
    if "s = ''SUCCESS'' \<or> s = ''FAILED'' \<or> s = ''TIMEOUT'' \<or> s = ''CANCELLED''" for s
    using that known
    by (elim disjE) (simp_all add: run_response_def fits_def success_def map_status_def tool_statuses_def Let_def)
  from run_status [OF assms(2)] show ?thesis by (intro s) simp
qed

end

lemma process_duration:
  "machine_ok mc \<Longrightarrow> run_process mc opts os = (os', Inr pr) \<Longrightarrow> int64_range (pr_duration_ms pr)"
  by (auto simp: machine_ok_def elim!: run_process_result)

interpretation maven_build: run_adapter maven_build br_status br_duration_ms
  by unfold_locales
    (auto simp: maven_build_def build_run_def wrap_internal_eq status_of_def Let_def
      dest: error_goods process_duration split: sum.splits prod.splits if_splits)

interpretation maven_test: run_adapter maven_test tr_status tr_duration_ms
  by unfold_locales
    (auto simp: maven_test_def test_run_def wrap_internal_eq status_of_def Let_def
      dest: error_goods process_duration split: sum.splits prod.splits if_splits)

section \<open>The invariant of the shared state\<close>

text \<open>
  Workspaces are registered under their own identifiers; proposals are stored under the identifier of
  their change set, and the hash to approve is the hash of the diff shown.
\<close>

definition keyed_registry :: "registry \<Rightarrow> bool" where
  "keyed_registry reg \<longleftrightarrow> (\<forall>wid ws. map_of reg wid = Some ws \<longrightarrow> ws_id ws = wid)"

definition sound_proposal :: "string \<Rightarrow> proposal \<Rightarrow> bool" where
  "sound_proposal i p \<longleftrightarrow> cs_id (prop_change_set p) = i \<and> ad_hash (prop_diff p) = hash_bytes (ad_diff (prop_diff p))"

definition sound_store :: "proposal_store \<Rightarrow> bool" where
  "sound_store st \<longleftrightarrow> (\<forall>i p. map_of st i = Some p \<longrightarrow> sound_proposal i p)"

definition tools_ok :: "tool_world \<Rightarrow> bool" where
  "tools_ok w \<longleftrightarrow> keyed_registry (tw_registry w) \<and> (\<forall>st. tw_proposals w = Some st \<longrightarrow> sound_store st)"

lemma sound_update: "sound_store st \<Longrightarrow> sound_proposal i p \<Longrightarrow> sound_store (AList.update i p st)"
  by (auto simp: sound_store_def update_conv')

lemma sound_flags [simp]:
  "sound_proposal i (p\<lparr>prop_applied := b\<rparr>) = sound_proposal i p"
  "sound_proposal i (p\<lparr>prop_applying := b\<rparr>) = sound_proposal i p"
  by (simp_all add: sound_proposal_def)

lemma sound_claim: "claim_for_apply st i = (st', r) \<Longrightarrow> sound_store st \<Longrightarrow> sound_store st'"
  by (auto simp: claim_for_apply_def Let_def sound_store_def update_conv' split: option.splits if_splits)

lemma sound_abort: "sound_store st \<Longrightarrow> sound_store (abort_apply st i)"
  by (auto simp: abort_apply_def sound_store_def update_conv' split: option.splits)

lemma sound_finish: "finish_apply st i = (st', r) \<Longrightarrow> sound_store st \<Longrightarrow> sound_store st'"
  by (auto simp: finish_apply_def mark_applied_def sound_store_def update_conv' split: option.splits if_splits)

lemma sound_propose: "propose fs now w cs mx = Inr p \<Longrightarrow> sound_proposal (cs_id (prop_change_set p)) p"
  by (auto simp: propose_def sound_proposal_def Let_def split: option.splits if_splits sum.splits prod.splits)

lemma keyed_mutate:
  assumes "mutate reg wid fn s = (reg', s', e)" "keyed_registry reg"
    and "\<And>w w' s'' e. fn w s = (w', s'', e) \<Longrightarrow> ws_id w' = ws_id w"
  shows "keyed_registry reg'"
proof (cases "validate_id KWorkspace wid = None \<and> map_of reg wid \<noteq> None")
  case True
  then obtain ws where ws: "map_of reg wid = Some ws" by auto
  obtain ws' s'' e' where fn: "fn ws s = (ws', s'', e')" by (cases "fn ws s") auto
  with assms(1) True ws have "reg' = store_workspace wid ws' reg" by (simp add: mutate_def)
  with assms(2) assms(3) [OF fn] ws show ?thesis by (auto simp: keyed_registry_def registry_store.look_ins)
qed (use assms(1,2) in \<open>auto simp: mutate_def split: if_splits option.splits\<close>)

lemma apply_locked_id: "apply_locked now p req opts w s = (w', s', e) \<Longrightarrow> ws_id w' = ws_id w"
  by (cases s) (auto simp: apply_locked_def Let_def split: sum.splits if_splits prod.splits option.splits)

lemma apply_changes_keeps:
  assumes "apply_changes now (Some reg) sto approval req opts os = (rego, sto', os', r)"
    and "keyed_registry reg" "\<forall>st. sto = Some st \<longrightarrow> sound_store st"
  shows "(\<forall>reg'. rego = Some reg' \<longrightarrow> keyed_registry reg') \<and> (\<forall>st. sto' = Some st \<longrightarrow> sound_store st)"
proof -
  have "keyed_registry reg' \<and> sound_store st'"
    if c: "apply_claimed now reg st req opts os = (reg', st', os', r)" and "sound_store st" for st reg' st'
    using c \<open>sound_store st\<close> assms(2)
    by (auto simp: apply_claimed_def Let_def dest: sound_claim sound_finish sound_abort keyed_mutate apply_locked_id
      split: prod.splits sum.splits option.splits if_splits)
  with assms show ?thesis
    by (auto simp: apply_changes_def Let_def split: option.splits prod.splits if_splits)
qed

section \<open>The handlers\<close>

lemma answers_simps [simp]:
  "answers c (x, Some err) = good_go_error err"
  "answers c (Some r, None) = fits c r"
  by (simp_all add: answers_def)

lemma reply_Some [simp]: "reply w r = Some (w', out) \<longleftrightarrow> w' = w \<and> out = (Some r, None)"
  by (auto simp: reply_def)

lemma refuse_Some [simp]: "refuse w e = Some (w', out) \<longleftrightarrow> w' = w \<and> out = (None, Some e)"
  by (auto simp: refuse_def)

lemma tools_ok_os [simp]: "tools_ok (w\<lparr>tw_os := os\<rparr>) = tools_ok w"
  by (simp add: tools_ok_def)

lemmas fits_intros [simp] = failed_fits success_fits

lemma workspace_required_fits [simp]: "fits (req_call_id req) (workspace_required req)"
  by (simp add: workspace_required_def)

lemmas handler_splits = if_splits sum.splits option.splits prod.splits

interpretation read_file_contract: tool_contract "read_file_tool deps" tools_ok for deps
  by unfold_locales (auto simp: read_file_tool_def Let_def dest: error_goods split: handler_splits)

interpretation search_contract: tool_contract "search_tool deps" tools_ok for deps
  by unfold_locales (auto simp: search_tool_def Let_def dest: error_goods split: handler_splits)

interpretation git_status_contract: tool_contract "git_status_tool mc" tools_ok for mc
  by unfold_locales (auto simp: git_status_tool_def Let_def dest: error_goods split: handler_splits)

interpretation git_diff_contract: tool_contract "git_diff_tool mc" tools_ok for mc
  by unfold_locales (auto simp: git_diff_tool_def Let_def dest: error_goods split: handler_splits)

interpretation ping_contract: tool_contract "ping_tool deps stamp" tools_ok for deps stamp
  by unfold_locales (auto simp: ping_tool_def)

interpretation capabilities_contract: tool_contract "capabilities_tool deps names" tools_ok for deps names
  by unfold_locales (auto simp: capabilities_tool_def)

lemma put_sound: "sound_store st \<Longrightarrow> sound_proposal (cs_id (prop_change_set p)) p \<Longrightarrow> sound_store (put_proposal p st)"
  by (simp add: put_proposal_def sound_update)

interpretation propose_contract: tool_contract "propose_tool deps" tools_ok for deps
  by unfold_locales
    (auto simp: propose_tool_def tools_ok_def put_sound dest: error_goods sound_propose
      split: handler_splits go_error.splits)

text \<open>
  When all paths of a request failed, the error of the response is that of the first entry.
\<close>

lemma as_proto_err_good:
  assumes "good_go_error e"
  shows "known_code (err_code (as_proto_err e)) \<and> good_error (as_proto_err e)"
proof (cases e)
  case (PlainError s)
  obtain x where "new_error InternalError s = Inr x" by (simp add: new_error_def Let_def)
  with PlainError new_error_known show ?thesis by (auto simp: as_proto_err_def)
qed (use assms in \<open>simp add: as_proto_err_def good_go_error_def\<close>)

lemma read_outcome_err [error_goods]: "read_outcome fs ws m p = Inl e \<Longrightarrow> good_go_error e"
  by (auto simp: read_outcome_def dest: error_goods split: if_splits)

lemma first_entry_error:
  assumes "p # ps = qs" "\<forall>q\<in>set qs. \<not> is_ok (read_outcome fs ws m q)"
  shows "\<exists>e. entry_error (map (\<lambda>p. entry_of p (read_outcome fs ws m p)) qs ! 0) = Some e
    \<and> known_code (err_code e) \<and> good_error e"
proof -
  obtain e where "read_outcome fs ws m p = Inl e"
    using assms by (cases "read_outcome fs ws m p") auto
  with assms(1) as_proto_err_good read_outcome_err show ?thesis
    by (fastforce simp: entry_of_def failed_entry_def)
qed

lemma read_files_response:
  assumes "read_text_files fs ws paths m = Inr r"
  defines "status \<equiv> overall_status (Some r)"
  shows "fits c \<lparr>resp_call_id = c, resp_status = status, resp_result = j, resp_error = aggregate_error r status,
    resp_duration_ms = None\<rparr>"
proof -
  let ?bad = "filter (\<lambda>p. \<not> is_ok (read_outcome fs ws m p)) paths"
  have r: "paths \<noteq> []" "rf_files r = map (\<lambda>p. entry_of p (read_outcome fs ws m p)) paths"
    "rf_total r = int (length paths)" "rf_failed r = int (length ?bad)"
    "rf_success r = int (length (filter (\<lambda>p. is_ok (read_outcome fs ws m p)) paths))"
    using assms(1) by (auto simp: read_text_files_def fold_read_step split: if_splits)
  have status: "status \<in> set tool_statuses"
    by (simp add: status_def overall_status_def tool_statuses_def)
  have "status = ''FAILED'' \<longleftrightarrow> rf_success r = 0"
    using r(1,3-5) sum_length_filter_compl [of "\<lambda>p. is_ok (read_outcome fs ws m p)" paths]
    by (auto simp: status_def overall_status_def)
  moreover have "rf_success r = 0 \<Longrightarrow> \<forall>p\<in>set paths. \<not> is_ok (read_outcome fs ws m p)"
    using r(5) by (simp add: filter_empty_conv)
  moreover have "\<forall>p\<in>set paths. \<not> is_ok (read_outcome fs ws m p) \<Longrightarrow> rf_failed r = rf_total r"
    using r(3,4) by (simp add: filter_id_conv [THEN iffD2])
  ultimately have "status = ''FAILED'' \<Longrightarrow>
      \<exists>e. aggregate_error r status = Some e \<and> known_code (err_code e) \<and> good_error e"
    using r(1-3) first_entry_error [of _ _ paths fs ws m] by (cases paths) (auto simp: aggregate_error_def)
  moreover have "status \<noteq> ''FAILED'' \<Longrightarrow> aggregate_error r status = None"
    by (simp add: aggregate_error_def)
  ultimately show ?thesis using status unfolding fits_def by fastforce
qed

interpretation read_files_contract: tool_contract "read_files_tool deps" tools_ok for deps
  by unfold_locales
    (auto simp: read_files_tool_def Let_def dest: error_goods read_files_response split: handler_splits)

text \<open>The handlers whose contract rests on what they are given.\<close>

lemma apply_contract:
  assumes "good_approval (wd_approval deps)"
  shows "tool_contract (apply_tool deps) tools_ok"
proof
  fix w req w' out
  assume ok: "tools_ok w" and h: "apply_tool deps w req = Some (w', out)"
  let ?v = "case wd_approval deps of None \<Rightarrow> local_approval | Some v \<Rightarrow> v"
  have v: "good_approval (Some ?v)" using assms by (cases "wd_approval deps") auto
  show "answers (req_call_id req) out"
    using h v by (auto simp: apply_tool_def Let_def dest: error_goods split: if_splits prod.splits sum.splits)
  show "tools_ok w'"
  proof (cases "arg_str req ''change_set_id'' = [] \<or> arg_str req ''workspace_id'' = []")
    case False
    let ?req = "\<lparr>ar_change_set = arg_str req ''change_set_id'', ar_workspace = arg_str req ''workspace_id'',
      ar_approval = arg_str req ''approval_id'', ar_diff_hash = arg_str req ''approved_diff_hash''\<rparr>"
    obtain rego sto os r where a: "apply_changes (tw_now w) (Some (tw_registry w)) (tw_proposals w) (Some ?v) ?req
        \<lparr>opt_max_bytes = wd_max_bytes deps, opt_fail_after = 0\<rparr> (tw_os w) = (rego, sto, os, r)"
      by (cases rule: prod_cases4)
    have w': "w' = w\<lparr>tw_registry := (case rego of Some reg \<Rightarrow> reg | None \<Rightarrow> tw_registry w),
        tw_proposals := sto, tw_os := os\<rparr>"
      using h False a by (auto simp: apply_tool_def Let_def split: sum.splits)
    from apply_changes_keeps [OF a] ok show ?thesis
      by (auto simp: w' tools_ok_def split: option.splits)
  qed (use h ok in \<open>auto simp: apply_tool_def Let_def\<close>)
qed

text \<open>A tool that runs the first of its adapters that detects the workspace.\<close>

lemma found: "find P xs = Some x \<Longrightarrow> x \<in> set xs"
  by (auto simp: find_Some_iff)

lemma test_contract:
  assumes "machine_ok mc" "\<And>a. a \<in> set adapters \<Longrightarrow> run_adapter a tr_status tr_duration_ms" "adapters \<noteq> []"
  shows "tool_contract (test_tool mc adapters) tools_ok"
proof
  fix w req w' out
  assume ok: "tools_ok w" and h: "test_tool mc adapters w req = Some (w', out)"
  have "known_code (fst (TestFailed, ''tests failed''))" by code_simp
  note fits = run_adapter.run_fits [OF assms(2) assms(1) _ this] and err = run_adapter.run_error [OF assms(2)]
  show "answers (req_call_id req) out"
    using h assms(3) by (auto simp: test_tool_def Let_def dest: error_goods dest!: found
        split: handler_splits intro: fits err)
  show "tools_ok w'"
    using h ok by (auto simp: test_tool_def Let_def split: handler_splits)
qed

lemma build_contract:
  assumes "machine_ok mc" "\<And>a. a \<in> set adapters \<Longrightarrow> run_adapter a br_status br_duration_ms" "adapters \<noteq> []"
  shows "tool_contract (build_tool mc adapters) tools_ok"
proof
  fix w req w' out
  assume ok: "tools_ok w" and h: "build_tool mc adapters w req = Some (w', out)"
  have "known_code (fst (BuildFailed, ''build failed''))" by code_simp
  note fits = run_adapter.run_fits [OF assms(2) assms(1) _ this] and err = run_adapter.run_error [OF assms(2)]
  show "answers (req_call_id req) out"
    using h assms(3) by (auto simp: build_tool_def Let_def dest: error_goods dest!: found
        split: handler_splits intro: fits err)
  show "tools_ok w'"
    using h ok by (auto simp: build_tool_def Let_def split: handler_splits)
qed

end
