(* ===== verification/File_Calls.thy ===== *)
theory File_Calls
  imports Go_Files
begin

text \<open>
  The calls of package \<open>os\<close> on safe paths: what each can do to the nodes of the file system,
  for every schedule of faults, and that it succeeds when no fault is scheduled. The effect is
  stated on the function from paths to nodes.
\<close>

abbreviation nodes :: "os \<Rightarrow> path \<Rightarrow> node option" where
  "nodes os \<equiv> node_at (files os)"

definition no_faults :: "os \<Rightarrow> bool" where
  "no_faults os \<longleftrightarrow> set (faults os) \<subseteq> {Pass}"

lemma next_fault_cases:
  assumes "next_fault os = (f, os1)"
  shows "files os1 = files os" "undo_faults os1 = undo_faults os"
    "no_faults os \<Longrightarrow> f = Pass \<and> no_faults os1"
  using assms by (auto simp: next_fault_def no_faults_def split: list.splits)

lemma node_fs_put: "p \<noteq> [] \<Longrightarrow> nodes (fs_put p nd os) = (nodes os)(p \<mapsto> nd)"
  by (rule ext) (simp add: fs_simps)

lemma node_fs_del: "p \<noteq> [] \<Longrightarrow> nodes (fs_del p os) = (nodes os)(p := None)"
  by (rule ext) (simp add: fs_simps)

lemma fs_ops_simps [simp]:
  "faults (fs_put p nd os) = faults os" "undo_faults (fs_put p nd os) = undo_faults os"
  "faults (fs_del p os) = faults os" "undo_faults (fs_del p os) = undo_faults os"
  "no_faults (fs_put p nd os) = no_faults os" "no_faults (fs_del p os) = no_faults os"
  by (simp_all add: fs_put_def fs_del_def no_faults_def)

lemma safe_walk:
  assumes "safe_path fs p" "fs_wf fs" "p \<noteq> []"
  shows "walk fs follow n [] p =
    (case node_at fs (butlast p) of None \<Rightarrow> Inl ENOENT | Some _ \<Rightarrow> Inr (p, node_at fs p))"
  using walk_safe [OF assms(1,2), of follow n] assms(3) by (auto split: option.splits)

lemma safe_parent:
  assumes "safe_path fs p" "p \<noteq> []"
  shows "node_at fs (butlast p) = None \<or> node_at fs (butlast p) = Some Dir"
  using assms by (auto simp: safe_path_def plain_path_def strict_prefix_butlast)

lemma safe_not_link: "safe_path fs p \<Longrightarrow> node_at fs p \<noteq> Some (Link ab t)"
  by (simp add: safe_path_def no_link_def)

section \<open>Well-formedness after a change\<close>

lemma wf_put:
  assumes "fs_wf fs" "safe_path fs p" "p \<noteq> []" "node_at fs (butlast p) = Some Dir"
    and "nd = Dir \<or> node_at fs p \<noteq> Some Dir" "node_at fs' = (node_at fs)(p \<mapsto> nd)"
  shows "fs_wf fs'"
  unfolding fs_wf_def
proof (intro allI impI)
  fix q
  assume q: "q \<noteq> []" "node_at fs' q \<noteq> None"
  show "node_at fs' (butlast q) = Some Dir \<and> proper_path q \<and> \<not> has_nul q"
  proof (cases "q = p")
    case True
    have "butlast p \<noteq> p" using assms(3) by (metis append_butlast_last_id append_self_conv not_Cons_self2)
    with True assms(2,4,6) show ?thesis by (simp add: safe_path_def)
  next
    case False
    with q assms(6) have "node_at fs q \<noteq> None" by simp
    with assms(1) q(1) have "node_at fs (butlast q) = Some Dir" "proper_path q" "\<not> has_nul q"
      by (auto simp: fs_wf_def)
    with assms(5,6) show ?thesis by (cases "butlast q = p") auto
  qed
qed

lemma wf_del:
  assumes "fs_wf fs" "p \<noteq> []" "\<And>c. node_at fs (p @ [c]) = None" "node_at fs' = (node_at fs)(p := None)"
  shows "fs_wf fs'"
  unfolding fs_wf_def
proof (intro allI impI)
  fix q
  assume q: "q \<noteq> []" "node_at fs' q \<noteq> None"
  then have n: "q \<noteq> p" "node_at fs q \<noteq> None" using assms(4) by (auto split: if_splits)
  have "butlast q \<noteq> p"
  proof
    assume "butlast q = p"
    then have "q = p @ [last q]" using q(1) by (metis append_butlast_last_id)
    with assms(3) n(2) show False by metis
  qed
  with n q(1) assms(1,4) show "node_at fs' (butlast q) = Some Dir \<and> proper_path q \<and> \<not> has_nul q"
    by (auto simp: fs_wf_def)
qed

lemma wf_no_child: "fs_wf fs \<Longrightarrow> node_at fs p \<noteq> Some Dir \<Longrightarrow> node_at fs (p @ [c]) = None"
  by (auto simp: fs_wf_def dest: spec [of _ "p @ [c]"])

section \<open>Single calls\<close>

lemma write_file_cases:
  assumes "write_file os p d m = (os', r)" "fs_wf (files os)" "safe_path (files os) p" "p \<noteq> []"
  shows "undo_faults os' = undo_faults os \<and> fs_wf (files os') \<and>
    ((files os' = files os \<and> r \<noteq> None) \<or>
     (\<exists>d' m'. nodes os (butlast p) = Some Dir \<and> nodes os p \<noteq> Some Dir \<and>
        nodes os' = (nodes os)(p \<mapsto> File d' m') \<and> (r = None \<longrightarrow> d' = d)))"
proof -
  obtain f os1 where f: "next_fault os = (f, os1)" by fastforce
  note n = next_fault_cases [OF f]
  have nul: "\<not> has_nul p" using assms(3) by (simp add: safe_path_def)
  show ?thesis
  proof (cases "f = Refuse \<or> nodes os (butlast p) = None \<or> nodes os p = Some Dir")
    case True
    then have "os' = os1 \<and> r \<noteq> None"
      using assms(1) f n nul safe_walk [OF assms(3,2,4)] by (auto simp: write_file_def split: option.splits if_splits)
    with n assms(2) show ?thesis by simp
  next
    case False
    then have parent: "nodes os (butlast p) = Some Dir" "nodes os p \<noteq> Some Dir"
      using safe_parent [OF assms(3,4)] by auto
    obtain d' m' where put: "os' = fs_put p (File d' m') os1" "r = None \<longrightarrow> d' = d"
      using assms(1) f n nul False safe_walk [OF assms(3,2,4)] safe_not_link [OF assms(3)] parent
      by (cases "nodes os p"; cases f)
        (auto simp: write_file_def Let_def split: node.splits if_splits)
    then have nodes: "nodes os' = (nodes os)(p \<mapsto> File d' m')" using n(1) assms(4) by (simp add: node_fs_put)
    have "fs_wf (files os')"
      by (rule wf_put [OF assms(2,3,4) parent(1) _ nodes]) (use parent in simp)
    with put n(2) nodes parent show ?thesis by auto
  qed
qed

lemma write_file_pass:
  assumes "fs_wf (files os)" "safe_path (files os) p" "p \<noteq> []" "no_faults os"
    and "nodes os (butlast p) = Some Dir" "nodes os p \<noteq> Some Dir"
  shows "snd (write_file os p d m) = None \<and> no_faults (fst (write_file os p d m))"
proof -
  obtain f os1 where f: "next_fault os = (f, os1)" by fastforce
  note n = next_fault_cases [OF f]
  have nul: "\<not> has_nul p" using assms(2) by (simp add: safe_path_def)
  show ?thesis
    using f n nul safe_walk [OF assms(2,1,3)] safe_not_link [OF assms(2)] assms(4,5,6)
    by (cases "nodes os p") (auto simp: write_file_def Let_def split: node.splits if_splits)
qed

lemma remove_path_cases:
  assumes "remove_path os p = (os', r)" "fs_wf (files os)" "safe_path (files os) p"
  shows "undo_faults os' = undo_faults os \<and> fs_wf (files os') \<and>
    ((files os' = files os \<and> r \<noteq> None) \<or>
     (r = None \<and> p \<noteq> [] \<and> nodes os p \<noteq> None \<and> nodes os' = (nodes os)(p := None)))
    \<and> (r = Some ENOENT \<longrightarrow> nodes os p = None)"
proof -
  obtain f os1 where f: "next_fault os = (f, os1)" by fastforce
  note n = next_fault_cases [OF f]
  have nul: "\<not> has_nul p" using assms(3) by (simp add: safe_path_def)
  show ?thesis
  proof (cases "f \<noteq> Pass \<or> p = [] \<or> nodes os (butlast p) = None \<or> nodes os p = None
      \<or> (nodes os p = Some Dir \<and> has_children (files os) p)")
    case True
    then have "os' = os1 \<and> r \<noteq> None \<and> (r = Some ENOENT \<longrightarrow> nodes os p = None)"
      using assms(1) f n nul safe_walk [OF assms(3,2)] absent_below [OF assms(2), of p]
      by (cases "p = []") (auto simp: remove_path_def split: option.splits node.splits if_splits)
    with n assms(2) show ?thesis by simp
  next
    case False
    then have p: "p \<noteq> []" "nodes os p \<noteq> None"
      and os': "os' = fs_del p os1 \<and> r = None"
      using assms(1) f n nul safe_walk [OF assms(3,2)]
      by (auto simp: remove_path_def split: option.splits node.splits if_splits)
    then have nodes: "nodes os' = (nodes os)(p := None)" using n(1) by (simp add: node_fs_del)
    have "nodes os (p @ [c]) = None" for c
      using False wf_no_child [OF assms(2), of p c] has_children_iff [of "files os" p] by auto
    then have "fs_wf (files os')" by (rule wf_del [OF assms(2) p(1) _ nodes])
    with os' n(2) nodes p show ?thesis by simp
  qed
qed

lemma remove_path_pass:
  assumes "fs_wf (files os)" "safe_path (files os) p" "no_faults os"
  shows "no_faults (fst (remove_path os p))"
    "nodes os p \<noteq> None \<Longrightarrow> nodes os p \<noteq> Some Dir \<Longrightarrow> snd (remove_path os p) = None"
proof -
  obtain f os1 where f: "next_fault os = (f, os1)" by fastforce
  note n = next_fault_cases [OF f]
  have nul: "\<not> has_nul p" using assms(2) by (simp add: safe_path_def)
  show "no_faults (fst (remove_path os p))"
    using f n nul assms(3) by (auto simp: remove_path_def split: sum.splits option.splits node.splits)
  assume nd: "nodes os p \<noteq> None" "nodes os p \<noteq> Some Dir"
  then have "p \<noteq> []" by auto
  then have "nodes os (butlast p) \<noteq> None" using nd assms(1) by (auto simp: fs_wf_def)
  then show "snd (remove_path os p) = None"
    using f n nul assms(3) nd safe_walk [OF assms(2,1) \<open>p \<noteq> []\<close>]
    by (auto simp: remove_path_def split: option.splits node.splits if_splits)
qed

lemma rename_path_cases:
  assumes "rename_path os p p' = (os', r)" "fs_wf (files os)"
    and "safe_path (files os) p" "safe_path (files os) p'" "p \<noteq> []" "p' \<noteq> []" "p \<noteq> p'"
  shows "undo_faults os' = undo_faults os \<and> fs_wf (files os') \<and>
    ((files os' = files os \<and> r \<noteq> None) \<or>
     (\<exists>d m. r = None \<and> nodes os p = Some (File d m) \<and> nodes os p' \<noteq> Some Dir
        \<and> nodes os (butlast p') = Some Dir \<and> nodes os' = (nodes os)(p := None, p' \<mapsto> File d m)))"
proof -
  obtain f os1 where f: "next_fault os = (f, os1)" by fastforce
  note n = next_fault_cases [OF f]
  have nul: "\<not> has_nul p" "\<not> has_nul p'" using assms(3,4) by (simp_all add: safe_path_def)
  note walks = safe_walk [OF assms(3,2,5)] safe_walk [OF assms(4,2,6)]
  note links = safe_not_link [OF assms(3)] safe_not_link [OF assms(4)]
  show ?thesis
  proof (cases "files os' = files os \<and> r \<noteq> None \<and> undo_faults os' = undo_faults os")
    case True
    then show ?thesis using assms(2) by simp
  next
    case False
    then obtain d m where src: "nodes os p = Some (File d m)" and dest: "nodes os p' \<noteq> Some Dir"
      "nodes os (butlast p') \<noteq> None" and os': "os' = fs_put p' (File d m) (fs_del p os1) \<and> r = None"
      using assms(1,7) f n nul walks links
      by (auto simp: rename_path_def split: option.splits node.splits if_splits)
    have dir: "nodes os (butlast p') = Some Dir" using dest(2) safe_parent [OF assms(4,6)] by auto
    have nodes1: "nodes (fs_del p os1) = (nodes os)(p := None)" using n(1) assms(5) by (simp add: node_fs_del)
    have wf1: "fs_wf (files (fs_del p os1))"
      by (rule wf_del [OF assms(2,5) _ nodes1]) (use src wf_no_child [OF assms(2)] in auto)
    have nodes2: "nodes os' = (nodes (fs_del p os1))(p' \<mapsto> File d m)" using os' assms(6) by (simp add: node_fs_put)
    have "butlast p' \<noteq> p" using dir src by auto
    moreover have "safe_path (files (fs_del p os1)) p'"
      using assms(4) by (auto simp: safe_path_def plain_path_def no_link_def nodes1)
    ultimately have "fs_wf (files os')"
      by (intro wf_put [OF wf1 _ assms(6) _ _ nodes2]) (use dest dir nodes1 in auto)
    then show ?thesis using os' n(2) src dest dir nodes1 nodes2 by auto
  qed
qed

text \<open>Only missing nodes became directories.\<close>

definition more_dirs :: "os \<Rightarrow> path \<Rightarrow> os \<Rightarrow> bool" where
  "more_dirs os p os' \<longleftrightarrow>
     (\<forall>q. nodes os' q = nodes os q \<or> (nodes os q = None \<and> nodes os' q = Some Dir \<and> prefix q p))"

lemma more_dirsD:
  "more_dirs os p os' \<Longrightarrow>
    nodes os' q = nodes os q \<or> (nodes os q = None \<and> nodes os' q = Some Dir \<and> prefix q p)"
  by (simp add: more_dirs_def)

lemma more_dirs_refl [simp]: "more_dirs os p os"
  by (simp add: more_dirs_def)

lemma more_dirs_files: "files os' = files os \<Longrightarrow> more_dirs os p os'"
  by (simp add: more_dirs_def)

lemma more_dirs_trans:
  "more_dirs os p os1 \<Longrightarrow> more_dirs os1 p' os2 \<Longrightarrow> prefix p p' \<Longrightarrow> more_dirs os p' os2"
  unfolding more_dirs_def by (metis prefix_order.trans)

lemma more_dirs_safe:
  assumes "more_dirs os p os'" "safe_path (files os) q"
  shows "safe_path (files os') q"
proof -
  have "plain_path (files os') q"
    using assms(2) more_dirsD [OF assms(1)] by (metis plain_path_def safe_path_def)
  moreover have "no_link (files os') q"
    using assms(2) more_dirsD [OF assms(1), of q] by (auto simp: safe_path_def no_link_def)
  ultimately show ?thesis using assms(2) by (simp add: safe_path_def)
qed

lemma make_dir_cases:
  assumes "make_dir os p = (os', r)" "fs_wf (files os)" "safe_path (files os) p" "p \<noteq> []"
  shows "undo_faults os' = undo_faults os \<and> fs_wf (files os') \<and> more_dirs os p os'
    \<and> (r = None \<longrightarrow> nodes os' p = Some Dir)
    \<and> (no_faults os \<longrightarrow> no_faults os' \<and>
        (nodes os (butlast p) = Some Dir \<longrightarrow> nodes os p = None \<longrightarrow> r = None))"
proof -
  obtain f os1 where f: "next_fault os = (f, os1)" by fastforce
  note n = next_fault_cases [OF f]
  have nul: "\<not> has_nul p" using assms(3) by (simp add: safe_path_def)
  show ?thesis
  proof (cases "f = Pass \<and> nodes os (butlast p) \<noteq> None \<and> nodes os p = None")
    case False
    then have os': "os' = os1 \<and> r \<noteq> None"
      using assms(1) f n nul safe_walk [OF assms(3,2,4)]
      by (auto simp: make_dir_def split: option.splits if_splits)
    with n(1) have "more_dirs os p os'" by (simp add: more_dirs_files)
    with os' False n assms(2) show ?thesis by auto
  next
    case True
    then have parent: "nodes os (butlast p) = Some Dir" using safe_parent [OF assms(3,4)] by auto
    have os': "os' = fs_put p Dir os1 \<and> r = None"
      using True parent assms(1) f n nul safe_walk [OF assms(3,2,4)] by (auto simp: make_dir_def)
    then have nodes: "nodes os' = (nodes os)(p \<mapsto> Dir)" using n(1) assms(4) by (simp add: node_fs_put)
    have "fs_wf (files os')" by (rule wf_put [OF assms(2-4) parent _ nodes]) simp
    moreover have "more_dirs os p os'" using nodes True by (auto simp: more_dirs_def)
    ultimately show ?thesis using os' n nodes by auto
  qed
qed

lemma mkdir_all_cases:
  assumes "mkdir_all os p = (os', r)" "fs_wf (files os)" "safe_path (files os) p"
  shows "undo_faults os' = undo_faults os \<and> fs_wf (files os') \<and> more_dirs os p os'
    \<and> (r = None \<longrightarrow> nodes os' p = Some Dir)
    \<and> (no_faults os \<longrightarrow> no_faults os' \<and> ((\<forall>d m. nodes os p \<noteq> Some (File d m)) \<longrightarrow> r = None))"
  using assms
proof (induction os p arbitrary: os' r rule: mkdir_all.induct)
  case (1 os p)
  note unfold = mkdir_all.simps [of os p] stat_safe(2) [OF "1.prems"(3,2)]
  show ?case
  proof (cases "nodes os p")
    case (Some nd)
    with "1.prems" show ?thesis by (cases nd) (auto simp: unfold safe_not_link)
  next
    case None
    then have ne: "p \<noteq> []" by auto
    obtain os1 r1 where m1: "mkdir_all os (butlast p) = (os1, r1)" by fastforce
    have stat: "stat (files os) p = Inl ENOENT" using None by (simp add: unfold)
    have bsafe: "safe_path (files os) (butlast p)" by (rule safe_path_prefix [OF "1.prems"(3) butlast_prefix])
    note IH = "1.IH" [OF stat ne m1 "1.prems"(2) bsafe]
    have dirs: "more_dirs os p os1" using IH more_dirs_trans [of os "butlast p" os1 p os1] butlast_prefix by auto
    have nofile: "\<forall>d m. nodes os (butlast p) \<noteq> Some (File d m)"
      using safe_parent [OF "1.prems"(3) ne] by auto
    have none1: "nodes os1 p = None"
    proof -
      have "\<not> prefix p (butlast p)" using ne
        by (metis butlast_prefix append_butlast_last_id append_self_conv not_Cons_self2 prefix_order.antisym)
      moreover have "more_dirs os (butlast p) os1" using IH by blast
      ultimately show ?thesis using more_dirsD [of os "butlast p" os1 p] None by simp
    qed
    show ?thesis
    proof (cases r1)
      case (Some e1)
      with "1.prems"(1) ne None m1 have "os' = os1 \<and> r = Some e1" by (simp add: unfold)
      with IH dirs Some nofile show ?thesis by auto
    next
      case r1: None
      obtain os2 r2 where m2: "make_dir os1 p = (os2, r2)" by fastforce
      have safe1: "safe_path (files os1) p" using more_dirs_safe [OF dirs "1.prems"(3)] .
      have wf1: "fs_wf (files os1)" using IH by simp
      note M = make_dir_cases [OF m2 wf1 safe1 ne]
      have os': "os' = os2" and r: "r = None \<longrightarrow> nodes os2 p = Some Dir" "r2 = None \<longrightarrow> r = None"
        using "1.prems"(1) ne None m1 r1 m2 M more_dirs_safe [of os1 p os2 p] safe1
        by (auto simp: unfold stat_safe split: option.splits sum.splits node.splits)
      have "more_dirs os p os2" using more_dirs_trans [OF dirs, of p os2] M by simp
      then show ?thesis using os' r IH M r1 none1 nofile by auto
    qed
  qed
qed

end
