(* ===== verification/Config.thy ===== *)
theory Config
  imports Workspace_Registry File_Calls
begin

text \<open>
  \<open>local-agent/internal/config/config.go\<close>: the settings of the agent, from the environment of the
  process. The environment is the function \<open>os.Getenv\<close>, which answers the empty text for what is not
  set. \<open>os.UserConfigDir\<close> and \<open>os.TempDir\<close> are the ones of Go 1.22 on Linux. Errors are values of a
  datatype whose constructors are the \<open>fmt.Errorf\<close> calls.
\<close>

section \<open>Settings\<close>

record agent_config =
  cfg_agent_id :: string
  cfg_agent_version :: string
  cfg_state_dir :: string
  cfg_max_file_bytes :: int
  cfg_ide_bind :: string
  cfg_ide_port :: int
  cfg_grpc_addr :: string

datatype config_error =
    State_dir_unresolved string
  | State_dir_uncreated errno
  | Ide_port_invalid string

definition default_max_search_results :: int where
  "default_max_search_results = 200"

definition default_config :: agent_config where
  "default_config =
     \<lparr>cfg_agent_id = [], cfg_agent_version = ''0.1.0-dev'', cfg_state_dir = [],
      cfg_max_file_bytes = 2 * 1024 * 1024, cfg_ide_bind = ''127.0.0.1'', cfg_ide_port = 0, cfg_grpc_addr = []\<rparr>"

section \<open>The state directory\<close>

definition user_config_dir :: "(string \<Rightarrow> string) \<Rightarrow> string option" where
  "user_config_dir getenv =
     (let dir = getenv ''XDG_CONFIG_HOME'' in
      if dir \<noteq> [] then Some dir
      else if getenv ''HOME'' = [] then None
      else Some (getenv ''HOME'' @ ''/.config''))"

definition temp_dir :: "(string \<Rightarrow> string) \<Rightarrow> string" where
  "temp_dir getenv = (if getenv ''TMPDIR'' = [] then ''/tmp'' else getenv ''TMPDIR'')"

definition join_two :: "string \<Rightarrow> string \<Rightarrow> string" where
  "join_two a b =
     (if a = [] \<and> b = [] then [] else if a = [] then clean b else if b = [] then clean a
      else clean (a @ slash # b))"

definition state_dir :: "(string \<Rightarrow> string) \<Rightarrow> string" where
  "state_dir getenv =
     (let dir = getenv ''ONCODE_AGENT_STATE_DIR'' in
      if dir \<noteq> [] then dir
      else join_two (case user_config_dir getenv of Some b \<Rightarrow> b | None \<Rightarrow> temp_dir getenv) ''oncode-agent'')"

text \<open>\<open>filepath.Abs\<close>, which asks for the working directory only where it needs it.\<close>

definition abs_dir :: "string + path \<Rightarrow> string \<Rightarrow> string + path" where
  "abs_dir getwd s =
     (if is_abs s then Inr (abs_path [] s)
      else case getwd of Inl e \<Rightarrow> Inl e | Inr cwd \<Rightarrow> Inr (abs_path cwd s))"

section \<open>Load\<close>

definition or_default :: "string \<Rightarrow> string \<Rightarrow> string" where
  "or_default v d = (if v \<noteq> [] then v else d)"

text \<open>The variable of the port: its value, or the error that quotes it.\<close>

definition ide_port :: "string \<Rightarrow> config_error + int" where
  "ide_port v =
     (if v = [] then Inr 0
      else case parse_int v of
        None \<Rightarrow> Inl (Ide_port_invalid v)
      | Some p \<Rightarrow> if p < 0 \<or> p > 65535 then Inl (Ide_port_invalid v) else Inr p)"

definition load_config :: "(string \<Rightarrow> string) \<Rightarrow> string + path \<Rightarrow> os \<Rightarrow> os \<times> (config_error + agent_config)" where
  "load_config getenv getwd os =
     (let cfg = default_config
            \<lparr>cfg_agent_version := or_default (getenv ''ONCODE_AGENT_VERSION'') (cfg_agent_version default_config),
             cfg_agent_id := getenv ''ONCODE_AGENT_ID''\<rparr>
      in case abs_dir getwd (state_dir getenv) of
           Inl e \<Rightarrow> (os, Inl (State_dir_unresolved e))
         | Inr dir \<Rightarrow>
             (case mkdir_all os dir of
                (os1, Some e) \<Rightarrow> (os1, Inl (State_dir_uncreated e))
              | (os1, None) \<Rightarrow>
                  (case ide_port (getenv ''ONCODE_IDE_IPC_PORT'') of
                     Inl e \<Rightarrow> (os1, Inl e)
                   | Inr port \<Rightarrow>
                       (os1, Inr (cfg\<lparr>cfg_state_dir := path_string dir,
                                      cfg_ide_bind := or_default (getenv ''ONCODE_IDE_IPC_BIND'') (cfg_ide_bind cfg),
                                      cfg_ide_port := port,
                                      cfg_grpc_addr := getenv ''ONCODE_SERVER_GRPC_ADDR''\<rparr>)))))"

section \<open>What loading answers\<close>

lemma ide_port_itoa: "0 \<le> p \<Longrightarrow> p \<le> 65535 \<Longrightarrow> ide_port (itoa p) = Inr p"
  using parse_int_itoa [of p] by (auto simp: ide_port_def int64_range_def itoa_def nat_digits_neq_Nil)

lemma ide_port_range: "ide_port v = Inr p \<Longrightarrow> 0 \<le> p \<and> p \<le> 65535"
  by (auto simp: ide_port_def split: if_splits option.splits)

text \<open>
  A configuration that loads has a state directory that exists, a port that fits and the limit of
  2 MiB for files; nothing but directories on the way to the state directory has been made.
\<close>

lemma load_config_ok:
  assumes "load_config getenv getwd os = (os', Inr cfg)" "fs_wf (files os)"
    and "abs_dir getwd (state_dir getenv) = Inr dir" "safe_path (files os) dir"
  shows "cfg_state_dir cfg = path_string dir" "nodes os' dir = Some Dir" "fs_wf (files os')"
    "0 \<le> cfg_ide_port cfg" "cfg_ide_port cfg \<le> 65535" "cfg_max_file_bytes cfg = 2097152"
    "more_dirs os dir os'"
proof -
  obtain os1 r port where m: "mkdir_all os dir = (os1, r)" by fastforce
  with assms(1,3) obtain port
    where ok: "r = None" "os' = os1" "ide_port (getenv ''ONCODE_IDE_IPC_PORT'') = Inr port"
      "cfg_state_dir cfg = path_string dir" "cfg_ide_port cfg = port" "cfg_max_file_bytes cfg = 2097152"
    by (auto simp: load_config_def default_config_def Let_def split: option.splits sum.splits)
  with mkdir_all_cases [OF m assms(2,4)] ide_port_range [OF ok(3)]
  show "cfg_state_dir cfg = path_string dir" "nodes os' dir = Some Dir" "fs_wf (files os')"
    "0 \<le> cfg_ide_port cfg" "cfg_ide_port cfg \<le> 65535" "cfg_max_file_bytes cfg = 2097152"
    "more_dirs os dir os'" by simp_all
qed

text \<open>A wrong port is refused only after the state directory has been made.\<close>

lemma wrong_port_makes_directory:
  assumes "abs_dir getwd (state_dir getenv) = Inr dir" "mkdir_all os dir = (os1, None)"
    and "ide_port (getenv ''ONCODE_IDE_IPC_PORT'') = Inl e"
  shows "load_config getenv getwd os = (os1, Inl e)"
  using assms by (simp add: load_config_def Let_def)

end
