(* ===== verification/Agent_Core.thy ===== *)
theory Agent_Core
  imports Tool_Contracts Config
begin

text \<open>
  \<open>local-agent/internal/agent/agent.go\<close>: the agent with all its tools, and the answer to one envelope
  of the server. The moment of a request (random bytes, clock, its formatted time, the time the call
  took) is an argument; \<open>None\<close> is a panic.
\<close>

section \<open>The agent\<close>

record platform =
  pf_os :: string
  pf_arch :: string

record agent =
  ag_config :: agent_config
  ag_tools :: "tool_world tool_registry"

definition new_agent_id :: "u8 list option \<Rightarrow> string + string" where
  "new_agent_id rnd =
     (case rnd of None \<Rightarrow> Inl ''random source failed'' | Some b \<Rightarrow> Inr (''agent-'' @ hex_encode b))"

definition agent_workspace_deps :: "agent_config \<Rightarrow> workspace_deps" where
  "agent_workspace_deps cfg =
     \<lparr>wd_approval = Some local_approval, wd_max_bytes = cfg_max_file_bytes cfg,
      wd_excludes = default_exclude_dirs, wd_max_hits = default_max_search_results\<rparr>"

definition agent_system_deps :: "platform \<Rightarrow> agent_config \<Rightarrow> system_deps" where
  "agent_system_deps pf cfg =
     \<lparr>sd_agent_id = cfg_agent_id cfg, sd_agent_version = cfg_agent_version cfg, sd_os = pf_os pf,
      sd_arch = pf_arch pf\<rparr>"

text \<open>The registrations in order; \<open>names\<close> is what the method value \<open>reg.Names\<close> answers when called.\<close>

definition agent_suite ::
  "machine \<Rightarrow> platform \<Rightarrow> (int \<Rightarrow> string) \<Rightarrow> agent_config \<Rightarrow> string list \<Rightarrow> tool_world tool_registry" where
  "agent_suite mc pf stamp cfg names =
     (let sys = agent_system_deps pf cfg;
          reg = register_tool ''system.get_capabilities'' (capabilities_tool sys names)
                  (register_tool ''system.ping'' (ping_tool sys stamp) new_tool_registry);
          reg = register_workspace_tools (agent_workspace_deps cfg) reg;
          reg = register_tool ''build.run'' (build_tool mc [maven_build]) reg;
          reg = register_tool ''test.run'' (test_tool mc [maven_test]) reg
      in register_tool ''git.diff'' (git_diff_tool mc)
           (register_tool ''git.status'' (git_status_tool mc) reg))"

definition new_agent ::
  "machine \<Rightarrow> platform \<Rightarrow> (int \<Rightarrow> string) \<Rightarrow> u8 list option \<Rightarrow> agent_config \<Rightarrow> string + agent" where
  "new_agent mc pf stamp rnd cfg0 =
     (case (if cfg_agent_id cfg0 = [] then new_agent_id rnd else Inr (cfg_agent_id cfg0)) of
        Inl e \<Rightarrow> Inl e
      | Inr i \<Rightarrow>
          let cfg = cfg0\<lparr>cfg_agent_id := i\<rparr>;
              names = tool_names (agent_suite mc pf stamp cfg [])
          in Inr \<lparr>ag_config = cfg, ag_tools = agent_suite mc pf stamp cfg names\<rparr>)"

section \<open>One envelope\<close>

record moment =
  mo_random :: "u8 list option"
  mo_now :: int
  mo_stamp :: string
  mo_elapsed :: int

type_synonym agent_state = "tool_world \<times> tool_event list"

definition error_envelope :: "moment \<Rightarrow> string \<Rightarrow> code \<Rightarrow> string \<Rightarrow> string + envelope" where
  "error_envelope mo call_id c msg =
     (case new_error c msg of
        Inl e \<Rightarrow> Inl e
      | Inr e \<Rightarrow>
          new_envelope (mo_random mo) (mo_now mo) (mo_stamp mo) ''RESPONSE''
            (Some (enc_response \<lparr>resp_call_id = call_id, resp_status = ''FAILED'', resp_result = None,
                                 resp_error = Some e, resp_duration_ms = None\<rparr>)))"

definition response_envelope :: "agent \<Rightarrow> moment \<Rightarrow> envelope \<Rightarrow> tool_response \<Rightarrow> string + envelope" where
  "response_envelope a mo env resp =
     (case new_envelope (mo_random mo) (mo_now mo) (mo_stamp mo) ''RESPONSE'' (Some (enc_response resp)) of
        Inl e \<Rightarrow> Inl e
      | Inr out \<Rightarrow>
          Inr (out\<lparr>env_session := env_session env, env_project := env_project env,
                   env_workspace := env_workspace env, env_workflow := env_workflow env,
                   env_work_item := env_work_item env, env_task := env_task env,
                   env_actor := Some \<lparr>actor_type = ''LOCAL_AGENT'', actor_id = cfg_agent_id (ag_config a)\<rparr>\<rparr>))"

definition handle_envelope ::
  "agent \<Rightarrow> moment \<Rightarrow> envelope option \<Rightarrow> agent_state \<Rightarrow> (agent_state \<times> (string + envelope)) option" where
  "handle_envelope a mo envo st =
     (case envo of
        None \<Rightarrow> Some (st, error_envelope mo [] InvalidRequest ''nil envelope'')
      | Some env \<Rightarrow>
      (case validate_envelope (Some env) of
         Some err \<Rightarrow> Some (st, error_envelope mo [] InvalidRequest err)
       | None \<Rightarrow>
       (case parse_compatible (env_protocol env) of
          Inl err \<Rightarrow> Some (st, error_envelope mo [] ProtocolVersionUnsupported err)
        | Inr _ \<Rightarrow>
            if env_type env \<noteq> ''REQUEST''
            then Some (st, error_envelope mo [] InvalidRequest ''expected REQUEST'')
            else (case (case env_payload env of None \<Rightarrow> None | Some j \<Rightarrow> dec_request j) of
               None \<Rightarrow> Some (st, error_envelope mo [] InvalidRequest ''invalid tool request payload'')
             | Some req \<Rightarrow>
                 (case dispatch (ag_tools a) True (mo_elapsed mo) (Some req) st of
                    None \<Rightarrow> None
                  | Some (st1, resp) \<Rightarrow> Some (st1, response_envelope a mo env resp))))))"

section \<open>Every tool meets the contract\<close>

lemma agent_suite_sound: "machine_ok mc \<Longrightarrow> sound_registry tools_ok (agent_suite mc pf stamp cfg names)"
  unfolding agent_suite_def register_workspace_tools_def Let_def
  by (intro sound_register sound_empty read_file_contract.tool_contract_axioms
      read_files_contract.tool_contract_axioms search_contract.tool_contract_axioms
      propose_contract.tool_contract_axioms apply_contract ping_contract.tool_contract_axioms
      capabilities_contract.tool_contract_axioms git_status_contract.tool_contract_axioms
      git_diff_contract.tool_contract_axioms build_contract test_contract)
    (auto simp: agent_workspace_deps_def maven_build.run_adapter_axioms maven_test.run_adapter_axioms)

lemma new_agent_sound:
  "machine_ok mc \<Longrightarrow> new_agent mc pf stamp rnd cfg = Inr a \<Longrightarrow> sound_registry tools_ok (ag_tools a)"
  by (auto simp: new_agent_def Let_def agent_suite_sound split: sum.splits)

text \<open>The names that \<open>get_capabilities\<close> reports are those of the tools of the agent.\<close>

lemma names_reported: "tool_names (agent_suite mc pf stamp cfg ns) = tool_names (agent_suite mc pf stamp cfg [])"
  by (simp add: agent_suite_def register_workspace_tools_def register_tool_def new_tool_registry_def
      tool_names_def Let_def)

section \<open>No panic with a source of random bytes\<close>

text \<open>A handler that returns whenever random bytes are at hand, and leaves them.\<close>

definition returns :: "tool_world handler \<Rightarrow> bool" where
  "returns h \<longleftrightarrow> (\<forall>w req. tw_random w \<noteq> None \<longrightarrow>
     (\<exists>w' out. h w req = Some (w', out) \<and> tw_random w' = tw_random w))"

lemma returnsI:
  "(\<And>w req. tw_random w \<noteq> None \<Longrightarrow>
     (case h w req of None \<Rightarrow> False | Some (w', out) \<Rightarrow> tw_random w' = tw_random w)) \<Longrightarrow> returns h"
  by (fastforce simp: returns_def split: option.splits prod.splits)

lemmas handler_cases = reply_def refuse_def Let_def

lemma tools_return:
  "returns (read_file_tool deps)" "returns (read_files_tool deps)" "returns (search_tool deps)"
  "returns (apply_tool deps)" "returns (git_status_tool mc)" "returns (git_diff_tool mc)"
  "returns (ping_tool sys stamp)" "returns (capabilities_tool sys names)"
  by (rule returnsI; auto simp: read_file_tool_def read_files_tool_def search_tool_def apply_tool_def
      git_status_tool_def git_diff_tool_def ping_tool_def capabilities_tool_def handler_cases
      split: sum.split option.split prod.split)+

lemma runs_return: "returns (build_tool mc as)" "returns (test_tool mc bs)"
  by (rule returnsI; auto simp: build_tool_def test_tool_def handler_cases
      split: sum.split option.split prod.split)+

lemma new_id_random: "known_kind k \<Longrightarrow> rnd \<noteq> None \<Longrightarrow> \<exists>i. new_id k rnd now = Inr i"
  by (auto simp: new_id_def new_v7_def Let_def)

lemma parse_returns: "tw_random w \<noteq> None \<Longrightarrow> parse_proposed_change_set a r m w \<noteq> None"
  using new_id_random [of KChangeSet "tw_random w" "tw_now w"]
  by (auto simp: parse_proposed_change_set_def Let_def split: option.splits sum.splits)

lemma propose_returns: "returns (propose_tool deps)"
  using parse_returns
  by (intro returnsI) (auto simp: propose_tool_def handler_cases
      split: sum.split option.split prod.split go_error.split)

definition live_registry :: "tool_world tool_registry \<Rightarrow> bool" where
  "live_registry reg \<longleftrightarrow> (\<forall>n h. get_tool reg n = Some h \<longrightarrow> returns h)"

lemma new_agent_live: "new_agent mc pf stamp rnd cfg = Inr a \<Longrightarrow> live_registry (ag_tools a)"
proof -
  have "live_registry (register_tool n h reg)" if "returns h" "live_registry reg" for n h reg
    using that by (simp add: live_registry_def tool_store.look_ins)
  moreover have "live_registry new_tool_registry" by (simp add: live_registry_def get_tool_def new_tool_registry_def)
  ultimately have "live_registry (agent_suite mc pf stamp c ns)" for c ns
    unfolding agent_suite_def register_workspace_tools_def Let_def
    by (simp add: tools_return runs_return propose_returns)
  then show "new_agent mc pf stamp rnd cfg = Inr a \<Longrightarrow> live_registry (ag_tools a)"
    by (auto simp: new_agent_def Let_def split: sum.splits)
qed

lemma dispatch_returns:
  assumes "live_registry reg" "tw_random w \<noteq> None"
  shows "\<exists>w' events' resp. dispatch reg audit t (Some req) (w, events) = Some ((w', events'), resp)
    \<and> tw_random w' = tw_random w"
proof -
  obtain req1 ve where v: "validate_request req = (req1, ve)" by fastforce
  show ?thesis
  proof (cases "ve = None \<and> get_tool reg (req_tool req1) \<noteq> None")
    case True
    then obtain h where h: "get_tool reg (req_tool req1) = Some h" by auto
    with assms obtain w' out where "h w req1 = Some (w', out)" "tw_random w' = tw_random w"
      unfolding live_registry_def returns_def by blast
    with True h v show ?thesis by (simp add: dispatch_def Let_def)
  qed (use v in \<open>auto simp: dispatch_def Let_def split: option.split\<close>)
qed

section \<open>The answers are well-formed\<close>

lemma response_envelope_valid:
  assumes "mo_random mo = Some u" "length u = 16" "mo_stamp mo \<noteq> []" "validate_envelope (Some env) = None"
    and "response_envelope a mo env resp = r"
  shows "\<exists>out. r = Inr out \<and> validate_envelope (Some out) = None \<and> env_type out = ''RESPONSE''
    \<and> env_payload out = Some (enc_response resp) \<and> env_workspace out = env_workspace env
    \<and> env_actor out = Some \<lparr>actor_type = ''LOCAL_AGENT'', actor_id = cfg_agent_id (ag_config a)\<rparr>"
proof -
  obtain i where i: "new_id KMessage (Some u) (mo_now mo) = Inr i"
    by (simp add: new_id_def new_v7_def Let_def split: sum.splits)
  obtain v where v: "parse_compatible version_current = Inr v"
    using version_current_compatible by (auto elim: is_okE)
  have "new_envelope (mo_random mo) (mo_now mo) (mo_stamp mo) ''RESPONSE'' (Some (enc_response resp))
      = Inr (empty_envelope\<lparr>env_protocol := version_current, env_type := ''RESPONSE'', env_message_id := i,
          env_timestamp := mo_stamp mo, env_payload := Some (enc_response resp)\<rparr>)"
    by (simp add: new_envelope_def assms(1) i)
  with assms(3,4) assms(5) [symmetric] v new_message_id_valid [OF assms(2) i] show ?thesis
    by (simp add: response_envelope_def validate_envelope_def message_types_def empty_envelope_def
        split: sum.splits)
qed

lemma call_answered:
  assumes "machine_ok mc" "new_agent mc pf stamp rnd cfg = Inr a" "tools_ok w" "tw_random w \<noteq> None"
    and "mo_random mo = Some u" "length u = 16" "mo_stamp mo \<noteq> []" "int64_range (mo_elapsed mo)"
    and "validate_envelope (Some env) = None" "env_type env = ''REQUEST''"
    and "env_payload env = Some j" "dec_request j = Some req"
  shows "\<exists>w' events' out resp. handle_envelope a mo (Some env) (w, events) = Some ((w', events'), Inr out)
    \<and> validate_envelope (Some out) = None \<and> env_type out = ''RESPONSE''
    \<and> env_workspace out = env_workspace env \<and> env_payload out = Some (enc_response resp)
    \<and> env_actor out = Some \<lparr>actor_type = ''LOCAL_AGENT'', actor_id = cfg_agent_id (ag_config a)\<rparr>
    \<and> good_response resp \<and> fits (req_call_id req) resp \<and> tools_ok w' \<and> tw_random w' = tw_random w"
proof -
  obtain v where v: "parse_compatible (env_protocol env) = Inr v"
    using assms(9) by (auto simp: validate_envelope_def split: sum.splits)
  obtain w' events' resp
    where d: "dispatch (ag_tools a) True (mo_elapsed mo) (Some req) (w, events) = Some ((w', events'), resp)"
      and r: "tw_random w' = tw_random w"
    using dispatch_returns [OF new_agent_live [OF assms(2)] assms(4)] by blast
  have h: "handle_envelope a mo (Some env) (w, events) = Some ((w', events'), response_envelope a mo env resp)"
    using assms(9-12) v d by (simp add: handle_envelope_def)
  from dispatch_fits [OF new_agent_sound [OF assms(1,2)] assms(3,8) d]
  have fits: "fits (req_call_id req) resp" and ok: "tools_ok w'" by simp_all
  from fits have "good_response resp" by (auto simp: fits_def good_response_def)
  with h response_envelope_valid [OF assms(5-7,9) refl, of a resp] fits ok r show ?thesis by auto
qed

text \<open>
  C31. The agent with all its tools answers every valid request envelope whose payload is a tool call
  with a valid identifier: it does not panic, and its answer is a valid \<open>RESPONSE\<close> envelope of the same
  workspace, whose payload reads as a valid response to that call: the status is one of the
  protocol's, a failure carries an error of the catalog. The invariant of the shared state is kept.
\<close>

theorem agent_answers_valid:
  assumes "machine_ok mc" "new_agent mc pf stamp rnd cfg = Inr a" "tools_ok w" "tw_random w \<noteq> None"
    and "mo_random mo = Some u" "length u = 16" "mo_stamp mo \<noteq> []" "int64_range (mo_elapsed mo)"
    and "validate_envelope (Some env) = None" "env_type env = ''REQUEST''"
    and "env_payload env = Some j" "dec_request j = Some req" "validate_id KCall (req_call_id req) = None"
  shows "\<exists>w' events' out resp. handle_envelope a mo (Some env) (w, events) = Some ((w', events'), Inr out)
    \<and> validate_envelope (Some out) = None \<and> env_type out = ''RESPONSE''
    \<and> env_workspace out = env_workspace env \<and> env_payload out = Some (enc_response resp)
    \<and> dec_response (enc_response resp) = Some resp \<and> validate_response resp = None
    \<and> resp_call_id resp = req_call_id req \<and> tools_ok w'"
proof -
  from call_answered [OF assms(1-12), of events] obtain w' events' out resp
    where h: "handle_envelope a mo (Some env) (w, events) = Some ((w', events'), Inr out)"
      "validate_envelope (Some out) = None" "env_type out = ''RESPONSE''"
      "env_workspace out = env_workspace env" "env_payload out = Some (enc_response resp)"
      "good_response resp" "fits (req_call_id req) resp" "tools_ok w'" by blast
  with response_codec.dec_enc [OF h(6)] fits_valid [OF assms(13) h(7)] show ?thesis by (auto simp: fits_def)
qed

text \<open>
  C34. Of the agent's tools only \<open>workspace.apply_changes\<close> and the tools that start a process can
  change a file or the registry: every other call leaves both as they were, and only
  \<open>workspace.propose_changes\<close> changes the state at all.
\<close>

theorem only_apply_and_runs_write:
  assumes "new_agent mc pf stamp rnd cfg = Inr a" "get_tool (ag_tools a) n = Some h"
    and "n \<notin> {''workspace.apply_changes'', ''build.run'', ''test.run'', ''git.status'', ''git.diff''}"
    and "h w req = Some (w', out)"
  shows "tw_os w' = tw_os w \<and> tw_registry w' = tw_registry w
    \<and> (n \<noteq> ''workspace.propose_changes'' \<longrightarrow> w' = w)"
proof -
  obtain c ns where a: "ag_tools a = agent_suite mc pf stamp c ns"
    using assms(1) by (auto simp: new_agent_def Let_def split: sum.splits)
  let ?d = "agent_workspace_deps c" and ?s = "agent_system_deps pf c"
  have "(n = ''workspace.propose_changes'' \<and> h = propose_tool ?d)
    \<or> (n \<noteq> ''workspace.propose_changes'' \<and>
       h \<in> {read_file_tool ?d, read_files_tool ?d, search_tool ?d, ping_tool ?s stamp, capabilities_tool ?s ns})"
    using assms(2,3) unfolding a agent_suite_def register_workspace_tools_def Let_def tool_store.look_ins
    by (auto simp: get_tool_def new_tool_registry_def split: if_splits)
  with assms(4) show ?thesis
    by (auto simp: propose_tool_def read_file_tool_def read_files_tool_def search_tool_def ping_tool_def
        capabilities_tool_def Let_def split: handler_splits go_error.splits)
qed

section \<open>A ping\<close>

definition demo_machine :: machine where
  "demo_machine =
     \<lparr>mc_exec = (\<lambda>cmd os. (os, \<lparr>ch_stdout = [], ch_stderr = [], ch_ctx = None, ch_error = None,
                               ch_state = Some 0, ch_millis = 1\<rparr>)),
      mc_look_path = (\<lambda>_. None), mc_cwd = []\<rparr>"

definition demo_tools :: tool_world where
  "demo_tools =
     \<lparr>tw_registry = [], tw_proposals = Some [],
      tw_os = \<lparr>files = demo_fs, umask = 0, faults = [], undo_faults = []\<rparr>, tw_now = 1,
      tw_random = Some (replicate 16 0)\<rparr>"

definition demo_moment :: moment where
  "demo_moment = \<lparr>mo_random = Some (replicate 16 0), mo_now = 1, mo_stamp = ''t'', mo_elapsed = 2\<rparr>"

definition demo_agent_config :: agent_config where
  "demo_agent_config = default_config\<lparr>cfg_agent_version := ''v'', cfg_max_file_bytes := 100, cfg_agent_id := ''a1''\<rparr>"

definition demo_agent :: agent where
  "demo_agent = \<lparr>ag_config = demo_agent_config,
     ag_tools = agent_suite demo_machine \<lparr>pf_os = ''linux'', pf_arch = ''amd64''\<rparr> (\<lambda>_. ''t'') demo_agent_config
       (tool_names (agent_suite demo_machine \<lparr>pf_os = ''linux'', pf_arch = ''amd64''\<rparr> (\<lambda>_. ''t'')
          demo_agent_config []))\<rparr>"

definition demo_call :: tool_request where
  "demo_call = \<lparr>req_call_id = ''CALL-00000000-0000-7000-8000-000000000000'', req_tool = ''system.ping'',
     req_arguments = Some [], req_timeout_ms = None\<rparr>"

definition demo_envelope :: envelope where
  "demo_envelope = empty_envelope\<lparr>env_protocol := version_current, env_type := ''REQUEST'',
     env_message_id := ''MSG-00000000-0000-7000-8000-000000000000'', env_timestamp := ''t'',
     env_payload := Some (enc_request demo_call)\<rparr>"

lemma demo_machine_ok: "machine_ok demo_machine"
  by (simp add: machine_ok_def demo_machine_def int64_range_def)

lemma demo_new_agent:
  "new_agent demo_machine \<lparr>pf_os = ''linux'', pf_arch = ''amd64''\<rparr> (\<lambda>_. ''t'') None demo_agent_config = Inr demo_agent"
  by (simp add: new_agent_def demo_agent_def demo_agent_config_def Let_def)

theorem agent_answers_valid_witness:
  "\<exists>w' events' out resp. handle_envelope demo_agent demo_moment (Some demo_envelope) (demo_tools, [])
      = Some ((w', events'), Inr out)
    \<and> env_payload out = Some (enc_response resp) \<and> validate_response resp = None
    \<and> resp_call_id resp = req_call_id demo_call"
proof -
  have env: "validate_envelope (Some demo_envelope) = None" by code_simp
  have call: "validate_id KCall (req_call_id demo_call) = None" by code_simp
  have p: "env_type demo_envelope = ''REQUEST''" "env_payload demo_envelope = Some (enc_request demo_call)"
    by (simp_all add: demo_envelope_def)
  have dec: "dec_request (enc_request demo_call) = Some demo_call"
    by (rule request_codec.dec_enc) (simp add: good_request_def demo_call_def)
  have "tools_ok demo_tools" "tw_random demo_tools \<noteq> None"
    by (simp_all add: tools_ok_def keyed_registry_def sound_store_def demo_tools_def)
  from agent_answers_valid [OF demo_machine_ok demo_new_agent this _ _ _ _ env p dec call,
      of demo_moment "replicate 16 0" "[]"]
  show ?thesis by (auto simp: demo_moment_def int64_range_def)
qed

theorem only_apply_and_runs_write_witness:
  "get_tool (ag_tools demo_agent) ''workspace.read_file'' = Some (read_file_tool (agent_workspace_deps demo_agent_config))
    \<and> (\<exists>out. read_file_tool (agent_workspace_deps demo_agent_config) demo_tools demo_call = Some (demo_tools, out))"
proof -
  let ?h = "read_file_tool (agent_workspace_deps demo_agent_config)"
  have g: "get_tool (ag_tools demo_agent) ''workspace.read_file'' = Some ?h"
    by (simp add: demo_agent_def agent_suite_def register_workspace_tools_def get_tool_def register_tool_def
        new_tool_registry_def update_conv' Let_def)
  obtain w' out where h: "?h demo_tools demo_call = Some (w', out)"
    by (simp add: read_file_tool_def arg_str_def arguments_def demo_call_def get_str_def reply_def)
  from only_apply_and_runs_write [OF demo_new_agent g _ h] have "w' = demo_tools" by simp
  with g h show ?thesis by blast
qed

text \<open>
  What the agent cannot take as a call it answers by an error envelope without a call identifier,
  whose payload is therefore no valid response.
\<close>

lemma error_envelope_unaddressed:
  assumes "error_envelope mo [] c msg = Inr out"
  shows "\<exists>resp. env_payload out = Some (enc_response resp) \<and> validate_response resp \<noteq> None"
proof -
  have "validate_id KCall [] \<noteq> None" by code_simp
  with assms show ?thesis
    by (fastforce simp: error_envelope_def new_envelope_def validate_response_def split: sum.splits)
qed

end
