(* ===== verification/Transport_Memory.thy ===== *)
theory Transport_Memory
  imports Agent_Core
begin

text \<open>
  \<open>local-agent/internal/transport/memory.go\<close> and the loop of \<open>transport.go\<close>: the in-process
  transport with its two buffered channels, the agent's loop over it, and the harness at the other
  end. The system is a step relation whose steps are the points where goroutines interleave: a send
  checks the closed flag under the lock and writes to the channel afterwards. A select takes any of
  its ready cases. What was injected and what was read are kept as history.
\<close>

section \<open>The transport\<close>

record 'e memory =
  mem_cap :: nat
  mem_requests :: "'e list"
  mem_responses :: "'e list"
  mem_closed :: bool
  mem_agent :: string

definition new_memory :: "int \<Rightarrow> 'e memory" where
  "new_memory buffer =
     \<lparr>mem_cap = (if buffer < 1 then 8 else nat buffer), mem_requests = [], mem_responses = [],
      mem_closed = False, mem_agent = []\<rparr>"

definition close_memory :: "'e memory \<Rightarrow> 'e memory" where
  "close_memory m = (if mem_closed m then m else m\<lparr>mem_closed := True\<rparr>)"

definition register_agent :: "bool \<Rightarrow> string \<Rightarrow> 'e memory \<Rightarrow> 'e memory \<times> string option" where
  "register_agent ctx_done i m =
     (if ctx_done then (m, Some ''context canceled'') else (m\<lparr>mem_agent := i\<rparr>, None))"

text \<open>A receive from a channel: buffered values first, then the end of a closed channel.\<close>

inductive receive_request :: "bool \<Rightarrow> 'e memory \<Rightarrow> 'e memory \<Rightarrow> string + 'e \<Rightarrow> bool" where
  receive_done: "receive_request True m m (Inl ''context canceled'')"
| receive_value: "mem_requests m = e # es \<Longrightarrow> receive_request ctx_done m (m\<lparr>mem_requests := es\<rparr>) (Inr e)"
| receive_end: "mem_requests m = [] \<Longrightarrow> mem_closed m \<Longrightarrow>
    receive_request ctx_done m m (Inl ''transport closed'')"

inductive next_response :: "bool \<Rightarrow> 'e memory \<Rightarrow> 'e memory \<Rightarrow> string + 'e \<Rightarrow> bool" where
  response_done: "next_response True m m (Inl ''context canceled'')"
| response_value: "mem_responses m = e # es \<Longrightarrow> next_response ctx_done m (m\<lparr>mem_responses := es\<rparr>) (Inr e)"
| response_end: "mem_responses m = [] \<Longrightarrow> mem_closed m \<Longrightarrow>
    next_response ctx_done m m (Inl ''transport closed'')"

text \<open>
  A send after the check of the flag: nil, the error of the context, or a panic (\<open>None\<close>) when the
  channel was closed meanwhile.
\<close>

inductive send_response :: "bool \<Rightarrow> 'e \<Rightarrow> 'e memory \<Rightarrow> 'e memory \<Rightarrow> string option option \<Rightarrow> bool" where
  send_done: "send_response True e m m (Some (Some ''context canceled''))"
| send_value: "\<not> mem_closed m \<Longrightarrow> length (mem_responses m) < mem_cap m \<Longrightarrow>
    send_response ctx_done e m (m\<lparr>mem_responses := mem_responses m @ [e]\<rparr>) (Some None)"
| send_closed: "mem_closed m \<Longrightarrow> send_response ctx_done e m m None"

inductive inject_request :: "bool \<Rightarrow> 'e \<Rightarrow> 'e memory \<Rightarrow> 'e memory \<Rightarrow> string option option \<Rightarrow> bool" where
  inject_done: "inject_request True e m m (Some (Some ''context canceled''))"
| inject_value: "\<not> mem_closed m \<Longrightarrow> length (mem_requests m) < mem_cap m \<Longrightarrow>
    inject_request ctx_done e m (m\<lparr>mem_requests := mem_requests m @ [e]\<rparr>) (Some None)"
| inject_closed: "mem_closed m \<Longrightarrow> inject_request ctx_done e m m None"

inductive_cases receive_requestE: "receive_request d m m' r"
inductive_cases next_responseE: "next_response d m m' r"
inductive_cases send_responseE: "send_response d e m m' r"
inductive_cases inject_requestE: "inject_request d e m m' r"

section \<open>The loop and its environment\<close>

datatype 'e loop_pc =
    At_receive
  | At_handle 'e
  | At_check 'e
  | At_send 'e
  | Returned string
  | Panicked

type_synonym ('w, 'e) loop_handler = "'w \<Rightarrow> 'e \<Rightarrow> ('w \<times> (string + 'e option)) option"

record ('w, 'e) net =
  net_mem :: "'e memory"
  net_done :: bool
  net_pc :: "'e loop_pc"
  net_world :: 'w
  net_inject :: "'e option"
  net_sent :: "'e list"
  net_got :: "'e list"

datatype 'e net_event = Agent | Next | Inject 'e | Inject_send | Close | Cancel

text \<open>One turn of \<open>Loop\<close> after the handler returned.\<close>

fun after_handle :: "string + 'e option \<Rightarrow> 'e loop_pc" where
  "after_handle (Inl err) = Returned err"
| "after_handle (Inr None) = At_receive"
| "after_handle (Inr (Some r)) = At_check r"

inductive net_step :: "('w, 'e) loop_handler \<Rightarrow> ('w, 'e) net \<Rightarrow> 'e net_event \<Rightarrow> ('w, 'e) net \<Rightarrow> bool"
  for h where
  step_receive: "net_pc s = At_receive \<Longrightarrow> receive_request (net_done s) (net_mem s) m r \<Longrightarrow>
    net_step h s Agent
      (s\<lparr>net_mem := m, net_pc := (case r of Inl err \<Rightarrow> Returned err | Inr e \<Rightarrow> At_handle e)\<rparr>)"
| step_handle: "net_pc s = At_handle e \<Longrightarrow> h (net_world s) e = Some (w, out) \<Longrightarrow>
    net_step h s Agent (s\<lparr>net_world := w, net_pc := after_handle out\<rparr>)"
| step_panic: "net_pc s = At_handle e \<Longrightarrow> h (net_world s) e = None \<Longrightarrow>
    net_step h s Agent (s\<lparr>net_pc := Panicked\<rparr>)"
| step_check: "net_pc s = At_check r \<Longrightarrow>
    net_step h s Agent
      (s\<lparr>net_pc := (if mem_closed (net_mem s) then Returned ''transport closed'' else At_send r)\<rparr>)"
| step_send: "net_pc s = At_send r \<Longrightarrow> send_response (net_done s) r (net_mem s) m out \<Longrightarrow>
    net_step h s Agent
      (s\<lparr>net_mem := m,
         net_pc := (case out of None \<Rightarrow> Panicked | Some None \<Rightarrow> At_receive | Some (Some err) \<Rightarrow> Returned err)\<rparr>)"
| step_next: "next_response (net_done s) (net_mem s) m (Inr r) \<Longrightarrow>
    net_step h s Next (s\<lparr>net_mem := m, net_got := net_got s @ [r]\<rparr>)"
| step_inject: "net_inject s = None \<Longrightarrow> \<not> mem_closed (net_mem s) \<Longrightarrow>
    net_step h s (Inject e) (s\<lparr>net_inject := Some e\<rparr>)"
| step_inject_send: "net_inject s = Some e \<Longrightarrow> inject_request (net_done s) e (net_mem s) m (Some out) \<Longrightarrow>
    net_step h s Inject_send
      (s\<lparr>net_mem := m, net_inject := None,
         net_sent := (if out = None then net_sent s @ [e] else net_sent s)\<rparr>)"
| step_inject_panic: "net_inject s = Some e \<Longrightarrow> inject_request (net_done s) e (net_mem s) m None \<Longrightarrow>
    net_step h s Inject_send (s\<lparr>net_pc := Panicked, net_inject := None\<rparr>)"
| step_close: "net_step h s Close (s\<lparr>net_mem := close_memory (net_mem s)\<rparr>)"
| step_cancel: "net_step h s Cancel (s\<lparr>net_done := True\<rparr>)"

inductive_cases net_stepE: "net_step h s ev s'"

inductive net_run :: "('w, 'e) loop_handler \<Rightarrow> ('w, 'e) net \<Rightarrow> 'e net_event list \<Rightarrow> ('w, 'e) net \<Rightarrow> bool"
  for h where
  run_nil: "net_run h s [] s"
| run_step: "net_step h s ev s1 \<Longrightarrow> net_run h s1 evs s2 \<Longrightarrow> net_run h s (ev # evs) s2"

definition net_init :: "int \<Rightarrow> 'w \<Rightarrow> ('w, 'e) net" where
  "net_init buffer w =
     \<lparr>net_mem = new_memory buffer, net_done = False, net_pc = At_receive, net_world = w,
      net_inject = None, net_sent = [], net_got = []\<rparr>"

section \<open>The sequential reference\<close>

text \<open>The handler applied to the requests one after the other, up to an error or a panic.\<close>

fun serve :: "('w, 'e) loop_handler \<Rightarrow> 'w \<Rightarrow> 'e list \<Rightarrow> 'e list" where
  "serve h w [] = []"
| "serve h w (e # es) =
     (case h w e of
        None \<Rightarrow> []
      | Some (w', Inl _) \<Rightarrow> []
      | Some (w', Inr None) \<Rightarrow> serve h w' es
      | Some (w', Inr (Some r)) \<Rightarrow> r # serve h w' es)"

text \<open>The state and the answers after requests that were all handled.\<close>

fun served :: "('w, 'e) loop_handler \<Rightarrow> 'w \<Rightarrow> 'e list \<Rightarrow> ('w \<times> 'e list) option" where
  "served h w [] = Some (w, [])"
| "served h w (e # es) =
     (case h w e of
        Some (w', Inr out) \<Rightarrow> map_option (\<lambda>(w'', rs). (w'', (case out of None \<Rightarrow> rs | Some r \<Rightarrow> r # rs))) (served h w' es)
      | _ \<Rightarrow> None)"

lemma serve_append: "served h w es = Some (w', rs) \<Longrightarrow> serve h w (es @ fs) = rs @ serve h w' fs"
  by (induction es arbitrary: w rs) (auto split: option.splits sum.splits prod.splits)

lemma served_append:
  "served h w es = Some (w', rs) \<Longrightarrow> h w' e = Some (w'', Inr out) \<Longrightarrow>
    served h w (es @ [e]) = Some (w'', rs @ (case out of None \<Rightarrow> [] | Some r \<Rightarrow> [r]))"
  by (induction es arbitrary: w rs) (auto split: option.splits sum.splits prod.splits)

section \<open>The invariant\<close>

fun held :: "'e loop_pc \<Rightarrow> 'e list" where
  "held (At_handle e) = [e]"
| "held _ = []"

fun owed :: "'e loop_pc \<Rightarrow> 'e list" where
  "owed (At_check r) = [r]"
| "owed (At_send r) = [r]"
| "owed _ = []"

fun running :: "'e loop_pc \<Rightarrow> bool" where
  "running (Returned _) = False"
| "running Panicked = False"
| "running _ = True"

text \<open>
  What the loop has done with the requests that were accepted: those before the one it handles and
  those still queued were handled in their order, and gave the answers so far and the one it owes.
\<close>

definition serving ::
  "('w, 'e) loop_handler \<Rightarrow> 'w \<Rightarrow> 'e list \<Rightarrow> 'e list \<Rightarrow> 'e loop_pc \<Rightarrow> 'w \<Rightarrow> 'e list \<Rightarrow> bool" where
  "serving h w0 accepted queue pc w ans \<longleftrightarrow>
     (\<exists>taken. accepted = taken @ held pc @ queue \<and> served h w0 taken = Some (w, ans @ owed pc))"

lemma serve_prefix: "prefix (serve h w es) (serve h w (es @ fs))"
  by (induction es arbitrary: w) (auto split: option.splits sum.splits)

lemma serving_prefix: "serving h w0 accepted queue pc w ans \<Longrightarrow> prefix ans (serve h w0 accepted)"
  by (auto simp: serving_def serve_append)

lemma serving_receive:
  "serving h w0 accepted (e # es) At_receive w ans \<Longrightarrow> serving h w0 accepted es (At_handle e) w ans"
  by (simp add: serving_def)

lemma serving_handle:
  assumes "serving h w0 accepted queue (At_handle e) w ans" "h w e = Some (w', Inr out)"
  shows "serving h w0 accepted queue (after_handle (Inr out)) w' ans"
proof -
  obtain taken where t: "accepted = taken @ e # queue" "served h w0 taken = Some (w, ans)"
    using assms(1) by (auto simp: serving_def)
  from served_append [OF t(2) assms(2)] t(1) show ?thesis
    by (cases out) (auto simp: serving_def intro!: exI [of _ "taken @ [e]"])
qed

lemma serving_send:
  "serving h w0 accepted queue (At_check r) w ans \<Longrightarrow> serving h w0 accepted queue (At_send r) w ans"
  "serving h w0 accepted queue (At_send r) w ans \<Longrightarrow> serving h w0 accepted queue At_receive w (ans @ [r])"
  by (simp_all add: serving_def)

lemma serving_more:
  "serving h w0 accepted queue pc w ans \<Longrightarrow> serving h w0 (accepted @ new) (queue @ new) pc w ans"
  unfolding serving_def by (metis append.assoc)

lemma serving_start: "serving h w0 [] [] At_receive w0 []"
  by (simp add: serving_def)

lemma serving_done: "serving h w0 accepted [] At_receive w ans \<Longrightarrow> serve h w0 accepted = ans"
  using serve_append [of h w0 accepted w ans "[]"] by (auto simp: serving_def)

definition in_order :: "('w, 'e) loop_handler \<Rightarrow> 'w \<Rightarrow> ('w, 'e) net \<Rightarrow> bool" where
  "in_order h w0 s =
     serving h w0 (net_sent s) (mem_requests (net_mem s)) (net_pc s) (net_world s)
       (net_got s @ mem_responses (net_mem s))"

definition history_ok :: "('w, 'e) loop_handler \<Rightarrow> 'w \<Rightarrow> ('w, 'e) net \<Rightarrow> bool" where
  "history_ok h w0 s \<longleftrightarrow>
     prefix (net_got s @ mem_responses (net_mem s)) (serve h w0 (net_sent s))
     \<and> (running (net_pc s) \<longrightarrow> in_order h w0 s)"

lemma history_okI: "in_order h w0 s \<Longrightarrow> history_ok h w0 s"
  by (simp add: history_ok_def in_order_def serving_prefix)

lemma history_dead:
  "\<not> running (net_pc s) \<Longrightarrow> prefix (net_got s @ mem_responses (net_mem s)) (serve h w0 (net_sent s)) \<Longrightarrow>
    history_ok h w0 s"
  by (simp add: history_ok_def)

lemma agent_step_ok:
  assumes "net_step h s Agent s'" "history_ok h w0 s"
  shows "history_ok h w0 s'"
proof -
  have run: "running (net_pc s)" using assms(1) by (auto elim!: net_stepE)
  with assms(2) have o: "serving h w0 (net_sent s) (mem_requests (net_mem s)) (net_pc s) (net_world s)
      (net_got s @ mem_responses (net_mem s))"
    and p: "prefix (net_got s @ mem_responses (net_mem s)) (serve h w0 (net_sent s))"
    by (simp_all add: history_ok_def in_order_def)
  from assms(1) show ?thesis
  proof cases
    case (step_receive m r)
    from step_receive(3) show ?thesis
    proof cases
      case (receive_value e es)
      with step_receive o show ?thesis by (intro history_okI) (auto simp: in_order_def intro: serving_receive)
    qed (use step_receive p in \<open>auto intro!: history_dead\<close>)
  next
    case (step_handle e w out)
    show ?thesis
    proof (cases out)
      case (Inr ro)
      with step_handle o show ?thesis
        by (intro history_okI) (simp add: in_order_def serving_handle)
    qed (use step_handle p in \<open>auto intro!: history_dead\<close>)
  next
    case (step_panic e)
    with p show ?thesis by (auto intro!: history_dead)
  next
    case (step_check r)
    show ?thesis
    proof (cases "mem_closed (net_mem s)")
      case True
      with step_check p show ?thesis by (auto intro!: history_dead)
    next
      case False
      with step_check o show ?thesis by (intro history_okI) (simp add: in_order_def serving_send)
    qed
  next
    case (step_send r m out)
    from step_send(3) show ?thesis
    proof cases
      case send_value
      with step_send o show ?thesis
        using serving_send(2) by (intro history_okI) (fastforce simp: in_order_def)
    qed (use step_send p in \<open>auto intro!: history_dead\<close>)
  qed
qed

lemma in_order_cong:
  "in_order h w0 s \<Longrightarrow> net_sent s' = net_sent s @ new \<Longrightarrow> mem_requests (net_mem s') = mem_requests (net_mem s) @ new
    \<Longrightarrow> net_pc s' = net_pc s \<Longrightarrow> net_world s' = net_world s
    \<Longrightarrow> net_got s' @ mem_responses (net_mem s') = net_got s @ mem_responses (net_mem s) \<Longrightarrow> in_order h w0 s'"
  by (simp add: in_order_def serving_more)

lemma other_step_ok:
  assumes "net_step h s ev s'" "ev \<noteq> Agent" "history_ok h w0 s"
  shows "history_ok h w0 s'"
proof -
  have "\<exists>new. net_sent s' = net_sent s @ new
      \<and> mem_requests (net_mem s') = mem_requests (net_mem s) @ new
      \<and> (net_pc s' = net_pc s \<or> net_pc s' = Panicked) \<and> net_world s' = net_world s
      \<and> net_got s' @ mem_responses (net_mem s') = net_got s @ mem_responses (net_mem s)"
    using assms(1,2)
    by cases (auto simp: close_memory_def elim!: inject_requestE next_responseE)
  then obtain new where n: "net_sent s' = net_sent s @ new"
      "mem_requests (net_mem s') = mem_requests (net_mem s) @ new"
      "net_pc s' = net_pc s \<or> net_pc s' = Panicked" "net_world s' = net_world s"
      "net_got s' @ mem_responses (net_mem s') = net_got s @ mem_responses (net_mem s)" by blast
  have "prefix (net_got s' @ mem_responses (net_mem s')) (serve h w0 (net_sent s'))"
    using assms(3) n(1,5) serve_prefix [of h w0 "net_sent s" new]
    by (auto simp: history_ok_def intro: prefix_order.trans)
  moreover have "in_order h w0 s'" if "running (net_pc s')"
    using that n(3) assms(3) by (intro in_order_cong [OF _ n(1,2) _ n(4,5)]) (auto simp: history_ok_def)
  ultimately show ?thesis by (simp add: history_ok_def)
qed

lemma step_ok: "net_step h s ev s' \<Longrightarrow> history_ok h w0 s \<Longrightarrow> history_ok h w0 s'"
  by (cases "ev = Agent") (auto intro: agent_step_ok other_step_ok)

lemma run_ok: "net_run h s evs s' \<Longrightarrow> history_ok h w0 s \<Longrightarrow> history_ok h w0 s'"
  by (induction rule: net_run.induct) (auto dest: step_ok)

lemma init_ok: "history_ok h w0 (net_init b w0)"
  by (auto intro!: history_okI serving_start simp: in_order_def net_init_def new_memory_def)

section \<open>Progress\<close>

text \<open>
  A handler that answers in every state with the property \<open>ok\<close>, which it keeps, on a transport that is neither closed nor cancelled: the steps of
  the agent and of the reader use up what is left to do.
\<close>

definition answering :: "('w \<Rightarrow> bool) \<Rightarrow> ('w, 'e) loop_handler \<Rightarrow> bool" where
  "answering ok h \<longleftrightarrow> (\<forall>w e. ok w \<longrightarrow> (\<exists>w' r. h w e = Some (w', Inr (Some r)) \<and> ok w'))"

lemma answeringE:
  assumes "answering ok h" "ok w"
  obtains w' r where "h w e = Some (w', Inr (Some r))" "ok w'"
  using assms by (auto simp: answering_def) blast

fun pc_weight :: "'e loop_pc \<Rightarrow> nat" where
  "pc_weight (At_handle _) = 4"
| "pc_weight (At_check _) = 3"
| "pc_weight (At_send _) = 2"
| "pc_weight _ = 0"

definition left_to_do :: "('w, 'e) net \<Rightarrow> nat" where
  "left_to_do s = 5 * length (mem_requests (net_mem s)) + pc_weight (net_pc s) + length (mem_responses (net_mem s))"

definition open_net :: "('w, 'e) net \<Rightarrow> bool" where
  "open_net s \<longleftrightarrow> \<not> net_done s \<and> \<not> mem_closed (net_mem s) \<and> running (net_pc s) \<and> 0 < mem_cap (net_mem s)"

lemma quiet_step:
  assumes "answering ok h" "ok (net_world s)" "open_net s" "net_step h s ev s'" "ev = Agent \<or> ev = Next"
  shows "open_net s' \<and> left_to_do s = Suc (left_to_do s') \<and> net_sent s' = net_sent s \<and> net_inject s' = net_inject s"
  using assms(4)
proof cases
  case (step_handle e w out)
  obtain w' r where "h (net_world s) e = Some (w', Inr (Some r))" by (rule answeringE [OF assms(1,2)])
  with step_handle assms(3) show ?thesis by (auto simp: open_net_def left_to_do_def)
next
  case (step_panic e)
  obtain w' r where "h (net_world s) e = Some (w', Inr (Some r))" by (rule answeringE [OF assms(1,2)])
  with step_panic show ?thesis by simp
qed (use assms(3,5) in \<open>auto simp: open_net_def left_to_do_def elim!: receive_requestE send_responseE next_responseE\<close>)

lemma step_world:
  "net_step h s ev s' \<Longrightarrow> answering ok h \<Longrightarrow> ok (net_world s) \<Longrightarrow> ok (net_world s')"
proof (induction rule: net_step.induct)
  case (step_handle s e w out)
  obtain w' r where "h (net_world s) e = Some (w', Inr (Some r))" "ok w'"
    by (rule answeringE [OF step_handle.prems])
  with step_handle.hyps show ?case by simp
qed simp_all

lemma run_world:
  "net_run h s evs s' \<Longrightarrow> answering ok h \<Longrightarrow> ok (net_world s) \<Longrightarrow> ok (net_world s')"
  by (induction rule: net_run.induct) (auto intro: step_world)

lemma quiet_enabled:
  assumes "answering ok h" "ok (net_world s)" "open_net s" "0 < left_to_do s"
  shows "\<exists>ev s'. (ev = Agent \<or> ev = Next) \<and> net_step h s ev s'"
proof (cases "mem_responses (net_mem s)")
  case (Cons r rs)
  then have "next_response (net_done s) (net_mem s) ((net_mem s)\<lparr>mem_responses := rs\<rparr>) (Inr r)"
    by (rule response_value)
  then show ?thesis by (blast intro: step_next)
next
  case empty: Nil
  show ?thesis
  proof (cases "net_pc s")
    case At_receive
    with assms(4) empty obtain e es where "mem_requests (net_mem s) = e # es"
      by (cases "mem_requests (net_mem s)") (auto simp: left_to_do_def)
    then have "receive_request (net_done s) (net_mem s) ((net_mem s)\<lparr>mem_requests := es\<rparr>) (Inr e)"
      by (rule receive_value)
    with At_receive show ?thesis by (blast intro: step_receive)
  next
    case (At_handle e)
    obtain w' r where "h (net_world s) e = Some (w', Inr (Some r))" by (rule answeringE [OF assms(1,2)])
    with At_handle show ?thesis by (blast intro: step_handle)
  next
    case (At_check r)
    then show ?thesis by (blast intro: step_check)
  next
    case (At_send r)
    have "send_response (net_done s) r (net_mem s) ((net_mem s)\<lparr>mem_responses := mem_responses (net_mem s) @ [r]\<rparr>) (Some None)"
      using assms(3) empty by (intro send_value) (auto simp: open_net_def)
    with At_send show ?thesis by (blast intro: step_send)
  qed (use assms(3) in \<open>auto simp: open_net_def\<close>)
qed

definition quiet :: "'e net_event list \<Rightarrow> bool" where
  "quiet evs \<longleftrightarrow> set evs \<subseteq> {Agent, Next}"

lemma quiet_run:
  "net_run h s evs s' \<Longrightarrow> answering ok h \<Longrightarrow> ok (net_world s) \<Longrightarrow> open_net s \<Longrightarrow> quiet evs \<Longrightarrow>
    open_net s' \<and> left_to_do s = length evs + left_to_do s' \<and> net_sent s' = net_sent s"
proof (induction rule: net_run.induct)
  case (run_step s ev s1 evs s2)
  with quiet_step [OF run_step.prems(1-3) run_step.hyps(1)] step_world [OF run_step.hyps(1) run_step.prems(1,2)]
  show ?case by (auto simp: quiet_def)
qed (simp add: quiet_def)

lemma nothing_left:
  assumes "open_net s" "left_to_do s = 0" "history_ok h w0 s"
  shows "net_got s = serve h w0 (net_sent s)"
proof -
  have "net_pc s = At_receive" using assms(1,2) by (cases "net_pc s") (auto simp: open_net_def left_to_do_def)
  with assms(2,3) have "serving h w0 (net_sent s) [] At_receive (net_world s) (net_got s)"
    by (simp add: history_ok_def in_order_def left_to_do_def)
  then show ?thesis by (simp add: serving_done)
qed

section \<open>Properties\<close>

text \<open>
  C33. Over the in-process transport the loop implements the sequential reference: in every state that
  any interleaving of the agent, the reader, the injecting and the closing goroutines can reach, what
  the reader has got, followed by what is still buffered, is the beginning of the answers to the
  injected requests, handled one after the other in their order.
\<close>

theorem memory_refines_serve:
  assumes "net_run h (net_init buffer w0) evs s"
  shows "prefix (net_got s @ mem_responses (net_mem s)) (serve h w0 (net_sent s))"
  using run_ok [OF assms init_ok] by (simp add: history_ok_def)

text \<open>
  With a handler that answers, on an open transport, every request is answered: the agent and the
  reader can only take finitely many steps before they need a new request, and when neither can take
  a step any more the reader has got exactly the answers to all injected requests, in order.
\<close>

lemma loop_answers_all:
  assumes "answering ok h" "ok w0" "net_run h (net_init buffer w0) evs s" "open_net s"
    and "net_run h s evs' s'" "quiet evs'"
  shows "length evs' \<le> left_to_do s
    \<and> ((\<forall>ev s''. ev = Agent \<or> ev = Next \<longrightarrow> \<not> net_step h s' ev s'') \<longrightarrow> net_got s' = serve h w0 (net_sent s))"
proof -
  have ok: "ok (net_world s)" by (rule run_world [OF assms(3,1)]) (simp add: net_init_def assms(2))
  note q = quiet_run [OF assms(5,1) ok assms(4,6)] and ok' = run_world [OF assms(5,1) ok]
  have "history_ok h w0 s'" using run_ok [OF assms(5) run_ok [OF assms(3) init_ok]] .
  with q quiet_enabled [OF assms(1) ok'] nothing_left [of s' h w0] show ?thesis by fastforce
qed

lemma quiet_finish:
  assumes "answering ok h" "ok (net_world s)" "open_net s"
  shows "\<exists>evs s'. net_run h s evs s' \<and> quiet evs \<and> (\<forall>ev s''. ev = Agent \<or> ev = Next \<longrightarrow> \<not> net_step h s' ev s'')"
  using assms
proof (induction "left_to_do s" arbitrary: s rule: less_induct)
  case less
  show ?case
  proof (cases "\<exists>ev s1. (ev = Agent \<or> ev = Next) \<and> net_step h s ev s1")
    case True
    then obtain ev s1 where s1: "ev = Agent \<or> ev = Next" "net_step h s ev s1" by blast
    with quiet_step [OF less.prems s1(2,1)] less.hyps [of s1] step_world [OF s1(2) less.prems(1,2)] less.prems(1)
    obtain evs s' where "net_run h s1 evs s'" "quiet evs" "\<forall>ev s''. ev = Agent \<or> ev = Next \<longrightarrow> \<not> net_step h s' ev s''"
      by auto
    with s1 have "net_run h s (ev # evs) s'" "quiet (ev # evs)" by (auto simp: quiet_def intro: run_step)
    with \<open>\<forall>ev s''. _\<close> show ?thesis by blast
  next
    case False
    moreover have "quiet []" by (simp add: quiet_def)
    ultimately show ?thesis using run_nil [of h s] by blast
  qed
qed

section \<open>The agent over the transport\<close>

text \<open>\<open>Serve\<close> runs the loop with \<open>HandleEnvelope\<close>; \<open>clock\<close> gives the moment of each request.\<close>

definition agent_handler :: "agent \<Rightarrow> (agent_state \<Rightarrow> moment) \<Rightarrow> (agent_state, envelope) loop_handler" where
  "agent_handler a clock st env =
     map_option (\<lambda>(st', r). (st', map_sum id Some r)) (handle_envelope a (clock st) (Some env) st)"

lemma envelope_made:
  "mo_random mo \<noteq> None \<Longrightarrow> known_code c \<Longrightarrow> \<exists>e. error_envelope mo i c msg = Inr e"
  "mo_random mo \<noteq> None \<Longrightarrow> \<exists>e. response_envelope a mo env resp = Inr e"
proof -
  assume r: "mo_random mo \<noteq> None"
  obtain i' where i: "new_id KMessage (mo_random mo) (mo_now mo) = Inr i'"
    using new_id_random [OF _ r, of KMessage "mo_now mo"] by auto
  then show "\<exists>e. response_envelope a mo env resp = Inr e"
    by (simp add: response_envelope_def new_envelope_def)
  assume "known_code c"
  then obtain m where "catalog c = Some m" unfolding known_code_def by blast
  with i show "\<exists>e. error_envelope mo i c msg = Inr e"
    by (simp add: error_envelope_def new_envelope_def new_error_def Let_def)
qed

lemma handle_envelope_cases:
  obtains (rejected) c msg where "handle_envelope a mo (Some env) st = Some (st, error_envelope mo [] c msg)"
      "c = InvalidRequest \<or> c = ProtocolVersionUnsupported"
  | (dispatched) req where "handle_envelope a mo (Some env) st =
      (case dispatch (ag_tools a) True (mo_elapsed mo) (Some req) st of
         None \<Rightarrow> None | Some (st1, resp) \<Rightarrow> Some (st1, response_envelope a mo env resp))"
  unfolding handle_envelope_def
  by (cases "validate_envelope (Some env)"; cases "parse_compatible (env_protocol env)";
      cases "env_type env = ''REQUEST''"; cases "case env_payload env of None \<Rightarrow> None | Some j \<Rightarrow> dec_request j")
    simp_all

lemma agent_answering:
  assumes "new_agent mc pf stamp rnd cfg = Inr a" "\<And>st. mo_random (clock st) \<noteq> None"
  shows "answering (\<lambda>st. tw_random (fst st) \<noteq> None) (agent_handler a clock)"
  unfolding answering_def
proof (intro allI impI)
  fix st :: agent_state and env
  assume r: "tw_random (fst st) \<noteq> None"
  obtain w events where st: "st = (w, events)" by fastforce
  have codes: "known_code InvalidRequest" "known_code ProtocolVersionUnsupported" by code_simp+
  note made = envelope_made(1) [OF assms(2) [of st] codes(1)] envelope_made(1) [OF assms(2) [of st] codes(2)]
    envelope_made(2) [OF assms(2) [of st]]
  have "\<exists>st' e. handle_envelope a (clock st) (Some env) st = Some (st', Inr e) \<and> tw_random (fst st') \<noteq> None"
  proof (cases rule: handle_envelope_cases [where a = a and mo = "clock st" and env = env and st = st])
    case (rejected c msg)
    with made(1) [of "[]" msg] made(2) [of "[]" msg] r show ?thesis by auto
  next
    case (dispatched req)
    have "tw_random w \<noteq> None" using r st by simp
    from dispatch_returns [OF new_agent_live [OF assms(1)] this, of True "mo_elapsed (clock st)" req events]
    obtain w' events' resp
      where "dispatch (ag_tools a) True (mo_elapsed (clock st)) (Some req) st = Some ((w', events'), resp)"
        "tw_random w' = tw_random w" unfolding st by blast
    with dispatched made(3) [of a env resp] \<open>tw_random w \<noteq> None\<close> show ?thesis by auto
  qed
  then show "\<exists>w' r. agent_handler a clock st env = Some (w', Inr (Some r)) \<and> tw_random (fst w') \<noteq> None"
    by (auto simp: agent_handler_def)
qed

text \<open>A request envelope that carries a tool call.\<close>

definition proper_call :: "envelope \<Rightarrow> bool" where
  "proper_call env \<longleftrightarrow> validate_envelope (Some env) = None
     \<and> (\<exists>req. env_payload env = Some (enc_request req) \<and> good_request req
          \<and> validate_id KCall (req_call_id req) = None)"

text \<open>The moments of the requests, and the state the tools work on.\<close>

definition good_clock :: "(agent_state \<Rightarrow> moment) \<Rightarrow> bool" where
  "good_clock clock \<longleftrightarrow> (\<forall>st. (\<exists>u. mo_random (clock st) = Some u \<and> length u = 16)
     \<and> mo_stamp (clock st) \<noteq> [] \<and> int64_range (mo_elapsed (clock st)))"

definition live_state :: "agent_state \<Rightarrow> bool" where
  "live_state st \<longleftrightarrow> tools_ok (fst st) \<and> tw_random (fst st) \<noteq> None"

text \<open>
  A reply to an envelope: a \<open>RESPONSE\<close> whose payload is a tool response, and for a proper call a valid
  envelope of the same workspace with a valid response to that very call.
\<close>

definition replies_to :: "envelope \<Rightarrow> envelope \<Rightarrow> bool" where
  "replies_to env out \<longleftrightarrow> env_type out = ''RESPONSE'' \<and>
     (\<exists>resp. env_payload out = Some (enc_response resp)
       \<and> (proper_call env \<and> env_type env = ''REQUEST'' \<longrightarrow>
            validate_envelope (Some out) = None \<and> env_workspace out = env_workspace env
            \<and> validate_response resp = None
            \<and> (\<exists>req. env_payload env = Some (enc_request req) \<and> resp_call_id resp = req_call_id req)))"

lemma reply_made:
  "error_envelope mo i c msg = Inr out \<Longrightarrow> env_type out = ''RESPONSE'' \<and> (\<exists>resp. env_payload out = Some (enc_response resp))"
  "response_envelope a mo env resp = Inr out \<Longrightarrow> env_type out = ''RESPONSE'' \<and> (\<exists>resp. env_payload out = Some (enc_response resp))"
  by (auto simp: error_envelope_def response_envelope_def new_envelope_def empty_envelope_def split: sum.splits)

lemma agent_replies:
  assumes "machine_ok mc" "new_agent mc pf stamp rnd cfg = Inr a" "good_clock clock" "live_state st"
  shows "\<exists>st' out. agent_handler a clock st env = Some (st', Inr (Some out)) \<and> live_state st' \<and> replies_to env out"
proof -
  obtain w events where st: "st = (w, events)" by fastforce
  obtain u where u: "mo_random (clock st) = Some u" "length u = 16" "mo_stamp (clock st) \<noteq> []"
    "int64_range (mo_elapsed (clock st))"
    using assms(3) unfolding good_clock_def by blast
  have w: "tools_ok w" "tw_random w \<noteq> None" using assms(4) st by (simp_all add: live_state_def)
  have "\<exists>st' out. handle_envelope a (clock st) (Some env) st = Some (st', Inr out) \<and> live_state st' \<and> replies_to env out"
  proof (cases "proper_call env \<and> env_type env = ''REQUEST''")
    case True
    then obtain req where req: "validate_envelope (Some env) = None" "env_payload env = Some (enc_request req)"
      "good_request req" "validate_id KCall (req_call_id req) = None" "env_type env = ''REQUEST''"
      unfolding proper_call_def by blast
    from call_answered [OF assms(1,2) w u req(1,5,2) request_codec.dec_enc [OF req(3)], of events]
    obtain w' events' out resp
      where h: "handle_envelope a (clock st) (Some env) (w, events) = Some ((w', events'), Inr out)"
        "validate_envelope (Some out) = None" "env_type out = ''RESPONSE''" "env_workspace out = env_workspace env"
        "env_payload out = Some (enc_response resp)" "fits (req_call_id req) resp" "tools_ok w'"
        "tw_random w' = tw_random w" by blast
    have "replies_to env out"
      unfolding replies_to_def
      using h(2-6) req(2) fits_valid [OF req(4) h(6)] by (auto simp: fits_def)
    with h(1,7,8) w(2) st show ?thesis by (auto simp: live_state_def)
  next
    case False
    have codes: "known_code InvalidRequest" "known_code ProtocolVersionUnsupported" by code_simp+
    have r: "mo_random (clock st) \<noteq> None" using u(1) by simp
    note made = envelope_made(1) [OF r codes(1)] envelope_made(1) [OF r codes(2)] envelope_made(2) [OF r]
    show ?thesis
    proof (cases rule: handle_envelope_cases [where a = a and mo = "clock st" and env = env and st = st])
      case (rejected c msg)
      with made(1) [of "[]" msg] made(2) [of "[]" msg] obtain out
        where out: "error_envelope (clock st) [] c msg = Inr out" by auto
      with reply_made(1) [OF out] False have "replies_to env out" by (auto simp: replies_to_def)
      with rejected(1) out assms(4) show ?thesis by simp
    next
      case (dispatched req)
      from dispatch_returns [OF new_agent_live [OF assms(2)] w(2), of True "mo_elapsed (clock st)" req events]
      obtain w' events' resp
        where d: "dispatch (ag_tools a) True (mo_elapsed (clock st)) (Some req) (w, events) = Some ((w', events'), resp)"
          "tw_random w' = tw_random w" by blast
      from dispatch_fits [OF new_agent_sound [OF assms(1,2)] w(1) u(4) d(1)] have "tools_ok w'" by simp
      moreover obtain out where out: "response_envelope a (clock st) env resp = Inr out" using made(3) by blast
      moreover have "replies_to env out" using reply_made(2) [OF out] False by (auto simp: replies_to_def)
      ultimately show ?thesis using dispatched d w(2) st by (auto simp: live_state_def)
    qed
  qed
  then show ?thesis by (auto simp: agent_handler_def)
qed

lemma agent_serves_replies:
  assumes "machine_ok mc" "new_agent mc pf stamp rnd cfg = Inr a" "good_clock clock"
  shows "live_state st \<Longrightarrow> list_all2 replies_to envs (serve (agent_handler a clock) st envs)"
proof (induction envs arbitrary: st)
  case (Cons e es)
  obtain st' out where "agent_handler a clock st e = Some (st', Inr (Some out))" "live_state st'" "replies_to e out"
    using agent_replies [OF assms Cons.prems] by blast
  with Cons.IH show ?case by simp
qed simp

text \<open>
  C32. The agent serving over the in-process transport answers every request: whatever was injected,
  read, and interleaved before, as long as the transport is open and the loop runs, the agent and the
  reader take finitely many steps until they need a new request, and then every injected envelope has
  its reply: the reader has got exactly one answer for each, in their order, each a \<open>RESPONSE\<close>, and the
  answer to a proper call is a valid envelope of its workspace with a valid response to that call. They
  are the answers of the agent handling the envelopes one after the other.
\<close>

theorem agent_serves_all:
  assumes "machine_ok mc" "new_agent mc pf stamp rnd cfg = Inr a" "good_clock clock" "live_state st0"
    and "net_run (agent_handler a clock) (net_init buffer st0) evs s" "open_net s"
    and "net_run (agent_handler a clock) s evs' s'" "quiet evs'"
  shows "length evs' \<le> left_to_do s
    \<and> ((\<forall>ev s''. ev = Agent \<or> ev = Next \<longrightarrow> \<not> net_step (agent_handler a clock) s' ev s'')
        \<longrightarrow> list_all2 replies_to (net_sent s) (net_got s')
          \<and> net_got s' = serve (agent_handler a clock) st0 (net_sent s))"
proof -
  have "mo_random (clock st) \<noteq> None" for st
    using assms(3) unfolding good_clock_def by (metis option.distinct(1))
  note ans = agent_answering [OF assms(2) this]
  have "tw_random (fst st0) \<noteq> None" using assms(4) by (simp add: live_state_def)
  note all = loop_answers_all [OF ans this assms(5-8)]
  show ?thesis using all agent_serves_replies [OF assms(1-4), of "net_sent s"] by simp
qed

section \<open>Runs\<close>

lemma net_run_append: "net_run h s evs s1 \<Longrightarrow> net_run h s1 evs' s2 \<Longrightarrow> net_run h s (evs @ evs') s2"
  by (induction rule: net_run.induct) (auto intro: run_step)

definition injected :: "int \<Rightarrow> 'w \<Rightarrow> 'e \<Rightarrow> ('w, 'e) net" where
  "injected buffer w e =
     (net_init buffer w)\<lparr>net_mem := (new_memory buffer)\<lparr>mem_requests := [e]\<rparr>, net_sent := [e]\<rparr>"

lemma injected_run:
  fixes h :: "('w, 'e) loop_handler"
  shows "net_run h (net_init buffer w) [Inject e, Inject_send] (injected buffer w e)"
proof -
  let ?s0 = "net_init buffer w :: ('w, 'e) net"
  have "net_step h ?s0 (Inject e) (?s0\<lparr>net_inject := Some e\<rparr>)"
    by (rule step_inject) (simp_all add: net_init_def new_memory_def)
  moreover have "net_step h (?s0\<lparr>net_inject := Some e\<rparr>) Inject_send (injected buffer w e)"
  proof -
    have "inject_request False e (new_memory buffer) ((new_memory buffer)\<lparr>mem_requests := [e]\<rparr>) (Some None)"
      using inject_value [of "new_memory buffer" False e] by (simp add: new_memory_def)
    from step_inject_send [of "?s0\<lparr>net_inject := Some e\<rparr>" e _ None h] this show ?thesis
      by (simp add: injected_def net_init_def)
  qed
  ultimately show ?thesis by (blast intro: run_step run_nil)
qed

lemma injected_open: "open_net (injected buffer w e)"
  by (simp add: open_net_def injected_def net_init_def new_memory_def)

lemma injected_sent [simp]: "net_sent (injected buffer w e) = [e]" "net_world (injected buffer w e) = w"
  by (simp_all add: injected_def net_init_def)

theorem memory_refines_serve_witness:
  "\<exists>evs s. net_run (\<lambda>w e. Some (w + e, Inr (Some (w + e)))) (net_init 1 (2::int)) evs s \<and> net_sent s = [5]
    \<and> prefix (net_got s @ mem_responses (net_mem s)) [7]"
proof -
  let ?h = "\<lambda>w e. Some (w + e, Inr (Some (w + e)))"
  have run: "net_run ?h (net_init 1 (2::int)) [Inject 5, Inject_send] (injected 1 2 (5::int))" by (rule injected_run)
  from memory_refines_serve [OF run]
  have "prefix (net_got (injected 1 (2::int) (5::int)) @ mem_responses (net_mem (injected 1 (2::int) 5))) [7]" by simp
  with run injected_sent(1) [of 1 "2::int" "5::int"] show ?thesis by blast
qed

theorem agent_serves_all_witness:
  "\<exists>evs s' out. net_run (agent_handler demo_agent (\<lambda>_. demo_moment)) (injected 1 (demo_tools, []) demo_envelope) evs s'
    \<and> length evs \<le> 5 \<and> net_got s' = [out] \<and> replies_to demo_envelope out"
proof -
  let ?h = "agent_handler demo_agent (\<lambda>_. demo_moment)" and ?st = "(demo_tools, []) :: agent_state"
  let ?s = "injected 1 ?st demo_envelope"
  have clock: "good_clock (\<lambda>_. demo_moment)" by (simp add: good_clock_def demo_moment_def int64_range_def)
  have live: "live_state ?st"
    by (simp add: live_state_def tools_ok_def keyed_registry_def sound_store_def demo_tools_def)
  have ans: "answering (\<lambda>st. tw_random (fst st) \<noteq> None) ?h"
    by (rule agent_answering [OF demo_new_agent]) (simp add: demo_moment_def)
  have "tw_random (fst (net_world ?s)) \<noteq> None" using live by (simp add: live_state_def)
  from quiet_finish [OF ans this injected_open] obtain evs s' where s': "net_run ?h ?s evs s'" "quiet evs"
    "\<forall>ev s''. ev = Agent \<or> ev = Next \<longrightarrow> \<not> net_step ?h s' ev s''" by blast
  have five: "left_to_do ?s = 5" by (simp add: left_to_do_def injected_def net_init_def new_memory_def)
  note all = agent_serves_all [OF demo_machine_ok demo_new_agent clock live injected_run injected_open s'(1,2)]
  have "length evs \<le> 5" using conjunct1 [OF all] unfolding five .
  moreover have "list_all2 replies_to [demo_envelope] (net_got s')"
    using conjunct1 [OF mp [OF conjunct2 [OF all] s'(3)]] by (simp only: injected_sent)
  then obtain out where "net_got s' = [out]" "replies_to demo_envelope out"
    unfolding list_all2_Cons1 list_all2_Nil by blast
  ultimately show ?thesis using s'(1) by blast
qed

text \<open>
  A transport closed between the check of the flag and the write to the channel panics the agent.
\<close>

lemma close_race_panics:
  assumes "h w e = Some (w', Inr (Some r))"
  shows "\<exists>s. net_run h (net_init buffer w) [Inject e, Inject_send, Agent, Agent, Agent, Close, Agent] s
    \<and> net_pc s = Panicked"
proof -
  let ?s = "injected buffer w e"
  let ?m = "(net_mem ?s)\<lparr>mem_requests := []\<rparr>"
  let ?s1 = "?s\<lparr>net_mem := ?m, net_pc := At_handle e\<rparr>"
  let ?s2 = "?s1\<lparr>net_world := w', net_pc := At_check r\<rparr>"
  let ?s3 = "?s2\<lparr>net_pc := At_send r\<rparr>"
  let ?s4 = "?s3\<lparr>net_mem := close_memory ?m\<rparr>"
  have "receive_request (net_done ?s) (net_mem ?s) ?m (Inr e)"
    by (rule receive_value) (simp add: injected_def)
  from step_receive [OF _ this] have 1: "net_step h ?s Agent ?s1" by (simp add: injected_def net_init_def)
  have 2: "net_step h ?s1 Agent ?s2"
    using step_handle [of ?s1 e h w' "Inr (Some r)"] assms by (simp add: injected_def net_init_def)
  have 3: "net_step h ?s2 Agent ?s3"
    using step_check [of ?s2 r h] by (simp add: injected_def net_init_def new_memory_def)
  have 4: "net_step h ?s3 Close ?s4" using step_close [of h ?s3] by simp
  have "send_response (net_done ?s4) r (net_mem ?s4) (net_mem ?s4) None"
    by (rule send_closed) (simp add: close_memory_def)
  from step_send [OF _ this, of h] have 5: "net_step h ?s4 Agent (?s4\<lparr>net_pc := Panicked\<rparr>)" by simp
  have "net_run h ?s [Agent, Agent, Agent, Close, Agent] (?s4\<lparr>net_pc := Panicked\<rparr>)"
    by (rule run_step [OF 1 run_step [OF 2 run_step [OF 3 run_step [OF 4 run_step [OF 5 run_nil]]]]])
  from net_run_append [OF injected_run this]
  have "net_run h (net_init buffer w) [Inject e, Inject_send, Agent, Agent, Agent, Close, Agent] (?s4\<lparr>net_pc := Panicked\<rparr>)"
    by simp
  then show ?thesis by (intro exI conjI) auto
qed

end
