(* ===== verification/Grpc_Adapt.thy ===== *)
theory Grpc_Adapt
  imports Protocol_Codec
begin

text \<open>
  \<open>protocol/grpcadapt/adapt.go\<close>: the conversion between the envelopes of the agent and the
  protobuf messages of the stream. The generated message types are records of their fields;
  an enumeration is its number. A protobuf string that carries JSON text is modelled by the
  value it denotes (\<open>Text\<close>), with the empty and the malformed text apart.
\<close>

section \<open>Protobuf messages\<close>

datatype wire_json = NoText | BadText | Text json

record pb_actor =
  pba_type :: int
  pba_id :: string

record pb_target =
  pbt_type :: string
  pbt_id :: string

record pb_request =
  pbq_call :: string
  pbq_tool :: string
  pbq_arguments :: wire_json
  pbq_timeout :: int

record pb_error =
  pbe_code :: string
  pbe_category :: string
  pbe_message :: string
  pbe_retryable :: bool
  pbe_details :: wire_json

record pb_response =
  pbr_call :: string
  pbr_status :: int
  pbr_result :: wire_json
  pbr_error :: "pb_error option"
  pbr_metrics :: "int option"

record pb_event =
  pbv_event :: string
  pbv_execution :: string
  pbv_data :: wire_json

record pb_envelope =
  pb_protocol :: string
  pb_type :: int
  pb_message_id :: string
  pb_timestamp :: string
  pb_session :: string
  pb_project :: string
  pb_workspace :: string
  pb_workflow :: string
  pb_work_item :: string
  pb_task :: string
  pb_actor :: "pb_actor option"
  pb_target :: "pb_target option"
  pb_request :: "pb_request option"
  pb_response :: "pb_response option"
  pb_event :: "pb_event option"

section \<open>Enumerations\<close>

definition to_proto_message_type :: "string \<Rightarrow> int" where
  "to_proto_message_type v =
     (if v = ''REQUEST'' then 1 else if v = ''RESPONSE'' then 2 else if v = ''EVENT'' then 3
      else if v = ''CANCEL'' then 4 else if v = ''ACK'' then 5 else 0)"

definition from_proto_message_type :: "int \<Rightarrow> string" where
  "from_proto_message_type v =
     (if v = 1 then ''REQUEST'' else if v = 2 then ''RESPONSE'' else if v = 3 then ''EVENT''
      else if v = 4 then ''CANCEL'' else if v = 5 then ''ACK'' else [])"

definition to_proto_actor_type :: "string \<Rightarrow> int" where
  "to_proto_actor_type t =
     (if t = ''USER'' then 1 else if t = ''AGENT'' then 2 else if t = ''ORCHESTRATOR'' then 3
      else if t = ''LOCAL_AGENT'' then 4 else if t = ''IDE'' then 5 else if t = ''SYSTEM'' then 6 else 0)"

definition from_proto_actor_type :: "int \<Rightarrow> string" where
  "from_proto_actor_type t =
     (if t = 1 then ''USER'' else if t = 2 then ''AGENT'' else if t = 3 then ''ORCHESTRATOR''
      else if t = 4 then ''LOCAL_AGENT'' else if t = 5 then ''IDE'' else if t = 6 then ''SYSTEM'' else [])"

text \<open>The generated tables of \<open>ToolStatus\<close>; an unknown number prints as itself.\<close>

definition tool_status_value :: "(string \<times> int) list" where
  "tool_status_value =
     [(''TOOL_STATUS_UNSPECIFIED'', 0), (''SUCCESS'', 1), (''FAILED'', 2), (''PARTIAL'', 3),
      (''ACCEPTED'', 4), (''RUNNING'', 5), (''CANCELLED'', 6), (''REJECTED'', 7), (''TIMEOUT'', 8)]"

definition to_proto_status :: "string \<Rightarrow> int" where
  "to_proto_status s = (case map_of tool_status_value s of Some v \<Rightarrow> v | None \<Rightarrow> 0)"

definition from_proto_status :: "int \<Rightarrow> string" where
  "from_proto_status v =
     (if v = 0 then []
      else case find (\<lambda>(_, n). n = v) tool_status_value of Some (s, _) \<Rightarrow> s | None \<Rightarrow> itoa v)"

section \<open>To protobuf\<close>

definition int32_wrap :: "int \<Rightarrow> int" where
  "int32_wrap i = (i + 2 ^ 31) mod 2 ^ 32 - 2 ^ 31"

definition to_proto_actor :: "actor option \<Rightarrow> pb_actor option" where
  "to_proto_actor a = map_option (\<lambda>a. \<lparr>pba_type = to_proto_actor_type (actor_type a), pba_id = actor_id a\<rparr>) a"

definition to_proto_target :: "target option \<Rightarrow> pb_target option" where
  "to_proto_target t = map_option (\<lambda>t. \<lparr>pbt_type = target_type t, pbt_id = target_id t\<rparr>) t"

definition raw_text :: "json option \<Rightarrow> wire_json" where
  "raw_text r = (case r of None \<Rightarrow> NoText | Some j \<Rightarrow> Text j)"

definition to_proto_error :: "proto_error \<Rightarrow> pb_error" where
  "to_proto_error e =
     \<lparr>pbe_code = code_text (err_code e), pbe_category = category_text (err_category e),
      pbe_message = err_message e, pbe_retryable = err_retryable e,
      pbe_details = (case err_details e of None \<Rightarrow> NoText | Some d \<Rightarrow> Text (JObj d))\<rparr>"

definition to_proto_tool_response :: "tool_response \<Rightarrow> pb_response" where
  "to_proto_tool_response r =
     \<lparr>pbr_call = resp_call_id r, pbr_status = to_proto_status (resp_status r),
      pbr_result = raw_text (resp_result r), pbr_error = map_option to_proto_error (resp_error r),
      pbr_metrics = resp_duration_ms r\<rparr>"

definition proto_head :: "envelope \<Rightarrow> pb_envelope" where
  "proto_head env =
     \<lparr>pb_protocol = env_protocol env, pb_type = to_proto_message_type (env_type env),
      pb_message_id = env_message_id env, pb_timestamp = env_timestamp env,
      pb_session = env_session env, pb_project = env_project env, pb_workspace = env_workspace env,
      pb_workflow = env_workflow env, pb_work_item = env_work_item env, pb_task = env_task env,
      pb_actor = to_proto_actor (env_actor env), pb_target = to_proto_target (env_target env),
      pb_request = None, pb_response = None, pb_event = None\<rparr>"

text \<open>\<open>json.Unmarshal\<close> of a payload with a reader; an absent payload is a syntax error.\<close>

definition read_payload :: "(json \<Rightarrow> 'a option) \<Rightarrow> string \<Rightarrow> json option \<Rightarrow> string + 'a" where
  "read_payload rd what payload =
     (case payload of
        None \<Rightarrow> Inl (what @ '': unexpected end of JSON input'')
      | Some j \<Rightarrow> (case rd j of None \<Rightarrow> Inl (what @ '': cannot unmarshal'') | Some x \<Rightarrow> Inr x))"

definition to_proto :: "envelope option \<Rightarrow> string + pb_envelope" where
  "to_proto enve =
     (case enve of
        None \<Rightarrow> Inl ''nil envelope''
      | Some env \<Rightarrow>
          let out = proto_head env in
          if env_type env = ''REQUEST'' then
            (case read_payload dec_request ''tool request payload'' (env_payload env) of
               Inl e \<Rightarrow> Inl e
             | Inr req \<Rightarrow>
                 Inr (out\<lparr>pb_request := Some
                   \<lparr>pbq_call = req_call_id req, pbq_tool = req_tool req,
                    pbq_arguments = Text (enc_map (req_arguments req)),
                    pbq_timeout = (case req_timeout_ms req of None \<Rightarrow> 0 | Some t \<Rightarrow> int32_wrap t)\<rparr>\<rparr>))
          else if env_type env = ''RESPONSE'' then
            (case read_payload dec_response ''tool response payload'' (env_payload env) of
               Inl e \<Rightarrow> Inl e
             | Inr resp \<Rightarrow> Inr (out\<lparr>pb_response := Some (to_proto_tool_response resp)\<rparr>))
          else if env_type env = ''EVENT'' then
            (case read_payload dec_event ''event payload'' (env_payload env) of
               Inl e \<Rightarrow> Inl e
             | Inr ev \<Rightarrow>
                 Inr (out\<lparr>pb_event := Some
                   \<lparr>pbv_event = event_name ev, pbv_execution = event_execution ev,
                    pbv_data = raw_text (event_data ev)\<rparr>\<rparr>))
          else Inr out)"

section \<open>From protobuf\<close>

definition from_proto_actor :: "pb_actor option \<Rightarrow> actor option" where
  "from_proto_actor a = map_option (\<lambda>a. \<lparr>actor_type = from_proto_actor_type (pba_type a), actor_id = pba_id a\<rparr>) a"

definition from_proto_target :: "pb_target option \<Rightarrow> target option" where
  "from_proto_target t = map_option (\<lambda>t. \<lparr>target_type = pbt_type t, target_id = pbt_id t\<rparr>) t"

definition envelope_head :: "pb_envelope \<Rightarrow> envelope" where
  "envelope_head p =
     \<lparr>env_protocol = pb_protocol p, env_type = from_proto_message_type (pb_type p),
      env_message_id = pb_message_id p, env_timestamp = pb_timestamp p,
      env_session = pb_session p, env_project = pb_project p, env_workspace = pb_workspace p,
      env_workflow = pb_workflow p, env_work_item = pb_work_item p, env_task = pb_task p,
      env_actor = from_proto_actor (pb_actor p), env_target = from_proto_target (pb_target p),
      env_payload = None\<rparr>"

text \<open>\<open>json.Unmarshal\<close> of a text into a map that is empty at first.\<close>

definition read_map :: "wire_json \<Rightarrow> string + jmap option" where
  "read_map w =
     (case w of
        NoText \<Rightarrow> Inr (Some [])
      | BadText \<Rightarrow> Inl ''arguments_json: invalid JSON''
      | Text j \<Rightarrow>
          (case assign_maps (Some []) [j] of
             None \<Rightarrow> Inl ''arguments_json: cannot unmarshal''
           | Some m \<Rightarrow> Inr m))"

text \<open>A text taken over as a raw message; marshalling it fails when it is malformed.\<close>

definition wire_raw :: "wire_json \<Rightarrow> string + json option" where
  "wire_raw w =
     (case w of
        NoText \<Rightarrow> Inr None
      | BadText \<Rightarrow> Inl ''json: error calling MarshalJSON for type json.RawMessage''
      | Text j \<Rightarrow> Inr (Some j))"

definition from_proto_error :: "pb_error \<Rightarrow> proto_error" where
  "from_proto_error e =
     \<lparr>err_code = code_of_text (pbe_code e), err_category = category_of_text (pbe_category e),
      err_message = pbe_message e, err_retryable = pbe_retryable e,
      err_details =
        (case pbe_details e of
           Text j \<Rightarrow> (case assign_maps None [j] of Some d \<Rightarrow> d | None \<Rightarrow> None)
         | _ \<Rightarrow> None)\<rparr>"

definition from_proto_tool_response :: "pb_response option \<Rightarrow> string + tool_response" where
  "from_proto_tool_response r =
     (case r of
        None \<Rightarrow> Inr \<lparr>resp_call_id = [], resp_status = [], resp_result = None, resp_error = None,
                     resp_duration_ms = None\<rparr>
      | Some p \<Rightarrow>
          (case wire_raw (pbr_result p) of
             Inl e \<Rightarrow> Inl e
           | Inr res \<Rightarrow>
               Inr \<lparr>resp_call_id = pbr_call p, resp_status = from_proto_status (pbr_status p),
                    resp_result = res, resp_error = map_option from_proto_error (pbr_error p),
                    resp_duration_ms = pbr_metrics p\<rparr>))"

definition from_proto :: "pb_envelope option \<Rightarrow> string + envelope" where
  "from_proto po =
     (case po of
        None \<Rightarrow> Inl ''nil proto envelope''
      | Some p \<Rightarrow>
          let env = envelope_head p in
          if env_type env = ''REQUEST'' then
            (case pb_request p of
               None \<Rightarrow> Inl ''REQUEST missing tool_request''
             | Some tr \<Rightarrow>
                 (case read_map (pbq_arguments tr) of
                    Inl e \<Rightarrow> Inl e
                  | Inr args \<Rightarrow>
                      Inr (env\<lparr>env_payload := Some (enc_request
                        \<lparr>req_call_id = pbq_call tr, req_tool = pbq_tool tr, req_arguments = args,
                         req_timeout_ms = (if pbq_timeout tr > 0 then Some (pbq_timeout tr) else None)\<rparr>)\<rparr>)))
          else if env_type env = ''RESPONSE'' then
            (case from_proto_tool_response (pb_response p) of
               Inl e \<Rightarrow> Inl e
             | Inr resp \<Rightarrow> Inr (env\<lparr>env_payload := Some (enc_response resp)\<rparr>))
          else if env_type env = ''EVENT'' then
            (case pb_event p of
               None \<Rightarrow> Inl ''EVENT missing event_payload''
             | Some ep \<Rightarrow>
                 (case wire_raw (pbv_data ep) of
                    Inl e \<Rightarrow> Inl e
                  | Inr data \<Rightarrow>
                      Inr (env\<lparr>env_payload := Some (enc_event
                        \<lparr>event_name = pbv_event ep, event_execution = pbv_execution ep, event_data = data\<rparr>)\<rparr>)))
          else Inr env)"

section \<open>Over the wire and back\<close>

text \<open>
  An envelope the wire format can carry: a declared message type, a declared actor type, and a
  payload that was written from a message of that type (none for \<open>CANCEL\<close> and \<open>ACK\<close>), a
  timeout being positive and within 32 bits.
\<close>

definition wire_actor :: "actor option \<Rightarrow> bool" where
  "wire_actor a \<longleftrightarrow> (\<forall>x. a = Some x \<longrightarrow>
     actor_type x \<in> {''USER'', ''AGENT'', ''ORCHESTRATOR'', ''LOCAL_AGENT'', ''IDE'', ''SYSTEM''})"

definition wire_payload :: "string \<Rightarrow> json option \<Rightarrow> bool" where
  "wire_payload ty payload \<longleftrightarrow>
     (ty = ''REQUEST'' \<and> (\<exists>r. payload = Some (enc_request r) \<and> good_request r
        \<and> (\<forall>t. req_timeout_ms r = Some t \<longrightarrow> 0 < t \<and> t < 2 ^ 31)))
     \<or> (ty = ''RESPONSE'' \<and> (\<exists>r. payload = Some (enc_response r) \<and> good_response r
        \<and> resp_status r \<in> set tool_statuses))
     \<or> (ty = ''EVENT'' \<and> (\<exists>e. payload = Some (enc_event e)))
     \<or> (ty \<in> {''CANCEL'', ''ACK''} \<and> payload = None)"

lemma actor_back: "wire_actor a \<Longrightarrow> from_proto_actor (to_proto_actor a) = a"
  by (cases a) (auto simp: wire_actor_def from_proto_actor_def to_proto_actor_def
      to_proto_actor_type_def from_proto_actor_type_def)

lemma target_back: "from_proto_target (to_proto_target t) = t"
  by (cases t) (simp_all add: from_proto_target_def to_proto_target_def)

lemma message_type_back: "ty \<in> set message_types \<Longrightarrow> from_proto_message_type (to_proto_message_type ty) = ty"
  by (auto simp: message_types_def from_proto_message_type_def to_proto_message_type_def)

lemma head_back:
  "ty = env_type env \<Longrightarrow> ty \<in> set message_types \<Longrightarrow> wire_actor (env_actor env) \<Longrightarrow>
    envelope_head (proto_head env) = env\<lparr>env_payload := None\<rparr>"
  by (simp add: envelope_head_def proto_head_def message_type_back actor_back target_back)

lemma status_back: "s \<in> set tool_statuses \<Longrightarrow> from_proto_status (to_proto_status s) = s"
  by (auto simp: tool_statuses_def from_proto_status_def to_proto_status_def tool_status_value_def)

lemma wire_raw_back [simp]: "wire_raw (raw_text r) = Inr r"
  by (cases r) (simp_all add: wire_raw_def raw_text_def)

lemma pb_error_back: "good_error e \<Longrightarrow> from_proto_error (to_proto_error e) = e"
  by (cases "err_details e") (auto simp: from_proto_error_def to_proto_error_def good_error_def to_fields_id)

lemma pb_response_back:
  assumes "good_response r" "resp_status r \<in> set tool_statuses"
  shows "from_proto_tool_response (Some (to_proto_tool_response r)) = Inr r"
  using assms pb_error_back
  by (cases "resp_error r") (auto simp: from_proto_tool_response_def to_proto_tool_response_def good_response_def status_back)

lemma read_map_back: "(\<forall>d. m = Some d \<longrightarrow> any_fields d) \<Longrightarrow> read_map (Text (enc_map m)) = Inr m"
  by (cases m) (auto simp: read_map_def enc_map_def to_fields_id)

lemma int32_wrap_id: "0 < t \<Longrightarrow> t < 2 ^ 31 \<Longrightarrow> int32_wrap t = t"
  by (simp add: int32_wrap_def)

lemma head_fields [simp]:
  "envelope_head (p\<lparr>pb_request := a\<rparr>) = envelope_head p"
  "envelope_head (p\<lparr>pb_response := b\<rparr>) = envelope_head p"
  "envelope_head (p\<lparr>pb_event := c\<rparr>) = envelope_head p"
  by (simp_all add: envelope_head_def)

lemma wire_back:
  assumes "env_type env \<in> set message_types" "wire_actor (env_actor env)"
    and "wire_payload (env_type env) (env_payload env)"
  shows "\<exists>p. to_proto (Some env) = Inr p \<and> from_proto (Some p) = Inr env"
proof -
  note head = head_back [OF refl assms(1,2)]
  consider r where "env_type env = ''REQUEST''" "env_payload env = Some (enc_request r)" "good_request r"
      "\<forall>t. req_timeout_ms r = Some t \<longrightarrow> 0 < t \<and> t < 2 ^ 31"
    | r where "env_type env = ''RESPONSE''" "env_payload env = Some (enc_response r)" "good_response r"
      "resp_status r \<in> set tool_statuses"
    | e where "env_type env = ''EVENT''" "env_payload env = Some (enc_event e)"
    | "env_type env \<in> {''CANCEL'', ''ACK''}" "env_payload env = None"
    using assms(3) unfolding wire_payload_def by (elim disjE exE conjE) blast+
  then show ?thesis
  proof cases
    case 1
    then have "read_map (Text (enc_map (req_arguments r))) = Inr (req_arguments r)"
      by (intro read_map_back) (simp add: good_request_def)
    with 1 head request_codec.dec_enc [OF 1(3)] show ?thesis
      by (cases r; cases env; cases "req_timeout_ms r") (auto simp: to_proto_def from_proto_def read_payload_def int32_wrap_id Let_def)
  next
    case 2
    with head response_codec.dec_enc [OF 2(3)] pb_response_back [OF 2(3,4)] show ?thesis
      by (cases env) (auto simp: to_proto_def from_proto_def read_payload_def Let_def)
  next
    case 3
    with head event_codec.dec_enc [of e] show ?thesis
      by (cases e; cases env) (auto simp: to_proto_def from_proto_def read_payload_def Let_def)
  next
    case 4
    with head show ?thesis by (cases env) (auto simp: to_proto_def from_proto_def Let_def)
  qed
qed

text \<open>
  C36. What the agent or the server puts on the stream is what the other side takes off it: an envelope
  with a declared message type, with no actor or one of a declared type, and with a payload of its type
  survives. For a REQUEST, a RESPONSE and an EVENT that is the JSON that the code writes for one; the
  request has no timeout or one of 1 to 2147483647 milliseconds, the response a declared status. A CANCEL
  and an ACK have no payload. Such an envelope converts to protobuf, and converting that back gives
  the same envelope. The conditions are needed: \<open>wire_losses\<close> and
  \<open>long_timeout_lost\<close> below show what is lost without them.
\<close>

theorem envelope_wire_roundtrip:
  assumes "env_type env \<in> set message_types" "wire_actor (env_actor env)"
    and "wire_payload (env_type env) (env_payload env)"
  shows "\<exists>p. to_proto (Some env) = Inr p \<and> from_proto (Some p) = Inr env"
  using assms by (rule wire_back)

theorem envelope_wire_roundtrip_witness:
  "let env = empty_envelope\<lparr>env_type := ''REQUEST'', env_payload := Some (enc_request
       \<lparr>req_call_id = ''CALL-1'', req_tool = ''system.ping'',
        req_arguments = Some [(''a'', JNum ''1'')], req_timeout_ms = Some 500\<rparr>)\<rparr>
   in \<exists>p. to_proto (Some env) = Inr p \<and> from_proto (Some p) = Inr env"
  unfolding Let_def
proof (rule envelope_wire_roundtrip)
  show "wire_payload (env_type (empty_envelope\<lparr>env_type := ''REQUEST'', env_payload := Some (enc_request
       \<lparr>req_call_id = ''CALL-1'', req_tool = ''system.ping'',
        req_arguments = Some [(''a'', JNum ''1'')], req_timeout_ms = Some 500\<rparr>)\<rparr>))
     (env_payload (empty_envelope\<lparr>env_type := ''REQUEST'', env_payload := Some (enc_request
       \<lparr>req_call_id = ''CALL-1'', req_tool = ''system.ping'',
        req_arguments = Some [(''a'', JNum ''1'')], req_timeout_ms = Some 500\<rparr>)\<rparr>))"
    by (auto simp: wire_payload_def good_request_def int64_range_def intro!: exI)
qed (simp_all add: message_types_def wire_actor_def empty_envelope_def)

text \<open>
  What the wire loses: the payload of a \<open>CANCEL\<close> or \<open>ACK\<close> envelope does not survive, and a
  timeout of 2147483648 milliseconds wraps to 32 bits and arrives as no timeout.
\<close>

definition over_the_wire :: "envelope \<Rightarrow> envelope option" where
  "over_the_wire env = (case to_proto (Some env) of Inl _ \<Rightarrow> None
     | Inr p \<Rightarrow> (case from_proto (Some p) of Inl _ \<Rightarrow> None | Inr env' \<Rightarrow> Some env'))"

lemma long_timeout_lost:
  assumes "good_request r" "req_timeout_ms r = Some 2147483648"
  shows "over_the_wire (empty_envelope\<lparr>env_type := ''REQUEST'', env_payload := Some (enc_request r)\<rparr>)
    = Some (empty_envelope\<lparr>env_type := ''REQUEST'', env_payload := Some (enc_request (r\<lparr>req_timeout_ms := None\<rparr>))\<rparr>)"
proof -
  let ?env = "empty_envelope\<lparr>env_type := ''REQUEST'', env_payload := Some (enc_request r)\<rparr>"
  have head: "envelope_head (proto_head ?env) = ?env\<lparr>env_payload := None\<rparr>"
    by (rule head_back [OF refl]) (simp_all add: message_types_def wire_actor_def empty_envelope_def)
  have wraps: "int32_wrap 2147483648 = -2147483648" by code_simp
  have args: "read_map (Text (enc_map (req_arguments r))) = Inr (req_arguments r)"
    using assms(1) by (intro read_map_back) (simp add: good_request_def)
  have type: "env_type ?env = ''REQUEST''" "env_payload ?env = Some (enc_request r)" by simp_all
  from head wraps args type assms(2) request_codec.dec_enc [OF assms(1)] show ?thesis
    unfolding over_the_wire_def
    by (cases r) (simp add: to_proto_def from_proto_def read_payload_def Let_def)
qed

lemma wire_losses:
  "over_the_wire (empty_envelope\<lparr>env_type := ''CANCEL'', env_payload := Some JNull\<rparr>)
     = Some (empty_envelope\<lparr>env_type := ''CANCEL''\<rparr>)"
  "over_the_wire (empty_envelope\<lparr>env_type := ''ACK'', env_payload := Some JNull\<rparr>)
     = Some (empty_envelope\<lparr>env_type := ''ACK''\<rparr>)"
  by code_simp+

end
