(* ===== verification/Transport_Grpc.thy ===== *)
theory Transport_Grpc
  imports Transport_Memory Grpc_Adapt
begin

text \<open>
  \<open>local-agent/internal/transport/grpc.go\<close>: the stream to the central server as a transport of the
  loop. The stream of the generated client is a parameter: what the server puts on it arrives in
  order, and a send succeeds or fails. The system is a step relation over the goroutine that receives,
  the loop, the goroutines that send events, and the hub that reads events. A send on a channel that
  stays full is given up after five seconds; the channels are never closed. The cancelled receive of
  \<open>Close\<close> is part of the step that closes. What the server sent, what was put into the channel, what
  was given up and what the loop answered are kept as history.
\<close>

section \<open>The stream\<close>

definition stream_cap :: nat where
  "stream_cap = 16"

datatype recv_pc = Recv_wait | Recv_put envelope | Recv_ended

record 'w stream_net =
  gn_agent :: string
  gn_conn :: bool
  gn_done :: bool
  gn_recv :: recv_pc
  gn_in :: "pb_envelope list"
  gn_requests :: "envelope list"
  gn_events :: "envelope list"
  gn_pc :: "envelope loop_pc"
  gn_world :: 'w
  gn_out :: "pb_envelope list"
  gn_sent :: "pb_envelope list"
  gn_lost :: nat
  gn_taken :: "envelope list"
  gn_answered :: "envelope list"

definition new_stream :: "string \<Rightarrow> 'w \<Rightarrow> 'w stream_net" where
  "new_stream agent_id w =
     \<lparr>gn_agent = agent_id, gn_conn = False, gn_done = False, gn_recv = Recv_ended, gn_in = [],
      gn_requests = [], gn_events = [], gn_pc = At_receive, gn_world = w, gn_out = [], gn_sent = [],
      gn_lost = 0, gn_taken = [], gn_answered = []\<rparr>"

text \<open>\<open>Connect\<close>, given the errors of dialling and of opening the stream.\<close>

definition connect_stream :: "string option \<Rightarrow> string option \<Rightarrow> 'w stream_net \<Rightarrow> 'w stream_net \<times> string option" where
  "connect_stream dial_err open_err s =
     (case dial_err of
        Some e \<Rightarrow> (s, Some (''grpc dial: '' @ e))
      | None \<Rightarrow>
          (case open_err of
             Some e \<Rightarrow> (s, Some (''grpc open: '' @ e))
           | None \<Rightarrow> (s\<lparr>gn_conn := True, gn_recv := Recv_wait\<rparr>, None)))"

definition close_stream :: "'w stream_net \<Rightarrow> 'w stream_net" where
  "close_stream s =
     s\<lparr>gn_conn := False, gn_recv := (if gn_recv s = Recv_wait then Recv_ended else gn_recv s)\<rparr>"

text \<open>The goroutine that receives: a message that does not convert is skipped.\<close>

definition receive_message :: "pb_envelope \<Rightarrow> recv_pc" where
  "receive_message p = (case from_proto (Some p) of Inl _ \<Rightarrow> Recv_wait | Inr env \<Rightarrow> Recv_put env)"

definition is_request :: "envelope \<Rightarrow> bool" where
  "is_request env \<longleftrightarrow> env_type env = ''REQUEST''"

definition after_put :: "'w stream_net \<Rightarrow> recv_pc" where
  "after_put s = (if gn_conn s then Recv_wait else Recv_ended)"

definition channel_full :: "envelope \<Rightarrow> 'w stream_net \<Rightarrow> bool" where
  "channel_full env s \<longleftrightarrow> stream_cap \<le> length (if is_request env then gn_requests s else gn_events s)"

definition put_message :: "envelope \<Rightarrow> 'w stream_net \<Rightarrow> 'w stream_net" where
  "put_message env s =
     (if is_request env
      then s\<lparr>gn_requests := gn_requests s @ [env], gn_taken := gn_taken s @ [env], gn_recv := after_put s\<rparr>
      else s\<lparr>gn_events := gn_events s @ [env], gn_recv := after_put s\<rparr>)"

definition give_up :: "envelope \<Rightarrow> 'w stream_net \<Rightarrow> 'w stream_net" where
  "give_up env s =
     s\<lparr>gn_recv := after_put s, gn_lost := (if is_request env then Suc (gn_lost s) else gn_lost s)\<rparr>"

text \<open>\<open>send\<close>: what it adds to the stream, and its error.\<close>

inductive stream_send ::
  "bool \<Rightarrow> bool \<Rightarrow> envelope \<Rightarrow> pb_envelope list \<Rightarrow> string option \<Rightarrow> bool" for conn ctx_done env where
  send_unadapted: "to_proto (Some env) = Inl err \<Longrightarrow> stream_send conn ctx_done env [] (Some err)"
| send_unconnected: "to_proto (Some env) = Inr p \<Longrightarrow> \<not> conn \<Longrightarrow>
    stream_send conn ctx_done env [] (Some ''grpc stream not connected'')"
| send_sent: "to_proto (Some env) = Inr p \<Longrightarrow> conn \<Longrightarrow> stream_send conn ctx_done env [p] None"
| send_failed: "to_proto (Some env) = Inr p \<Longrightarrow> conn \<Longrightarrow> stream_send conn ctx_done env [] (Some err)"
| send_cancelled: "to_proto (Some env) = Inr p \<Longrightarrow> conn \<Longrightarrow> ctx_done \<Longrightarrow> ps \<in> {[], [p]} \<Longrightarrow>
    stream_send conn ctx_done env ps (Some ''context canceled'')"

inductive_cases stream_sendE: "stream_send conn ctx_done env ps r"

definition event_envelope :: "string \<Rightarrow> moment \<Rightarrow> string \<Rightarrow> json option \<Rightarrow> string + envelope" where
  "event_envelope agent_id mo ev data =
     (case new_envelope (mo_random mo) (mo_now mo) (mo_stamp mo) ''EVENT''
             (Some (enc_event \<lparr>event_name = ev, event_execution = [], event_data = data\<rparr>)) of
        Inl e \<Rightarrow> Inl e
      | Inr env \<Rightarrow>
          Inr (env\<lparr>env_actor := Some \<lparr>actor_type = ''LOCAL_AGENT'', actor_id = agent_id\<rparr>,
                   env_protocol := version_current\<rparr>))"

text \<open>\<open>Register\<close> and \<open>SendHeartbeat\<close> send an event each; the first takes over the identifier.\<close>

definition register_data :: "string \<Rightarrow> json" where
  "register_data agent_id = JObj [(''agent_id'', JStr agent_id)]"

definition take_agent_id :: "string \<Rightarrow> 'w stream_net \<Rightarrow> 'w stream_net" where
  "take_agent_id i s = (if i \<noteq> [] then s\<lparr>gn_agent := i\<rparr> else s)"

definition enc_heartbeat :: "heartbeat \<Rightarrow> json" where
  "enc_heartbeat hb =
     JObj [(''agent_id'', JStr (hb_agent_id hb)), (''protocol_version'', JStr (hb_protocol_version hb)),
           (''timestamp'', JStr (hb_timestamp hb))]"

section \<open>The steps\<close>

datatype stream_event =
    Server_sends pb_envelope
  | Recv_message
  | Recv_puts
  | Recv_gives_up
  | Recv_breaks
  | Loop_turns
  | Event_sent moment string "json option"
  | Registers moment string
  | Hub_reads
  | Stream_connects
  | Stream_closes
  | Ctx_cancelled

inductive stream_step ::
  "('w, envelope) loop_handler \<Rightarrow> 'w stream_net \<Rightarrow> stream_event \<Rightarrow> 'w stream_net \<Rightarrow> bool" for h where
  server_sends: "stream_step h s (Server_sends p) (s\<lparr>gn_in := gn_in s @ [p], gn_sent := gn_sent s @ [p]\<rparr>)"
| recv_message: "gn_recv s = Recv_wait \<Longrightarrow> gn_conn s \<Longrightarrow> gn_in s = p # ps \<Longrightarrow>
    stream_step h s Recv_message (s\<lparr>gn_in := ps, gn_recv := receive_message p\<rparr>)"
| recv_puts: "gn_recv s = Recv_put env \<Longrightarrow> \<not> channel_full env s \<Longrightarrow>
    stream_step h s Recv_puts (put_message env s)"
| recv_gives_up: "gn_recv s = Recv_put env \<Longrightarrow> channel_full env s \<Longrightarrow>
    stream_step h s Recv_gives_up (give_up env s)"
| recv_breaks: "gn_recv s = Recv_wait \<Longrightarrow> stream_step h s Recv_breaks (s\<lparr>gn_recv := Recv_ended\<rparr>)"
| loop_receives: "gn_pc s = At_receive \<Longrightarrow> gn_requests s = e # es \<Longrightarrow>
    stream_step h s Loop_turns (s\<lparr>gn_requests := es, gn_pc := At_handle e\<rparr>)"
| loop_cancelled: "gn_pc s = At_receive \<Longrightarrow> gn_done s \<Longrightarrow>
    stream_step h s Loop_turns (s\<lparr>gn_pc := Returned ''context canceled''\<rparr>)"
| loop_handles: "gn_pc s = At_handle e \<Longrightarrow> h (gn_world s) e = Some (w, out) \<Longrightarrow>
    stream_step h s Loop_turns (s\<lparr>gn_world := w, gn_pc := after_handle out\<rparr>)"
| loop_panics: "gn_pc s = At_handle e \<Longrightarrow> h (gn_world s) e = None \<Longrightarrow>
    stream_step h s Loop_turns (s\<lparr>gn_pc := Panicked\<rparr>)"
| loop_sends: "gn_pc s = At_check r \<Longrightarrow> stream_send (gn_conn s) (gn_done s) r ps err \<Longrightarrow>
    stream_step h s Loop_turns
      (s\<lparr>gn_out := gn_out s @ ps, gn_answered := (if ps = [] then gn_answered s else gn_answered s @ [r]),
         gn_pc := (case err of None \<Rightarrow> At_receive | Some e \<Rightarrow> Returned e)\<rparr>)"
| event_sent: "event_envelope (gn_agent s) mo ev data = Inr env \<Longrightarrow>
    stream_send (gn_conn s) (gn_done s) env ps err \<Longrightarrow>
    stream_step h s (Event_sent mo ev data) (s\<lparr>gn_out := gn_out s @ ps\<rparr>)"
| registers: "event_envelope (gn_agent (take_agent_id i s)) mo event_agent_register
      (Some (register_data (gn_agent (take_agent_id i s)))) = Inr env \<Longrightarrow>
    stream_send (gn_conn s) (gn_done s) env ps err \<Longrightarrow>
    stream_step h s (Registers mo i) ((take_agent_id i s)\<lparr>gn_out := gn_out s @ ps\<rparr>)"
| hub_reads: "gn_events s = e # es \<Longrightarrow> stream_step h s Hub_reads (s\<lparr>gn_events := es\<rparr>)"
| connects: "\<not> gn_conn s \<Longrightarrow> gn_recv s = Recv_ended \<Longrightarrow>
    stream_step h s Stream_connects (fst (connect_stream None None s))"
| closes: "stream_step h s Stream_closes (close_stream s)"
| cancelled: "stream_step h s Ctx_cancelled (s\<lparr>gn_done := True\<rparr>)"

inductive_cases stream_stepE: "stream_step h s ev s'"

inductive stream_run ::
  "('w, envelope) loop_handler \<Rightarrow> 'w stream_net \<Rightarrow> stream_event list \<Rightarrow> 'w stream_net \<Rightarrow> bool" for h where
  stream_nil: "stream_run h s [] s"
| stream_cons: "stream_step h s ev s1 \<Longrightarrow> stream_run h s1 evs s2 \<Longrightarrow> stream_run h s (ev # evs) s2"

section \<open>What the loop is given and what it answers\<close>

definition requests_of :: "pb_envelope list \<Rightarrow> envelope list" where
  "requests_of ps =
     filter is_request (List.map_filter (\<lambda>p. case from_proto (Some p) of Inl _ \<Rightarrow> None | Inr e \<Rightarrow> Some e) ps)"

fun put_pending :: "recv_pc \<Rightarrow> envelope list" where
  "put_pending (Recv_put e) = (if is_request e then [e] else [])"
| "put_pending _ = []"

lemma requests_of_snoc: "requests_of (ps @ [p]) = requests_of ps @ put_pending (receive_message p)"
  by (simp add: requests_of_def map_filter_def receive_message_def split: sum.split)

definition intake_ok :: "'w stream_net \<Rightarrow> bool" where
  "intake_ok s \<longleftrightarrow> (\<exists>got. gn_sent s = got @ gn_in s
     \<and> subseq (gn_taken s @ put_pending (gn_recv s)) (requests_of got)
     \<and> (gn_lost s = 0 \<longrightarrow> gn_taken s @ put_pending (gn_recv s) = requests_of got))"

text \<open>What the envelopes become on the stream; the number of an event's message type is 3.\<close>

definition wire_of :: "envelope list \<Rightarrow> pb_envelope list" where
  "wire_of es = List.map_filter (\<lambda>e. case to_proto (Some e) of Inl _ \<Rightarrow> None | Inr p \<Rightarrow> Some p) es"

definition no_event :: "pb_envelope \<Rightarrow> bool" where
  "no_event p \<longleftrightarrow> pb_type p \<noteq> 3"

lemma to_proto_type: "to_proto (Some env) = Inr p \<Longrightarrow> pb_type p = to_proto_message_type (env_type env)"
  by (auto simp: to_proto_def proto_head_def Let_def split: if_splits sum.splits)

lemma event_envelope_type: "event_envelope i mo ev data = Inr env \<Longrightarrow> env_type env = ''EVENT''"
  by (auto simp: event_envelope_def new_envelope_def empty_envelope_def split: sum.splits)

lemma event_not_answer:
  assumes "event_envelope i mo ev data = Inr env" "stream_send conn ctx_done env ps err"
  shows "filter no_event ps = []"
  using assms(2) event_envelope_type [OF assms(1)]
  by (auto elim!: stream_sendE dest!: to_proto_type simp: no_event_def to_proto_message_type_def)

definition stream_history_ok :: "('w, envelope) loop_handler \<Rightarrow> 'w \<Rightarrow> 'w stream_net \<Rightarrow> bool" where
  "stream_history_ok h w0 s \<longleftrightarrow>
     (\<forall>r. gn_pc s \<noteq> At_send r)
     \<and> subseq (wire_of (gn_answered s)) (gn_out s)
     \<and> filter no_event (gn_out s) = filter no_event (wire_of (gn_answered s))
     \<and> prefix (gn_answered s) (serve h w0 (gn_taken s))
     \<and> (running (gn_pc s) \<longrightarrow>
          serving h w0 (gn_taken s) (gn_requests s) (gn_pc s) (gn_world s) (gn_answered s))"

lemma after_put_pending [simp]: "put_pending (after_put s) = []"
  by (simp add: after_put_def)

lemma intake_step: "stream_step h s ev s' \<Longrightarrow> intake_ok s \<Longrightarrow> intake_ok s'"
proof (induction rule: stream_step.induct)
  case (recv_message s p ps)
  then obtain got where "gn_sent s = got @ p # ps" "subseq (gn_taken s) (requests_of got)"
    "gn_lost s = 0 \<longrightarrow> gn_taken s = requests_of got"
    by (auto simp: intake_ok_def)
  then show ?case
    by (auto simp: intake_ok_def requests_of_snoc intro!: exI [of _ "got @ [p]"] list_emb_append_mono)
next
  case (recv_gives_up s env)
  then obtain got where "gn_sent s = got @ gn_in s" "subseq (gn_taken s @ put_pending (Recv_put env)) (requests_of got)"
    "gn_lost s = 0 \<longrightarrow> gn_taken s @ put_pending (Recv_put env) = requests_of got"
    by (auto simp: intake_ok_def)
  moreover have "subseq (gn_taken s) (gn_taken s @ put_pending (Recv_put env))"
    by (rule prefix_imp_subseq) simp
  ultimately show ?case
    by (auto simp: intake_ok_def give_up_def intro!: exI [of _ got] elim: subseq_order.trans)
qed (auto simp: intake_ok_def put_message_def close_stream_def connect_stream_def take_agent_id_def split: if_splits)

lemma out_more: "subseq xs ys \<Longrightarrow> subseq xs (ys @ zs)"
  by (simp add: prefix_imp_subseq subseq_order.trans)

lemma wire_of_snoc: "wire_of (es @ [e]) = wire_of es @ (case to_proto (Some e) of Inl _ \<Rightarrow> [] | Inr p \<Rightarrow> [p])"
  by (simp add: wire_of_def map_filter_def split: sum.split)

lemma serving_step:
  "stream_step h s ev s' \<Longrightarrow> stream_history_ok h w0 s \<Longrightarrow> stream_history_ok h w0 s'"
proof (induction rule: stream_step.induct)
  case (recv_puts s env)
  then show ?case
    using serve_prefix [of h w0 "gn_taken s" "[env]"] serving_more [of h w0 "gn_taken s" "gn_requests s"]
    by (auto simp: stream_history_ok_def put_message_def intro: prefix_order.trans)
next
  case (loop_receives s e es)
  then show ?case by (auto simp: stream_history_ok_def intro: serving_receive)
next
  case (loop_handles s e w out)
  have "\<forall>r. after_handle out \<noteq> At_send r" by (cases out rule: after_handle.cases) auto
  with loop_handles show ?case
    by (cases out) (auto simp: stream_history_ok_def dest: serving_handle)
next
  case (loop_sends s r ps err)
  then have o: "serving h w0 (gn_taken s) (gn_requests s) (At_check r) (gn_world s) (gn_answered s)"
    and p: "prefix (gn_answered s) (serve h w0 (gn_taken s))"
    and w: "subseq (wire_of (gn_answered s)) (gn_out s)"
      "filter no_event (gn_out s) = filter no_event (wire_of (gn_answered s))"
    by (auto simp: stream_history_ok_def)
  from serving_send(2) [OF serving_send(1) [OF o]]
  have n: "serving h w0 (gn_taken s) (gn_requests s) At_receive (gn_world s) (gn_answered s @ [r])" .
  from loop_sends(2) have e: "err = None \<Longrightarrow> ps \<noteq> []" and ps: "ps \<noteq> [] \<Longrightarrow> \<exists>p. ps = [p] \<and> to_proto (Some r) = Inr p"
    by (auto elim!: stream_sendE)
  let ?ans = "if ps = [] then gn_answered s else gn_answered s @ [r]"
  have "subseq (wire_of ?ans) (gn_out s @ ps)" "filter no_event (gn_out s @ ps) = filter no_event (wire_of ?ans)"
    using w ps by (auto simp: wire_of_snoc list_emb_append_mono)
  with n p e serving_prefix [OF n] show ?case
    by (auto simp: stream_history_ok_def split: option.split)
next
  case (event_sent s mo ev data env ps err)
  then show ?case using event_not_answer by (auto simp: stream_history_ok_def out_more)
next
  case (registers i s mo env ps err)
  then show ?case using event_not_answer by (auto simp: stream_history_ok_def out_more take_agent_id_def)
qed (auto simp: stream_history_ok_def give_up_def close_stream_def connect_stream_def)

lemma stream_run_ok:
  "stream_run h s evs s' \<Longrightarrow> intake_ok s \<Longrightarrow> stream_history_ok h w0 s \<Longrightarrow> intake_ok s' \<and> stream_history_ok h w0 s'"
  by (induction rule: stream_run.induct) (auto dest: intake_step serving_step)

lemma new_stream_ok: "intake_ok (new_stream i w0)" "stream_history_ok h w0 (new_stream i w0)"
  by (simp_all add: intake_ok_def stream_history_ok_def new_stream_def requests_of_def map_filter_def wire_of_def serving_start)

section \<open>Settling\<close>

text \<open>The steps the agent takes by itself, and what is left of them.\<close>

definition internal :: "stream_event list \<Rightarrow> bool" where
  "internal evs \<longleftrightarrow> set evs \<subseteq> {Recv_message, Recv_puts, Recv_gives_up, Loop_turns}"

fun recv_weight :: "recv_pc \<Rightarrow> nat" where
  "recv_weight (Recv_put e) = 6"
| "recv_weight _ = 0"

fun loop_weight :: "'e loop_pc \<Rightarrow> nat" where
  "loop_weight At_receive = 1"
| "loop_weight (At_handle e) = 4"
| "loop_weight (At_check r) = 3"
| "loop_weight (At_send r) = 2"
| "loop_weight _ = 0"

definition stream_work :: "'w stream_net \<Rightarrow> nat" where
  "stream_work s = 7 * length (gn_in s) + recv_weight (gn_recv s) + 5 * length (gn_requests s) + loop_weight (gn_pc s)"

lemma recv_weights: "recv_weight (receive_message p) \<le> 6" "recv_weight (after_put s) = 0"
  by (simp_all add: receive_message_def after_put_def split: sum.split)

lemma handle_weight: "loop_weight (after_handle out) \<le> 3"
  by (cases out rule: after_handle.cases) auto

lemma internal_step:
  "stream_step h s ev s' \<Longrightarrow> ev \<in> {Recv_message, Recv_puts, Recv_gives_up, Loop_turns} \<Longrightarrow>
    stream_work s' < stream_work s"
proof (induction rule: stream_step.induct)
  case (recv_message s p ps)
  then show ?case using recv_weights(1) [of p] by (simp add: stream_work_def)
next
  case (loop_handles s e w out)
  then show ?case using handle_weight [of out] by (simp add: stream_work_def)
qed (auto simp: stream_work_def put_message_def give_up_def recv_weights split: option.split)

lemma internal_run:
  "stream_run h s evs s' \<Longrightarrow> internal evs \<Longrightarrow> length evs + stream_work s' \<le> stream_work s"
proof (induction rule: stream_run.induct)
  case (stream_cons s ev s1 evs s2)
  then have "ev \<in> {Recv_message, Recv_puts, Recv_gives_up, Loop_turns}" "internal evs" by (auto simp: internal_def)
  with internal_step [OF stream_cons.hyps(1)] stream_cons.IH show ?case by fastforce
qed simp

lemma stream_send_possible: "\<exists>ps err. stream_send conn ctx_done env ps err"
proof (cases "to_proto (Some env)")
  case (Inl err)
  then show ?thesis by (intro exI, rule send_unadapted)
next
  case (Inr p)
  show ?thesis
  proof (cases conn)
    case True
    with Inr show ?thesis by (intro exI, rule send_sent)
  next
    case False
    with Inr show ?thesis by (intro exI, rule send_unconnected)
  qed
qed

lemma stuck_stream:
  assumes "\<forall>ev s'. ev \<in> {Recv_message, Recv_puts, Recv_gives_up, Loop_turns} \<longrightarrow> \<not> stream_step h s ev s'"
    and "\<forall>r. gn_pc s \<noteq> At_send r"
  shows "put_pending (gn_recv s) = [] \<and> (gn_recv s = Recv_wait \<and> gn_conn s \<longrightarrow> gn_in s = [])
    \<and> (running (gn_pc s) \<longrightarrow> gn_pc s = At_receive \<and> gn_requests s = [] \<and> \<not> gn_done s)"
proof (intro conjI impI)
  have "gn_recv s \<noteq> Recv_put e" for e
    using assms(1) recv_puts [of s e h] recv_gives_up [of s e h] by blast
  then show "put_pending (gn_recv s) = []" by (cases "gn_recv s") auto
  show "gn_in s = []" if "gn_recv s = Recv_wait \<and> gn_conn s"
    using that assms(1) recv_message [of s _ _ h] by (cases "gn_in s") blast+
  assume run: "running (gn_pc s)"
  have "gn_pc s \<noteq> At_handle e" for e
    using assms(1) loop_panics [of s e h] loop_handles [of s e h] by (cases "h (gn_world s) e") auto
  moreover have "gn_pc s \<noteq> At_check r" for r
    using assms(1) loop_sends [of s r] stream_send_possible [of "gn_conn s" "gn_done s" r] by blast
  ultimately show pc: "gn_pc s = At_receive" using run assms(2) by (cases "gn_pc s") auto
  show "gn_requests s = []" using pc assms(1) loop_receives [of s _ _ h] by (cases "gn_requests s") blast+
  show "\<not> gn_done s" using pc assms(1) loop_cancelled [of s h] by blast
qed

text \<open>The requests that were put into the channel, and the answers that are no events.\<close>

lemma stream_result:
  assumes "stream_run h (new_stream i w0) evs s"
  shows "subseq (gn_taken s) (requests_of (gn_sent s))"
    "gn_lost s = 0 \<longrightarrow> prefix (gn_taken s) (requests_of (gn_sent s))"
    "prefix (gn_answered s) (serve h w0 (gn_taken s))"
    "filter no_event (gn_out s) = filter no_event (wire_of (gn_answered s))"
    "subseq (wire_of (gn_answered s)) (gn_out s)"
proof -
  from stream_run_ok [OF assms new_stream_ok] have i: "intake_ok s" and h: "stream_history_ok h w0 s" by auto
  from i obtain got where g: "gn_sent s = got @ gn_in s"
    "subseq (gn_taken s @ put_pending (gn_recv s)) (requests_of got)"
    "gn_lost s = 0 \<longrightarrow> gn_taken s @ put_pending (gn_recv s) = requests_of got"
    by (auto simp: intake_ok_def)
  have more: "requests_of (gn_sent s) = requests_of got @ requests_of (gn_in s)"
    by (simp add: g(1) requests_of_def map_filter_def)
  show "subseq (gn_taken s) (requests_of (gn_sent s))"
    using g(2) unfolding more by (meson list_emb_append2 list_emb_prefix prefix_imp_subseq prefixI subseq_order.trans)
  show "gn_lost s = 0 \<longrightarrow> prefix (gn_taken s) (requests_of (gn_sent s))"
    using g(3) unfolding more by (metis append_assoc prefixI)
  show "prefix (gn_answered s) (serve h w0 (gn_taken s))" "subseq (wire_of (gn_answered s)) (gn_out s)"
    "filter no_event (gn_out s) = filter no_event (wire_of (gn_answered s))"
    using h by (simp_all add: stream_history_ok_def)
qed

section \<open>Every call is answered\<close>

text \<open>
  An open stream: connected, not cancelled, with a goroutine that receives and a loop that runs; and an
  idle one, which has nothing left to receive, to hand over, to handle or to send.
\<close>

definition stream_open :: "'w stream_net \<Rightarrow> bool" where
  "stream_open s \<longleftrightarrow> gn_conn s \<and> \<not> gn_done s \<and> gn_recv s \<noteq> Recv_ended \<and> running (gn_pc s)"

definition stream_idle :: "'w stream_net \<Rightarrow> bool" where
  "stream_idle s \<longleftrightarrow> gn_in s = [] \<and> put_pending (gn_recv s) = [] \<and> gn_requests s = [] \<and> gn_pc s = At_receive"

text \<open>
  A handler that answers the envelopes with the property \<open>good\<close> by one that can go on the stream, and
  a state of the system in which only such envelopes and answers are on their way.
\<close>

definition wires_answers :: "('w \<Rightarrow> bool) \<Rightarrow> (envelope \<Rightarrow> bool) \<Rightarrow> ('w, envelope) loop_handler \<Rightarrow> bool" where
  "wires_answers ok good h \<longleftrightarrow> (\<forall>w e. ok w \<longrightarrow> good e \<longrightarrow>
     (\<exists>w' r p. h w e = Some (w', Inr (Some r)) \<and> ok w' \<and> to_proto (Some r) = Inr p))"

definition on_its_way :: "'w stream_net \<Rightarrow> envelope list" where
  "on_its_way s = held (gn_pc s) @ gn_requests s @ put_pending (gn_recv s) @ requests_of (gn_in s)"

definition stream_smooth :: "('w \<Rightarrow> bool) \<Rightarrow> (envelope \<Rightarrow> bool) \<Rightarrow> 'w stream_net \<Rightarrow> bool" where
  "stream_smooth ok good s \<longleftrightarrow> ok (gn_world s) \<and> (\<forall>e\<in>set (on_its_way s). good e)
     \<and> (\<forall>r\<in>set (owed (gn_pc s)). \<exists>p. to_proto (Some r) = Inr p)"

lemma requests_of_Cons: "requests_of (p # ps) = put_pending (receive_message p) @ requests_of ps"
  by (simp add: requests_of_def map_filter_def receive_message_def split: sum.split)

lemma requests_of_append: "requests_of (ps @ qs) = requests_of ps @ requests_of qs"
  by (simp add: requests_of_def map_filter_def)

lemma wires_answersE:
  assumes "wires_answers ok good h" "ok w" "good e"
  obtains w' r p where "h w e = Some (w', Inr (Some r))" "ok w'" "to_proto (Some r) = Inr p"
  using assms unfolding wires_answers_def by blast

lemma smooth_step:
  assumes "wires_answers ok good h"
  shows "stream_step h s ev s' \<Longrightarrow> stream_smooth ok good s \<Longrightarrow> (\<forall>e\<in>set (requests_of (gn_sent s')). good e) \<Longrightarrow>
    stream_smooth ok good s'"
proof (induction rule: stream_step.induct)
  case (loop_handles s e w out)
  then have "ok (gn_world s)" "good e" by (auto simp: stream_smooth_def on_its_way_def)
  with assms obtain w' r p where "h (gn_world s) e = Some (w', Inr (Some r))" "ok w'" "to_proto (Some r) = Inr p"
    by (rule wires_answersE)
  with loop_handles show ?case by (auto simp: stream_smooth_def on_its_way_def)
next
  case (loop_sends s r ps err)
  then show ?case by (auto simp: stream_smooth_def on_its_way_def split: option.split)
next
  case (recv_puts s e)
  then show ?case by (auto simp: stream_smooth_def on_its_way_def put_message_def after_put_def)
next
  case (recv_gives_up s e)
  then show ?case by (auto simp: stream_smooth_def on_its_way_def give_up_def after_put_def split: if_splits)
qed (auto simp: stream_smooth_def on_its_way_def requests_of_Cons requests_of_append close_stream_def
    connect_stream_def take_agent_id_def split: if_splits)

lemma sent_more: "stream_step h s ev s' \<Longrightarrow> prefix (gn_sent s) (gn_sent s')"
  by (induction rule: stream_step.induct)
    (auto simp: put_message_def give_up_def close_stream_def connect_stream_def take_agent_id_def)

lemma run_sent_more: "stream_run h s evs s' \<Longrightarrow> prefix (gn_sent s) (gn_sent s')"
  by (induction rule: stream_run.induct) (auto dest: sent_more intro: prefix_order.trans)

lemma requests_of_prefix: "prefix ps qs \<Longrightarrow> set (requests_of ps) \<subseteq> set (requests_of qs)"
  by (auto simp: prefix_def requests_of_append)

lemma smooth_run:
  assumes "wires_answers ok good h"
  shows "stream_run h s evs s' \<Longrightarrow> stream_smooth ok good s \<Longrightarrow> (\<forall>e\<in>set (requests_of (gn_sent s')). good e) \<Longrightarrow>
    stream_smooth ok good s'"
proof (induction rule: stream_run.induct)
  case (stream_cons s ev s1 evs s2)
  have "\<forall>e\<in>set (requests_of (gn_sent s1)). good e"
    using stream_cons.prems(2) requests_of_prefix [OF run_sent_more [OF stream_cons.hyps(2)]] by blast
  with smooth_step [OF assms stream_cons.hyps(1)] stream_cons show ?case by blast
qed

lemma smooth_start: "ok w0 \<Longrightarrow> stream_smooth ok good (new_stream i w0)"
  by (simp add: stream_smooth_def on_its_way_def new_stream_def requests_of_def map_filter_def)

lemma advanceI:
  "stream_step h s ev s' \<Longrightarrow> internal [ev] \<Longrightarrow> stream_open s' \<Longrightarrow> gn_lost s' = gn_lost s \<Longrightarrow> gn_sent s' = gn_sent s \<Longrightarrow>
    \<exists>ev s'. stream_step h s ev s' \<and> internal [ev] \<and> stream_open s' \<and> gn_lost s' = gn_lost s \<and> gn_sent s' = gn_sent s"
  by blast

text \<open>An open stream that is not idle can go on by itself, without giving up a request.\<close>

lemma open_advance:
  assumes "wires_answers ok good h" "stream_smooth ok good s" "stream_open s" "\<forall>r. gn_pc s \<noteq> At_send r"
    and "\<not> stream_idle s"
  shows "\<exists>ev s'. stream_step h s ev s' \<and> internal [ev] \<and> stream_open s' \<and> gn_lost s' = gn_lost s \<and> gn_sent s' = gn_sent s"
proof (cases "gn_pc s")
  case (At_handle e)
  then have "ok (gn_world s)" "good e" using assms(2) by (auto simp: stream_smooth_def on_its_way_def)
  with assms(1) obtain w' r p where run: "h (gn_world s) e = Some (w', Inr (Some r))" by (rule wires_answersE)
  show ?thesis
      by (rule advanceI [OF loop_handles [where s = s and h = h, OF At_handle run]])
        (use assms(3) in \<open>auto simp: internal_def stream_open_def\<close>)
next
  case (At_check r)
  then obtain p where "to_proto (Some r) = Inr p" using assms(2) by (auto simp: stream_smooth_def)
  then have sends: "stream_send (gn_conn s) (gn_done s) r [p] None" using assms(3) by (intro send_sent) (simp_all add: stream_open_def)
  show ?thesis
      by (rule advanceI [OF loop_sends [OF At_check sends, of h]])
        (use assms(3) in \<open>auto simp: internal_def stream_open_def\<close>)
next
  case pc: At_receive
  show ?thesis
  proof (cases "gn_requests s")
    case (Cons e es)
    show ?thesis
      by (rule advanceI [OF loop_receives [OF pc Cons, of h]])
        (use assms(3) in \<open>auto simp: internal_def stream_open_def\<close>)
  next
    case Nil
    show ?thesis
    proof (cases "gn_recv s")
      case Recv_wait
      with Nil pc assms(5) obtain p ps where more: "gn_in s = p # ps"
        by (cases "gn_in s") (auto simp: stream_idle_def)
      show ?thesis
      by (rule advanceI [OF recv_message [OF Recv_wait _ more, of h]])
        (use assms(3) in \<open>auto simp: internal_def stream_open_def receive_message_def split: sum.split\<close>)
    next
      case (Recv_put e)
      show ?thesis
      proof (cases "channel_full e s")
        case False
        show ?thesis
      by (rule advanceI [OF recv_puts [OF Recv_put False, of h]])
        (use assms(3) in \<open>auto simp: internal_def stream_open_def put_message_def after_put_def\<close>)
      next
        case True
        with Nil have other: "\<not> is_request e" by (auto simp: channel_full_def stream_cap_def)
        show ?thesis
      by (rule advanceI [OF recv_gives_up [OF Recv_put True, of h]])
        (use assms(3) other in \<open>auto simp: internal_def stream_open_def give_up_def after_put_def\<close>)
      qed
    qed (use assms(3) in \<open>simp add: stream_open_def\<close>)
  qed
qed (use assms(3,4) in \<open>auto simp: stream_open_def\<close>)

lemma open_finish:
  assumes "wires_answers ok good h"
  shows "stream_smooth ok good s \<Longrightarrow> stream_open s \<Longrightarrow> stream_history_ok h w0 s \<Longrightarrow>
    \<forall>e\<in>set (requests_of (gn_sent s)). good e \<Longrightarrow>
    \<exists>evs s'. stream_run h s evs s' \<and> internal evs \<and> stream_idle s' \<and> stream_open s'
      \<and> gn_lost s' = gn_lost s \<and> gn_sent s' = gn_sent s"
proof (induction "stream_work s" arbitrary: s rule: less_induct)
  case less
  show ?case
  proof (cases "stream_idle s")
    case True
    then show ?thesis using less.prems(2) stream_nil [of h s]
      by (intro exI [of _ "[]"] exI [of _ s]) (simp add: internal_def)
  next
    case False
    have "\<forall>r. gn_pc s \<noteq> At_send r" using less.prems(3) by (simp add: stream_history_ok_def)
    from open_advance [OF assms less.prems(1,2) this False] obtain ev s1 where s1: "stream_step h s ev s1"
      "internal [ev]" "stream_open s1" "gn_lost s1 = gn_lost s" "gn_sent s1 = gn_sent s" by blast
    have "stream_work s1 < stream_work s" using internal_step [OF s1(1)] s1(2) by (simp add: internal_def)
    moreover have "stream_smooth ok good s1" using smooth_step [OF assms s1(1) less.prems(1)] less.prems(4) s1(5) by simp
    moreover have "stream_history_ok h w0 s1" by (rule serving_step [OF s1(1) less.prems(3)])
    ultimately obtain evs s' where "stream_run h s1 evs s'" "internal evs" "stream_idle s'" "stream_open s'"
      "gn_lost s' = gn_lost s" "gn_sent s' = gn_sent s"
      using less.hyps [of s1] less.prems(4) s1(3-5) by auto
    with s1 stream_cons [OF s1(1)] show ?thesis
      by (intro exI [of _ "ev # evs"] exI [of _ s']) (auto simp: internal_def)
  qed
qed

text \<open>What an idle stream has answered, if no request was given up.\<close>

lemma idle_answered:
  assumes "intake_ok s" "stream_history_ok h w0 s" "stream_idle s" "gn_lost s = 0"
  shows "gn_taken s = requests_of (gn_sent s)" "gn_answered s = serve h w0 (requests_of (gn_sent s))"
proof -
  show t: "gn_taken s = requests_of (gn_sent s)" using assms(1,3,4) by (auto simp: intake_ok_def stream_idle_def)
  have "serving h w0 (gn_taken s) [] At_receive (gn_world s) (gn_answered s)"
    using assms(2,3) by (simp add: stream_history_ok_def stream_idle_def)
  from serving_done [OF this] t show "gn_answered s = serve h w0 (requests_of (gn_sent s))" by simp
qed

section \<open>Properties\<close>

text \<open>
  C11. Over the stream to the server the loop implements the sequential reference: under every
  interleaving the messages on the stream that are no events are those of the first answers, each once
  and in order, to some of the requests the server sent, handled one after the other in the order they
  were sent; to all of them, from the first on, as long as no request was given up.
\<close>

theorem stream_refines_serve:
  assumes "stream_run h (new_stream i w0) evs s"
  shows "\<exists>reqs n. subseq reqs (requests_of (gn_sent s))
    \<and> (gn_lost s = 0 \<longrightarrow> prefix reqs (requests_of (gn_sent s)))
    \<and> filter no_event (gn_out s) = filter no_event (wire_of (take n (serve h w0 reqs)))
    \<and> gn_answered s = take n (serve h w0 reqs) \<and> subseq (wire_of (gn_answered s)) (gn_out s)"
proof -
  note R = stream_result [OF assms]
  have "gn_answered s = take (length (gn_answered s)) (serve h w0 (gn_taken s))" using R(3) by (auto simp: prefix_def)
  with R show ?thesis by (intro exI [of _ "gn_taken s"] exI [of _ "length (gn_answered s)"]) simp
qed

text \<open>
  C12. The agent on the stream settles: from any state it can reach, receiving and the loop take only so
  many steps before they need the server, and when none is possible any more, nothing is waiting to be
  put into a channel. If in addition the stream is connected, its receiver waits for a message, the loop
  still runs and no request was ever given up, then every request the server sent was handled and the
  messages on the stream that are no events are exactly the answers.
\<close>

theorem stream_settles:
  assumes "stream_run h (new_stream i w0) evs s" "stream_run h s evs' s'" "internal evs'"
  shows "length evs' \<le> stream_work s
    \<and> ((\<forall>ev s''. ev \<in> {Recv_message, Recv_puts, Recv_gives_up, Loop_turns} \<longrightarrow> \<not> stream_step h s' ev s'')
        \<longrightarrow> put_pending (gn_recv s') = []
          \<and> (gn_recv s' = Recv_wait \<and> gn_conn s' \<and> running (gn_pc s') \<and> gn_lost s' = 0
              \<longrightarrow> gn_answered s' = serve h w0 (requests_of (gn_sent s'))
                \<and> filter no_event (gn_out s') = filter no_event (wire_of (serve h w0 (requests_of (gn_sent s'))))))"
proof -
  from stream_run_ok [OF assms(1) new_stream_ok] have "intake_ok s" "stream_history_ok h w0 s" by auto
  from stream_run_ok [OF assms(2) this] have i: "intake_ok s'" and h: "stream_history_ok h w0 s'" by auto
  then have ns: "\<forall>r. gn_pc s' \<noteq> At_send r"
    and out: "filter no_event (gn_out s') = filter no_event (wire_of (gn_answered s'))"
    by (simp_all add: stream_history_ok_def)
  have "gn_answered s' = serve h w0 (requests_of (gn_sent s'))"
    if "gn_in s' = []" "put_pending (gn_recv s') = []" "gn_lost s' = 0" "gn_pc s' = At_receive" "gn_requests s' = []"
    using idle_answered(2) [OF i h] that by (simp add: stream_idle_def)
  with stuck_stream [OF _ ns, of h] internal_run [OF assms(2,3)] out show ?thesis by fastforce
qed

section \<open>A run\<close>

text \<open>The stream connected with one message of the server on its way, and the same message answered.\<close>

definition one_sent :: "string \<Rightarrow> 'w \<Rightarrow> pb_envelope \<Rightarrow> 'w stream_net" where
  "one_sent i w p = (new_stream i w)\<lparr>gn_conn := True, gn_recv := Recv_wait, gn_in := [p], gn_sent := [p]\<rparr>"

definition one_answered :: "string \<Rightarrow> 'w \<Rightarrow> pb_envelope \<Rightarrow> envelope \<Rightarrow> envelope \<Rightarrow> pb_envelope \<Rightarrow> 'w stream_net" where
  "one_answered i w p env out q =
     (new_stream i w)\<lparr>gn_conn := True, gn_recv := Recv_wait, gn_sent := [p], gn_taken := [env],
        gn_answered := [out], gn_out := [q]\<rparr>"

lemma one_sent_run: "stream_run h (new_stream i w) [Stream_connects, Server_sends p] (one_sent i w p)"
proof -
  have 1: "stream_step h (new_stream i w) Stream_connects ((new_stream i w)\<lparr>gn_conn := True, gn_recv := Recv_wait\<rparr>)"
    using connects [of "new_stream i w" h] by (simp add: new_stream_def connect_stream_def)
  have 2: "stream_step h ((new_stream i w)\<lparr>gn_conn := True, gn_recv := Recv_wait\<rparr>) (Server_sends p) (one_sent i w p)"
    using server_sends [of h "(new_stream i w)\<lparr>gn_conn := True, gn_recv := Recv_wait\<rparr>" p]
    by (simp add: one_sent_def new_stream_def)
  from stream_cons [OF 1 stream_cons [OF 2 stream_nil]] show ?thesis .
qed

lemma one_answered_run:
  assumes "from_proto (Some p) = Inr env" "is_request env" "h w env = Some (w', Inr (Some out))"
    and "to_proto (Some out) = Inr q"
  shows "stream_run h (one_sent i w p) [Recv_message, Recv_puts, Loop_turns, Loop_turns, Loop_turns]
    ((one_answered i w p env out q)\<lparr>gn_world := w'\<rparr>)"
proof -
  let ?s1 = "(one_sent i w p)\<lparr>gn_in := [], gn_recv := Recv_put env\<rparr>"
  let ?s2 = "?s1\<lparr>gn_requests := [env], gn_taken := [env], gn_recv := Recv_wait\<rparr>"
  let ?s3 = "?s2\<lparr>gn_requests := [], gn_pc := At_handle env\<rparr>"
  let ?s4 = "?s3\<lparr>gn_world := w', gn_pc := At_check out\<rparr>"
  have 1: "stream_step h (one_sent i w p) Recv_message ?s1"
    using recv_message [of "one_sent i w p" p "[]" h] assms(1) by (simp add: one_sent_def receive_message_def)
  have 2: "stream_step h ?s1 Recv_puts ?s2"
    using recv_puts [of ?s1 env h] assms(2)
    by (simp add: one_sent_def new_stream_def channel_full_def stream_cap_def put_message_def after_put_def)
  have 3: "stream_step h ?s2 Loop_turns ?s3"
    using loop_receives [of ?s2 env "[]" h] by (simp add: one_sent_def new_stream_def)
  have 4: "stream_step h ?s3 Loop_turns ?s4"
    using loop_handles [of ?s3 env h w' "Inr (Some out)"] assms(3) by (simp add: one_sent_def new_stream_def)
  have "stream_send (gn_conn ?s4) (gn_done ?s4) out [q] None"
    using send_sent [OF assms(4)] by (simp add: one_sent_def)
  from loop_sends [OF _ this, of h] have 5: "stream_step h ?s4 Loop_turns ((one_answered i w p env out q)\<lparr>gn_world := w'\<rparr>)"
    by (simp add: one_sent_def one_answered_def new_stream_def)
  from stream_cons [OF 1 stream_cons [OF 2 stream_cons [OF 3 stream_cons [OF 4 stream_cons [OF 5 stream_nil]]]]]
  show ?thesis .
qed

lemma stream_run_append: "stream_run h s evs s1 \<Longrightarrow> stream_run h s1 evs' s2 \<Longrightarrow> stream_run h s (evs @ evs') s2"
  by (induction rule: stream_run.induct) (auto intro: stream_cons)

text \<open>An echo of the envelopes the server sends.\<close>

definition echo :: "(int, envelope) loop_handler" where
  "echo n e = Some (n + 1, Inr (Some e))"

definition echo_envelope :: envelope where
  "echo_envelope = empty_envelope\<lparr>env_type := ''REQUEST'', env_payload := Some (enc_request
     \<lparr>req_call_id = ''CALL-1'', req_tool = ''system.ping'', req_arguments = Some [], req_timeout_ms = None\<rparr>)\<rparr>"

lemma request_on_wire:
  "good_request r \<Longrightarrow> (\<forall>t. req_timeout_ms r = Some t \<longrightarrow> 0 < t \<and> t < 2 ^ 31) \<Longrightarrow>
    wire_payload ''REQUEST'' (Some (enc_request r))"
  unfolding wire_payload_def by (intro disjI1 conjI refl exI [of _ r])

lemma echo_wire: obtains p where "to_proto (Some echo_envelope) = Inr p" "from_proto (Some p) = Inr echo_envelope"
proof -
  let ?r = "\<lparr>req_call_id = ''CALL-1'', req_tool = ''system.ping'', req_arguments = Some [], req_timeout_ms = None\<rparr>"
  have "wire_payload ''REQUEST'' (Some (enc_request ?r))"
    by (rule request_on_wire) (simp_all add: good_request_def)
  then have "wire_payload (env_type echo_envelope) (env_payload echo_envelope)" by (simp add: echo_envelope_def)
  moreover have "env_type echo_envelope \<in> set message_types" "wire_actor (env_actor echo_envelope)"
    by (simp_all add: echo_envelope_def empty_envelope_def message_types_def wire_actor_def)
  ultimately show ?thesis using wire_back [of echo_envelope] that by blast
qed

theorem stream_refines_serve_witness:
  "\<exists>p evs s. stream_run echo (new_stream ''a1'' 0) evs s \<and> gn_out s = [p]
    \<and> (\<exists>reqs n. subseq reqs (requests_of (gn_sent s)) \<and> filter no_event [p] = filter no_event (wire_of (take n (serve echo 0 reqs))))"
proof -
  obtain p where p: "to_proto (Some echo_envelope) = Inr p" "from_proto (Some p) = Inr echo_envelope" by (rule echo_wire)
  have "is_request echo_envelope" by (simp add: is_request_def echo_envelope_def)
  let ?evs = "[Stream_connects, Server_sends p] @ [Recv_message, Recv_puts, Loop_turns, Loop_turns, Loop_turns]"
  let ?s = "(one_answered ''a1'' 0 p echo_envelope echo_envelope p)\<lparr>gn_world := (1 :: int)\<rparr>"
  have run: "stream_run echo (new_stream ''a1'' 0) ?evs ?s"
    by (rule stream_run_append [OF one_sent_run one_answered_run [OF p(2) \<open>is_request echo_envelope\<close> _ p(1)]])
      (simp add: echo_def)
  have out: "gn_out ?s = [p]" by (simp add: one_answered_def)
  from stream_refines_serve [OF run, unfolded out] obtain reqs n
    where "subseq reqs (requests_of (gn_sent ?s))" "filter no_event [p] = filter no_event (wire_of (take n (serve echo 0 reqs)))"
    by (elim exE conjE) (rule that)
  then show ?thesis
    by (intro exI [of _ p] exI [of _ ?evs] exI [of _ ?s] exI [of _ reqs] exI [of _ n] conjI run out)
qed

theorem stream_settles_witness:
  "\<exists>p s'. stream_run echo (new_stream ''a1'' 0) [Stream_connects, Server_sends p] (one_sent ''a1'' 0 p)
    \<and> stream_run echo (one_sent ''a1'' 0 p) [Recv_message, Recv_puts, Loop_turns, Loop_turns, Loop_turns] s'
    \<and> (5 :: nat) \<le> stream_work (one_sent ''a1'' (0 :: int) p)"
proof -
  obtain p where p: "to_proto (Some echo_envelope) = Inr p" "from_proto (Some p) = Inr echo_envelope" by (rule echo_wire)
  have "is_request echo_envelope" by (simp add: is_request_def echo_envelope_def)
  from one_answered_run [OF p(2) this _ p(1), of echo 0 1 "''a1''"]
  have run: "stream_run echo (one_sent ''a1'' 0 p) [Recv_message, Recv_puts, Loop_turns, Loop_turns, Loop_turns]
      ((one_answered ''a1'' 0 p echo_envelope echo_envelope p)\<lparr>gn_world := 1\<rparr>)" by (simp add: echo_def)
  have "internal [Recv_message, Recv_puts, Loop_turns, Loop_turns, Loop_turns]" by (simp add: internal_def)
  from conjunct1 [OF stream_settles [OF one_sent_run run this]] run one_sent_run [of echo "''a1''" 0 p]
  show ?thesis by auto
qed

end
