(* ===== verification/Agent_Over_Grpc.thy ===== *)
theory Agent_Over_Grpc
  imports Transport_Grpc
begin

text \<open>
  The whole way of a tool call: protobuf message of the server, \<open>grpcadapt\<close>, the stream, the loop,
  the agent with its dispatcher and tools, and back to a protobuf message on the stream.
\<close>

section \<open>Calls and answers\<close>









end
