(* ===== verification/Apply_Atomic.thy ===== *)
theory Apply_Atomic
  imports Workspace_Apply Path_Stability File_Calls
begin

text \<open>
  Why a failed apply leaves no trace in file contents. The content of a file system is what
  its paths hold, directories and permission bits aside. A list of backups \<open>rolls\<close> a state
  back when restoring them in reverse order, from any state with the same content and no
  other directories than those the apply may have made, gives the content at the start.
  Staged files come in between: the paths they are written at have to be free at the start and
  must not be in the way of a planned path, which is what \<open>T\<close> stands for below.
  The lemmas show that every step keeps this and that every failing exit uses it.
\<close>

section \<open>Contents\<close>

definition content_at :: "fs \<Rightarrow> path \<Rightarrow> (string + bool \<times> string list) option" where
  "content_at fs p =
     (case node_at fs p of
        Some (File d _) \<Rightarrow> Some (Inl d)
      | Some (Link ab t) \<Rightarrow> Some (Inr (ab, t))
      | _ \<Rightarrow> None)"

lemma content_None: "content_at fs p = None \<longleftrightarrow> node_at fs p = None \<or> node_at fs p = Some Dir"
  by (auto simp: content_at_def split: option.splits node.splits)

lemma content_Inl: "content_at fs p = Some (Inl d) \<longleftrightarrow> (\<exists>m. node_at fs p = Some (File d m))"
  by (auto simp: content_at_def split: option.splits node.splits)

lemma content_Inr: "content_at fs p = Some (Inr (ab, t)) \<longleftrightarrow> node_at fs p = Some (Link ab t)"
  by (auto simp: content_at_def split: option.splits node.splits)

lemma content_cong: "node_at fs p = node_at fs' p' \<Longrightarrow> content_at fs p = content_at fs' p'"
  by (simp add: content_at_def)

lemma links_content: "links fs p = (case content_at fs p of Some (Inr l) \<Rightarrow> Some l | _ \<Rightarrow> None)"
  by (auto simp: links_def content_at_def split: option.splits node.splits)

text \<open>\<open>T\<close> is the set of the staging paths of an apply; a path keeps clear of it when it is neither
  one of them nor below one.\<close>

definition tmp_free :: "path set \<Rightarrow> path \<Rightarrow> bool" where
  "tmp_free T p \<longleftrightarrow> (\<forall>t\<in>T. \<not> prefix t p)"

lemma tmp_free_prefix: "tmp_free T p \<Longrightarrow> prefix q p \<Longrightarrow> tmp_free T q"
  using prefix_order.trans by (auto simp: tmp_free_def)

lemma staged_not_free: "t \<in> T \<Longrightarrow> \<not> tmp_free T t"
  by (auto simp: tmp_free_def)

definition undo_ok :: "os \<Rightarrow> bool" where
  "undo_ok os \<longleftrightarrow> set (undo_faults os) \<subseteq> {Pass}"

text \<open>The same content outside \<open>X\<close>, and no directory that is neither there nor in \<open>M\<close>.\<close>

definition similar :: "path set \<Rightarrow> path set \<Rightarrow> fs \<Rightarrow> fs \<Rightarrow> bool" where
  "similar M X fs' fs \<longleftrightarrow>
     (\<forall>p. p \<notin> X \<longrightarrow> content_at fs' p = content_at fs p)
     \<and> (\<forall>p. node_at fs' p = Some Dir \<longrightarrow> node_at fs p = Some Dir \<or> p \<in> M)"

lemma similar_refl [simp]: "similar M X fs fs"
  by (simp add: similar_def)

section \<open>Restoring one path\<close>

text \<open>\<open>b\<close> is the backup of path \<open>q\<close> in state \<open>t\<close>.\<close>

definition backs_up :: "backup \<Rightarrow> fs \<Rightarrow> path \<Rightarrow> bool" where
  "backs_up b t q \<longleftrightarrow> bk_file b = q \<and>
     (if bk_existed b then \<exists>m. node_at t q = Some (File (bk_data b) m)
      else node_at t q = None \<or> node_at t q = Some Dir)"

text \<open>A state that differs from \<open>t\<close> at \<open>q\<close> only, up to directories in \<open>M\<close> and paths in \<open>X\<close>.\<close>

definition near :: "path set \<Rightarrow> path set \<Rightarrow> fs \<Rightarrow> path \<Rightarrow> backup \<Rightarrow> fs \<Rightarrow> bool" where
  "near M X t q b fs \<longleftrightarrow> fs_wf fs
     \<and> (\<forall>p. p \<notin> X \<longrightarrow> p \<noteq> q \<longrightarrow> content_at fs p = content_at t p)
     \<and> (\<forall>p. node_at fs p = Some Dir \<longrightarrow> node_at t p = Some Dir \<or> p \<in> M)
     \<and> no_link fs q \<and> (bk_existed b \<longrightarrow> node_at fs q \<noteq> Some Dir)"

lemma near_safe:
  assumes "near M X t q b fs" "safe_path t q" "\<And>x. x \<in> X \<Longrightarrow> \<not> prefix x q"
  shows "safe_path fs q"
proof -
  have "plain_path fs q"
    unfolding plain_path_def
  proof (intro allI impI)
    fix r
    assume r: "strict_prefix r q"
    then have "r \<notin> X" "r \<noteq> q" using assms(3) by (auto simp: strict_prefix_def)
    then have "content_at fs r = content_at t r" using assms(1) by (simp add: near_def)
    also have "\<dots> = None" using assms(2) r by (auto simp: content_None safe_path_def plain_path_def)
    finally show "node_at fs r = Some Dir \<or> node_at fs r = None" by (auto simp: content_None)
  qed
  then show ?thesis using assms(1,2) by (simp add: safe_path_def near_def)
qed

lemma not_prefix_butlast: "q \<noteq> [] \<Longrightarrow> \<not> prefix q (butlast q)"
  by (metis append_butlast_last_id append_self_conv butlast_prefix not_Cons_self2 prefix_order.antisym)

lemma restore_existing:
  assumes t: "safe_path t q" "\<And>r. strict_prefix r q \<Longrightarrow> r \<in> M"
    and b: "backs_up b t q" "bk_existed b"
    and os: "near M X t q b (files os)" "no_faults os"
    and X: "\<And>x. x \<in> X \<Longrightarrow> \<not> prefix x q"
  shows "let os' = restore_one b os in fs_wf (files os') \<and> no_faults os' \<and> undo_faults os' = undo_faults os
    \<and> similar M X (files os') t \<and> (\<forall>x\<in>X. nodes os' x = nodes os x)"
proof -
  have wf: "fs_wf (files os)" and nodir: "nodes os q \<noteq> Some Dir" using os(1) b(2) by (simp_all add: near_def)
  have bq: "bk_file b = q" and q0: "\<exists>m. node_at t q = Some (File (bk_data b) m)"
    using b by (simp_all add: backs_up_def)
  then have ne: "q \<noteq> []" by auto
  have safe: "safe_path (files os) q" using near_safe [OF os(1) t(1) X] .
  obtain os1 r1 where m: "mkdir_all os (butlast q) = (os1, r1)" by fastforce
  note M1 = mkdir_all_cases [OF m wf safe_path_prefix [OF safe butlast_prefix]]
  have m1: "r1 = None" "nodes os1 (butlast q) = Some Dir" "more_dirs os (butlast q) os1" "no_faults os1"
    using M1 os(2) safe_parent [OF safe ne] by auto
  have q1: "nodes os1 q = nodes os q"
    using more_dirsD [OF m1(3), of q] not_prefix_butlast [OF ne] by auto
  have safe1: "safe_path (files os1) q" by (rule more_dirs_safe [OF m1(3) safe])
  obtain os2 r2 where w: "write_file os1 q (bk_data b) (bk_mode b) = (os2, r2)" by fastforce
  have wf1: "fs_wf (files os1)" using M1 by simp
  have "r2 = None" and nf: "no_faults os2"
    using write_file_pass [OF wf1 safe1 ne m1(4,2)] q1 nodir w by (metis fst_conv snd_conv)+
  then obtain m' where n2: "nodes os2 = (nodes os1)(q \<mapsto> File (bk_data b) m')" "fs_wf (files os2)"
    "undo_faults os2 = undo_faults os1"
    using write_file_cases [OF w wf1 safe1 ne] by auto
  have os': "restore_one b os = os2" using b(2) bq m w by (simp add: restore_one_def dir_path_def)
  have other: "nodes os2 p = nodes os p \<or> (nodes os p = None \<and> nodes os2 p = Some Dir \<and> strict_prefix p q)"
    if "p \<noteq> q" for p
    using that more_dirsD [OF m1(3), of p] n2(1) ne by (auto simp: strict_prefix_butlast)
  have "similar M X (files os2) t"
    unfolding similar_def
  proof (intro conjI allI impI)
    fix p
    assume p: "p \<notin> X"
    show "content_at (files os2) p = content_at t p"
    proof (cases "p = q")
      case True
      then show ?thesis using n2(1) q0 by (auto simp: content_at_def)
    next
      case False
      then have "content_at (files os) p = content_at t p" using os(1) p by (simp add: near_def)
      then show ?thesis using other [OF False] by (auto simp: content_at_def)
    qed
  next
    fix p
    assume p: "nodes os2 p = Some Dir"
    then have "p \<noteq> q" using n2(1) by auto
    then show "node_at t p = Some Dir \<or> p \<in> M"
      using other [of p] p os(1) t(2) by (auto simp: near_def)
  qed
  moreover have "\<forall>x\<in>X. nodes os2 x = nodes os x"
    using other X by (metis prefix_order.order_refl strict_prefix_def)
  ultimately show ?thesis using os' n2 nf M1 by (simp add: Let_def)
qed

lemma restore_missing:
  assumes t: "safe_path t q" and b: "backs_up b t q" "\<not> bk_existed b"
    and os: "near M X t q b (files os)" "no_faults os"
    and X: "\<And>x. x \<in> X \<Longrightarrow> \<not> prefix x q"
  shows "let os' = restore_one b os in fs_wf (files os') \<and> no_faults os' \<and> undo_faults os' = undo_faults os
    \<and> similar M X (files os') t \<and> (\<forall>x\<in>X. nodes os' x = nodes os x)"
proof -
  have wf: "fs_wf (files os)" using os(1) by (simp add: near_def)
  have safe: "safe_path (files os) q" using near_safe [OF os(1) t X] .
  have qX: "q \<notin> X" using X by blast
  obtain os1 r where r: "remove_path os q = (os1, r)" by fastforce
  note R = remove_path_cases [OF r wf safe] and P = remove_path_pass [OF wf safe os(2)]
  have tq: "content_at t q = None" using b by (auto simp: backs_up_def content_None)
  have q1: "content_at (files os1) q = None"
  proof (cases "r = None")
    case True
    with R show ?thesis by (auto simp: content_None)
  next
    case False
    then have "nodes os q = None \<or> nodes os q = Some Dir" "files os1 = files os"
      using P(2) r R by auto
    then show ?thesis by (auto simp: content_None)
  qed
  have other: "nodes os1 p = nodes os p" if "p \<noteq> q" for p using R that by auto
  have "similar M X (files os1) t"
    unfolding similar_def
  proof (intro conjI allI impI)
    fix p
    assume "p \<notin> X"
    then show "content_at (files os1) p = content_at t p"
      using q1 tq other [of p] os(1) by (cases "p = q") (auto simp: near_def content_at_def)
  next
    fix p
    assume "nodes os1 p = Some Dir"
    then have "nodes os p = Some Dir" using R by (auto split: if_splits)
    then show "node_at t p = Some Dir \<or> p \<in> M" using os(1) by (auto simp: near_def)
  qed
  moreover have "restore_one b os = os1" using b r by (simp add: restore_one_def backs_up_def)
  ultimately show ?thesis using R P(1) r other qX by (auto simp: Let_def)
qed

section \<open>Rolling back\<close>

lemma restore_one_near:
  assumes "safe_path t q" "\<And>r. strict_prefix r q \<Longrightarrow> r \<in> M" "backs_up b t q"
    and "near M X t q b (files os)" "no_faults os" "\<And>x. x \<in> X \<Longrightarrow> \<not> prefix x q"
  shows "fs_wf (files (restore_one b os))" "no_faults (restore_one b os)"
    "undo_faults (restore_one b os) = undo_faults os" "similar M X (files (restore_one b os)) t"
    "\<And>x. x \<in> X \<Longrightarrow> nodes (restore_one b os) x = nodes os x"
proof -
  note facts = assms
  have "let os' = restore_one b os in fs_wf (files os') \<and> no_faults os' \<and> undo_faults os' = undo_faults os
    \<and> similar M X (files os') t \<and> (\<forall>x\<in>X. nodes os' x = nodes os x)"
  proof (cases "bk_existed b")
    case True
    show ?thesis by (rule restore_existing [OF assms(1) _ assms(3) True assms(4,5)]) (use assms in auto)
  next
    case False
    show ?thesis by (rule restore_missing [OF assms(1,3) False assms(4,5)]) (use assms in auto)
  qed
  then show "fs_wf (files (restore_one b os))" "no_faults (restore_one b os)"
    "undo_faults (restore_one b os) = undo_faults os" "similar M X (files (restore_one b os)) t"
    "\<And>x. x \<in> X \<Longrightarrow> nodes (restore_one b os) x = nodes os x"
    by (simp_all add: Let_def)
qed

text \<open>
  \<open>rolls T M t bs fs0\<close>: from every state similar to \<open>t\<close>, restoring \<open>bs\<close> in reverse order gives
  the content of \<open>fs0\<close>. The set \<open>X\<close> holds staging paths only, which stay as they are.
\<close>

definition tmp_only :: "path set \<Rightarrow> path set \<Rightarrow> bool" where
  "tmp_only T X \<longleftrightarrow> (\<forall>x\<in>X. \<not> tmp_free T x)"

definition rolls :: "path set \<Rightarrow> path set \<Rightarrow> fs \<Rightarrow> backup list \<Rightarrow> fs \<Rightarrow> bool" where
  "rolls T M t bs fs0 \<longleftrightarrow>
     (\<forall>os X. fs_wf (files os) \<longrightarrow> no_faults os \<longrightarrow> similar M X (files os) t \<longrightarrow> tmp_only T X \<longrightarrow>
       (let os' = fold restore_one (rev bs) os in
        fs_wf (files os') \<and> undo_faults os' = undo_faults os \<and> no_faults os'
        \<and> (\<forall>p. p \<notin> X \<longrightarrow> content_at (files os') p = content_at fs0 p)
        \<and> (\<forall>x\<in>X. nodes os' x = nodes os x)))"

lemma rollsD:
  assumes "rolls T M t bs fs0" "fs_wf (files os)" "no_faults os" "similar M X (files os) t" "tmp_only T X"
  defines "os' \<equiv> fold restore_one (rev bs) os"
  shows "fs_wf (files os')" "undo_faults os' = undo_faults os" "no_faults os'"
    "\<And>p. p \<notin> X \<Longrightarrow> content_at (files os') p = content_at fs0 p"
    "\<And>x. x \<in> X \<Longrightarrow> nodes os' x = nodes os x"
  using assms by (simp_all add: rolls_def Let_def)

lemma rolls_Nil: "rolls T M fs0 [] fs0"
  by (simp add: rolls_def similar_def Let_def)

lemma tmp_only_prefix: "tmp_only T X \<Longrightarrow> tmp_free T q \<Longrightarrow> x \<in> X \<Longrightarrow> \<not> prefix x q"
  using tmp_free_prefix by (auto simp: tmp_only_def)

text \<open>What is known of a path when it is backed up in state \<open>t\<close>.\<close>

definition planned_at :: "path set \<Rightarrow> path set \<Rightarrow> fs \<Rightarrow> path \<Rightarrow> backup \<Rightarrow> bool" where
  "planned_at T M t q b \<longleftrightarrow>
     safe_path t q \<and> tmp_free T q \<and> backs_up b t q \<and> (\<forall>r. strict_prefix r q \<longrightarrow> r \<in> M)"

lemma rolls_near:
  assumes "rolls T M t bs fs0" "planned_at T M t q b" "near M X t q b (files os)" "no_faults os" "tmp_only T X"
  defines "os' \<equiv> fold restore_one (rev (bs @ [b])) os"
  shows "fs_wf (files os')" "undo_faults os' = undo_faults os" "no_faults os'"
    "\<And>p. p \<notin> X \<Longrightarrow> content_at (files os') p = content_at fs0 p"
    "\<And>x. x \<in> X \<Longrightarrow> nodes os' x = nodes os x"
proof -
  have q: "safe_path t q" "tmp_free T q" "backs_up b t q" "\<And>r. strict_prefix r q \<Longrightarrow> r \<in> M"
    using assms(2) by (simp_all add: planned_at_def)
  note R = restore_one_near [OF q(1,4,3) assms(3,4) tmp_only_prefix [OF assms(5) q(2)]]
  note D = rollsD [OF assms(1) R(1,2,4) assms(5)]
  have os': "os' = fold restore_one (rev bs) (restore_one b os)" by (simp add: os'_def)
  show "fs_wf (files os')" "undo_faults os' = undo_faults os" "no_faults os'"
    "\<And>p. p \<notin> X \<Longrightarrow> content_at (files os') p = content_at fs0 p"
    "\<And>x. x \<in> X \<Longrightarrow> nodes os' x = nodes os x"
    using D R by (simp_all add: os')
qed

lemma rolls_snoc:
  assumes "rolls T M t bs fs0" "planned_at T M t q b"
    and same: "\<And>p. p \<noteq> q \<Longrightarrow> content_at t' p = content_at t p"
    and dirs: "\<And>p. node_at t' p = Some Dir \<Longrightarrow> node_at t p = Some Dir \<or> p \<in> M"
    and at_q: "no_link t' q" "bk_existed b \<Longrightarrow> content_at t' q \<noteq> None \<or> (node_at t' q = None \<and> q \<notin> M)"
  shows "rolls T M t' (bs @ [b]) fs0"
  unfolding rolls_def Let_def
proof (intro allI impI)
  fix os X
  assume os: "fs_wf (files os)" "no_faults os" "similar M X (files os) t'" "tmp_only T X"
  have qX: "q \<notin> X" using tmp_only_prefix [OF os(4), of q q] assms(2) by (auto simp: planned_at_def)
  have cq: "content_at (files os) q = content_at t' q" using os(3) qX by (simp add: similar_def)
  have "near M X t q b (files os)"
    unfolding near_def
  proof (intro conjI allI impI)
    show "fs_wf (files os)" by (rule os(1))
    show "no_link (files os) q"
      using at_q(1) cq by (metis content_Inr no_link_def)
    fix p
    assume "bk_existed b"
    then have at: "content_at t' q \<noteq> None \<or> (node_at t' q = None \<and> q \<notin> M)" by (rule at_q(2))
    show "nodes os q \<noteq> Some Dir"
    proof
      assume dir: "nodes os q = Some Dir"
      then have "content_at (files os) q = None" by (simp add: content_None)
      then have "content_at t' q = None" using cq by simp
      with at dir os(3) show False by (auto simp: similar_def)
    qed
  next
    fix p
    assume "p \<notin> X" "p \<noteq> q"
    then show "content_at (files os) p = content_at t p"
      using os(3) same by (simp add: similar_def)
  next
    fix p
    assume "nodes os p = Some Dir"
    then show "node_at t p = Some Dir \<or> p \<in> M" using os(3) dirs by (auto simp: similar_def)
  qed
  from rolls_near [OF assms(1,2) this os(2,4)]
  show "fs_wf (files (fold restore_one (rev (bs @ [b])) os)) \<and>
      undo_faults (fold restore_one (rev (bs @ [b])) os) = undo_faults os \<and>
      no_faults (fold restore_one (rev (bs @ [b])) os) \<and>
      (\<forall>p. p \<notin> X \<longrightarrow> content_at (files (fold restore_one (rev (bs @ [b])) os)) p = content_at fs0 p) \<and>
      (\<forall>x\<in>X. nodes (fold restore_one (rev (bs @ [b])) os) x = nodes os x)"
    by blast
qed

text \<open>The two operations that use the second schedule of faults.\<close>

lemma swapped [simp]:
  "files (os\<lparr>faults := undo_faults os, undo_faults := faults os\<rparr>) = files os"
  "no_faults (os\<lparr>faults := undo_faults os, undo_faults := faults os\<rparr>) = undo_ok os"
  "undo_ok (os\<lparr>faults := undo_faults os, undo_faults := faults os\<rparr>) = no_faults os"
  by (simp_all add: no_faults_def undo_ok_def)

lemma files_undoing: "files (undoing f os) = files (f (os\<lparr>faults := undo_faults os, undo_faults := faults os\<rparr>))"
  by (simp add: undoing_def Let_def)

lemma undo_ok_undoing:
  "undo_ok (undoing f os) = no_faults (f (os\<lparr>faults := undo_faults os, undo_faults := faults os\<rparr>))"
  by (simp add: undoing_def Let_def)

lemma rollback_similar:
  assumes "rolls T M t bs fs0" "fs_wf (files os)" "undo_ok os" "similar M X (files os) t" "tmp_only T X"
  shows "fs_wf (files (rollback bs os))" "undo_ok (rollback bs os)"
    "\<And>p. p \<notin> X \<Longrightarrow> content_at (files (rollback bs os)) p = content_at fs0 p"
    "\<And>x. x \<in> X \<Longrightarrow> nodes (rollback bs os) x = nodes os x"
  using rollsD [OF assms(1), of "os\<lparr>faults := undo_faults os, undo_faults := faults os\<rparr>" X] assms(2-5)
  by (simp_all add: rollback_def files_undoing undo_ok_undoing)

lemma rollback_near:
  assumes "rolls T M t bs fs0" "planned_at T M t q b" "near M X t q b (files os)" "undo_ok os" "tmp_only T X"
  shows "fs_wf (files (rollback (bs @ [b]) os))" "undo_ok (rollback (bs @ [b]) os)"
    "\<And>p. p \<notin> X \<Longrightarrow> content_at (files (rollback (bs @ [b]) os)) p = content_at fs0 p"
    "\<And>x. x \<in> X \<Longrightarrow> nodes (rollback (bs @ [b]) os) x = nodes os x"
  using rolls_near [OF assms(1,2), of X "os\<lparr>faults := undo_faults os, undo_faults := faults os\<rparr>"] assms(3-5)
  by (simp_all add: rollback_def files_undoing undo_ok_undoing del: rev_append)

lemma clean_tmp_result:
  assumes "fs_wf (files os)" "safe_path (files os) tmp" "undo_ok os"
    and "nodes os tmp \<noteq> Some Dir"
  shows "fs_wf (files (clean_tmp tmp os))" "undo_ok (clean_tmp tmp os)"
    "nodes (clean_tmp tmp os) = (nodes os)(tmp := None)"
proof -
  let ?os = "os\<lparr>faults := undo_faults os, undo_faults := faults os\<rparr>"
  obtain os1 r where r: "remove_path ?os tmp = (os1, r)" by fastforce
  have pre: "fs_wf (files ?os)" "safe_path (files ?os) tmp" "no_faults ?os" using assms by simp_all
  note R = remove_path_cases [OF r pre(1,2)] and P = remove_path_pass [OF pre]
  have eq: "files (clean_tmp tmp os) = files os1" "undo_ok (clean_tmp tmp os) = no_faults os1"
    using r by (simp_all add: clean_tmp_def files_undoing undo_ok_undoing)
  show "fs_wf (files (clean_tmp tmp os))" "undo_ok (clean_tmp tmp os)" using eq R P(1) r by auto
  show "nodes (clean_tmp tmp os) = (nodes os)(tmp := None)"
  proof (cases "nodes os tmp = None")
    case True
    then have "files os1 = files os" using R by auto
    then show ?thesis using eq True by (auto simp: fun_eq_iff)
  next
    case False
    then have "r = None" using P(2) assms(4) r by simp
    then show ?thesis using R eq by auto
  qed
qed

section \<open>Staging and replacing\<close>

lemma safe_path_cong:
  "safe_path fs q \<Longrightarrow> (\<And>r. prefix r q \<Longrightarrow> node_at fs' r = node_at fs r) \<Longrightarrow> safe_path fs' q"
  by (auto simp: safe_path_def plain_path_def no_link_def strict_prefix_def)

lemma tmp_path_simps [simp]:
  "butlast (tmp_path q) = butlast q" "tmp_path q \<noteq> []" "tmp_path q \<noteq> q"
proof -
  show "butlast (tmp_path q) = butlast q" "tmp_path q \<noteq> []" by (simp_all add: tmp_path_def)
  show "tmp_path q \<noteq> q" by (cases q rule: rev_cases) (auto simp: tmp_path_def tmp_suffix_def)
qed

lemma tmp_path_proper:
  assumes "safe_path fs q"
  shows "proper_path (tmp_path q)" "\<not> has_nul (tmp_path q)"
proof -
  have q: "proper_path q" "\<not> has_nul q" using assms by (simp_all add: safe_path_def)
  have "proper ((if q = [] then [] else last q) @ tmp_suffix)"
    using q(1) by (cases q rule: rev_cases) (auto simp: proper_def tmp_suffix_def slash_def)
  then show "proper_path (tmp_path q)" using q(1) by (cases q rule: rev_cases) (auto simp: tmp_path_def)
  show "\<not> has_nul (tmp_path q)"
    using q(2) by (cases q rule: rev_cases) (auto simp: has_nul_def tmp_path_def tmp_suffix_def)
qed

text \<open>The staging path is safe where no proper prefix of \<open>q\<close> holds content.\<close>

lemma tmp_path_safe:
  assumes "safe_path fs0 q" "no_link fs (tmp_path q)"
    and "\<And>r. strict_prefix r q \<Longrightarrow> content_at fs r = content_at fs0 r"
  shows "safe_path fs (tmp_path q)"
proof -
  have "plain_path fs (tmp_path q)"
    unfolding plain_path_def
  proof (intro allI impI)
    fix r
    assume "strict_prefix r (tmp_path q)"
    then have r: "prefix r (butlast q)" by (simp add: strict_prefix_butlast)
    show "node_at fs r = Some Dir \<or> node_at fs r = None"
    proof (cases "q = []")
      case False
      then have sp: "strict_prefix r q" using r by (simp add: strict_prefix_butlast)
      then have "content_at fs0 r = None"
        using assms(1) by (auto simp: content_None safe_path_def plain_path_def)
      then have "content_at fs r = None" using assms(3) [OF sp] by simp
      then show ?thesis by (auto simp: content_None)
    qed (use r in simp)
  qed
  with assms tmp_path_proper show ?thesis by (auto simp: safe_path_def)
qed

lemma replace_file_cases:
  assumes "replace_file os tmp q = (os', r)" "fs_wf (files os)"
    and "safe_path (files os) tmp" "safe_path (files os) q" "tmp \<noteq> q"
    and "nodes os tmp = Some (File c m)" "butlast tmp = butlast q" "tmp \<noteq> []"
  shows "undo_faults os' = undo_faults os \<and> fs_wf (files os') \<and>
    (r \<noteq> None \<and> (nodes os' = nodes os \<or> nodes os' = (nodes os)(q := None)) \<or>
     r = None \<and> q \<noteq> [] \<and> nodes os' = (nodes os)(tmp := None, q \<mapsto> File c m))"
proof -
  obtain os1 r1 where r1: "remove_path os q = (os1, r1)" by fastforce
  note R = remove_path_cases [OF r1 assms(2,4)]
  show ?thesis
  proof (cases "r1 \<noteq> None \<and> r1 \<noteq> Some ENOENT")
    case True
    then have "os' = os1 \<and> r \<noteq> None" using assms(1) r1 by (auto simp: replace_file_def split: option.splits)
    with True R show ?thesis by auto
  next
    case False
    obtain os2 r2 where r2: "rename_path os1 tmp q = (os2, r2)" by fastforce
    have os': "os' = os2 \<and> (r = None \<longleftrightarrow> r2 = None)"
      using False assms(1) r1 r2 by (auto simp: replace_file_def split: option.splits)
    have ne: "q \<noteq> []" using False R by auto
    have n1: "nodes os1 = (nodes os)(q := None)" using False R by (auto simp: fun_eq_iff)
    have safe: "safe_path (files os1) tmp" "safe_path (files os1) q"
      using assms(3,4) by (auto simp: safe_path_def plain_path_def no_link_def n1)
    have wf1: "fs_wf (files os1)" using R by simp
    note M = rename_path_cases [OF r2 wf1 safe assms(8) ne assms(5)]
    have "nodes os1 tmp = Some (File c m)" using n1 assms(5,6) by simp
    with M os' R n1 ne show ?thesis by (auto simp: fun_upd_twist [OF assms(5)])
  qed
qed

section \<open>One planned path\<close>

definition planned_content :: "planned_file \<Rightarrow> (string + bool \<times> string list) option" where
  "planned_content pf = (if plan_delete pf then None else Some (Inl (plan_content pf)))"

definition all_tmp_free :: "path set \<Rightarrow> fs \<Rightarrow> bool" where
  "all_tmp_free T fs \<longleftrightarrow> (\<forall>p. node_at fs p \<noteq> None \<longrightarrow> tmp_free T p)"

lemma nearI:
  assumes "fs_wf fs" "no_link t q" "bk_existed b \<Longrightarrow> node_at t q \<noteq> Some Dir"
    and others: "\<And>p. p \<notin> X \<Longrightarrow> p \<noteq> q \<Longrightarrow>
      node_at fs p = node_at t p \<or> (node_at t p = None \<and> node_at fs p = Some Dir \<and> p \<in> M)"
    and at_q: "node_at fs q = node_at t q \<or> node_at fs q = None"
    and X: "\<And>x. x \<in> X \<Longrightarrow> node_at fs x \<noteq> Some Dir"
  shows "near M X t q b fs"
  unfolding near_def
proof (intro conjI allI impI)
  fix p assume "p \<notin> X" "p \<noteq> q"
  then show "content_at fs p = content_at t p" using others [of p] by (auto simp: content_at_def)
next
  fix p assume p: "node_at fs p = Some Dir"
  then have "p \<notin> X" using X by auto
  then show "node_at t p = Some Dir \<or> p \<in> M" using p others [of p] at_q by (cases "p = q") auto
qed (use assms in \<open>auto simp: no_link_def\<close>)

text \<open>The facts every branch of a step starts from.\<close>

definition step_ready ::
  "path set \<Rightarrow> path set \<Rightarrow> fs \<Rightarrow> backup list \<Rightarrow> backup \<Rightarrow> path \<Rightarrow> planned_file \<Rightarrow> os \<Rightarrow> bool" where
  "step_ready T M fs0 bs b q pf os \<longleftrightarrow>
     fs_wf (files os) \<and> undo_ok os \<and> all_tmp_free T (files os) \<and> rolls T M (files os) bs fs0
     \<and> planned_at T M (files os) q b \<and> safe_path fs0 q \<and> all_tmp_free T fs0
     \<and> (plan_delete pf \<longrightarrow> q \<notin> M) \<and> (\<not> plan_delete pf \<longrightarrow> tmp_path q \<in> T)"

definition step_done ::
  "path set \<Rightarrow> path set \<Rightarrow> fs \<Rightarrow> backup list \<Rightarrow> path \<Rightarrow> planned_file \<Rightarrow> os \<Rightarrow> os \<Rightarrow> go_error option \<Rightarrow> bool" where
  "step_done T M fs0 bs' q pf os os' r \<longleftrightarrow>
     fs_wf (files os') \<and> undo_ok os' \<and>
     (if r = None
      then rolls T M (files os') bs' fs0 \<and> all_tmp_free T (files os')
        \<and> content_at (files os') = (content_at (files os))(q := planned_content pf)
      else content_at (files os') = content_at fs0)"

lemma step_readyD:
  assumes "step_ready T M fs0 bs b q pf os"
  shows "fs_wf (files os)" "undo_ok os" "all_tmp_free T (files os)" "rolls T M (files os) bs fs0"
    "planned_at T M (files os) q b" "safe_path fs0 q" "all_tmp_free T fs0" "plan_delete pf \<Longrightarrow> q \<notin> M"
    "safe_path (files os) q" "tmp_free T q" "no_link (files os) q"
    "bk_existed b \<Longrightarrow> nodes os q \<noteq> Some Dir" "\<And>r. strict_prefix r q \<Longrightarrow> r \<in> M"
    "bk_existed b \<longleftrightarrow> (\<exists>d m. nodes os q = Some (File d m))"
    "\<not> plan_delete pf \<Longrightarrow> tmp_path q \<in> T"
  using assms by (auto simp: step_ready_def planned_at_def safe_path_def backs_up_def split: if_splits)

lemma all_tmp_freeD: "all_tmp_free T fs \<Longrightarrow> \<not> tmp_free T p \<Longrightarrow> node_at fs p = None"
  by (auto simp: all_tmp_free_def)

lemma failed_step:
  assumes "step_ready T M fs0 bs b q pf os" "near M {} (files os) q b (files os1)" "undo_ok os1"
  shows "step_done T M fs0 bs' q pf os (rollback (bs @ [b]) os1) (Some e)"
proof -
  have X: "tmp_only T {}" by (simp add: tmp_only_def)
  note R = rollback_near [OF step_readyD(4,5) [OF assms(1)] assms(2,3) X]
  then show ?thesis by (auto simp: step_done_def)
qed

lemma delete_step:
  assumes "step_ready T M fs0 bs b q pf os" "plan_delete pf"
    and "write_planned (bs @ [b]) pf q (bk_existed b) os = (os', r)"
  shows "step_done T M fs0 (bs @ [b]) q pf os os' r"
proof -
  note S = step_readyD [OF assms(1)]
  show ?thesis
  proof (cases "bk_existed b")
    case False
    then have os': "os' = os" "r = None" using assms(2,3) by (simp_all add: write_planned_def)
    have "content_at (files os) q = None" using False S(9,14) safe_not_link [OF S(9)]
      by (cases "nodes os q") (auto simp: content_at_def split: node.splits)
    then have "content_at (files os) = (content_at (files os))(q := planned_content pf)"
      using assms(2) by (auto simp: planned_content_def)
    moreover have "rolls T M (files os) (bs @ [b]) fs0"
      by (rule rolls_snoc [OF S(4,5)]) (use False S in auto)
    ultimately show ?thesis using os' S by (simp add: step_done_def)
  next
    case True
    obtain os1 r1 where r1: "remove_path os q = (os1, r1)" by fastforce
    note R = remove_path_cases [OF r1 S(1,9)]
    have undo: "undo_ok os1" using R S(2) by (simp add: undo_ok_def)
    show ?thesis
    proof (cases r1)
      case (Some e)
      then have same: "files os1 = files os" using R by auto
      have "near M {} (files os) q b (files os1)"
        by (rule nearI) (use same S in auto)
      from failed_step [OF assms(1) this undo] True Some assms(2,3) r1 show ?thesis
        by (auto simp: write_planned_def)
    next
      case None
      then have os': "os' = os1" "r = None" and n: "nodes os1 = (nodes os)(q := None)"
        using True assms(2,3) r1 R by (auto simp: write_planned_def)
      have c: "content_at (files os1) = (content_at (files os))(q := planned_content pf)"
        using n assms(2) by (auto simp: planned_content_def content_at_def fun_eq_iff)
      have "rolls T M (files os1) (bs @ [b]) fs0"
      proof (rule rolls_snoc [OF S(4,5)])
        fix p assume "p \<noteq> q"
        then show "content_at (files os1) p = content_at (files os) p" using n by (auto intro: content_cong)
      qed (use n S(8) assms(2) in \<open>auto simp: no_link_def split: if_splits\<close>)
      moreover have "all_tmp_free T (files os1)" using S(3) n by (simp add: all_tmp_free_def)
      ultimately show ?thesis using os' R undo c by (simp add: step_done_def)
    qed
  qed
qed

text \<open>After the parent directories of \<open>q\<close> were made.\<close>

lemma made_dirs:
  assumes "step_ready T M fs0 bs b q pf os" "mkdir_all os (butlast q) = (os1, r1)"
  shows "fs_wf (files os1)" "undo_ok os1" "r1 = None \<Longrightarrow> nodes os1 (butlast q) = Some Dir"
    "nodes os1 q = nodes os q" "safe_path (files os1) q" "all_tmp_free T (files os1)"
    "\<And>p. nodes os1 p = nodes os p \<or> (nodes os p = None \<and> nodes os1 p = Some Dir \<and> p \<in> M)"
proof -
  note S = step_readyD [OF assms(1)]
  note M1 = mkdir_all_cases [OF assms(2) S(1) safe_path_prefix [OF S(9) butlast_prefix]]
  then show "fs_wf (files os1)" "undo_ok os1" "r1 = None \<Longrightarrow> nodes os1 (butlast q) = Some Dir"
    using S(2) by (simp_all add: undo_ok_def)
  have dirs: "more_dirs os (butlast q) os1" using M1 by blast
  show q1: "nodes os1 q = nodes os q"
    using more_dirsD [OF dirs, of q] not_prefix_butlast [of q] by (cases "q = []") auto
  show "safe_path (files os1) q" by (rule more_dirs_safe [OF dirs S(9)])
  show "nodes os1 p = nodes os p \<or> (nodes os p = None \<and> nodes os1 p = Some Dir \<and> p \<in> M)" for p
  proof (cases "q = []")
    case False
    then show ?thesis using more_dirsD [OF dirs, of p] S(13) by (auto simp: strict_prefix_butlast)
  next
    case True
    then show ?thesis using more_dirsD [OF dirs, of p] q1 by auto
  qed
  show "all_tmp_free T (files os1)"
    unfolding all_tmp_free_def
  proof (intro allI impI)
    fix p
    assume "nodes os1 p \<noteq> None"
    then show "tmp_free T p"
      using more_dirsD [OF dirs, of p] S(3,10) tmp_free_prefix [of T q p]
        prefix_order.trans [OF _ butlast_prefix, of p q] by (auto simp: all_tmp_free_def)
  qed
qed

text \<open>A staged file that is in the way of the rollback is removed afterwards.\<close>

lemma failed_stage:
  assumes ready: "step_ready T M fs0 bs b q pf os" and plan: "\<not> plan_delete pf"
    and near: "near M {tmp_path q} (files os) q b (files os1)" "undo_ok os1"
    and staged: "nodes os1 (tmp_path q) = None \<or> (\<exists>d m. nodes os1 (tmp_path q) = Some (File d m))"
  shows "step_done T M fs0 bs' q pf os (clean_tmp (tmp_path q) (rollback (bs @ [b]) os1)) (Some e)"
proof -
  note S = step_readyD [OF ready]
  let ?tmp = "tmp_path q" and ?os = "rollback (bs @ [b]) os1"
  note unfree = staged_not_free [OF S(15) [OF plan]]
  have X: "tmp_only T {?tmp}" using unfree by (simp add: tmp_only_def)
  note R = rollback_near [OF S(4,5) near X]
  have tmp: "nodes ?os ?tmp \<noteq> Some Dir" "no_link (files ?os) ?tmp"
    using R(4) [of ?tmp] staged by (auto simp: no_link_def)
  have safe: "safe_path (files ?os) ?tmp"
  proof (rule tmp_path_safe [OF S(6) tmp(2)])
    fix r
    assume "strict_prefix r q"
    then have "tmp_free T r" using S(10) tmp_free_prefix by (auto simp: strict_prefix_def)
    then have "r \<noteq> ?tmp" using unfree by blast
    then show "content_at (files ?os) r = content_at fs0 r" using R(3) by simp
  qed
  note C = clean_tmp_result [OF R(1) safe R(2) tmp(1)]
  have "content_at (files (clean_tmp ?tmp ?os)) p = content_at fs0 p" for p
  proof (cases "p = ?tmp")
    case True
    then show ?thesis using C(3) all_tmp_freeD [OF S(7) unfree]
      by (simp add: content_at_def)
  next
    case False
    then have "content_at (files (clean_tmp ?tmp ?os)) p = content_at (files ?os) p"
      using C(3) by (auto intro: content_cong)
    then show ?thesis using R(3) [of p] False by simp
  qed
  then show ?thesis using C by (auto simp: step_done_def)
qed

text \<open>The state after a failed replacement, once the staged file is gone.\<close>

lemma failed_replace:
  assumes ready: "step_ready T M fs0 bs b q pf os" and plan: "\<not> plan_delete pf" and m: "mkdir_all os (butlast q) = (os1, r1)"
    and wf: "fs_wf (files os3)" "undo_ok os3"
    and n3: "\<And>p. p \<noteq> tmp_path q \<Longrightarrow> p \<noteq> q \<Longrightarrow> nodes os3 p = nodes os1 p"
      "nodes os3 q = nodes os1 q \<or> nodes os3 q = None" "\<exists>d m. nodes os3 (tmp_path q) = Some (File d m)"
  shows "step_done T M fs0 bs' q pf os (rollback (bs @ [b]) (clean_tmp (tmp_path q) os3)) (Some e)"
proof -
  note S = step_readyD [OF ready] and D = made_dirs [OF ready m]
  let ?tmp = "tmp_path q"
  note unfree = staged_not_free [OF S(15) [OF plan]]
  have safe: "safe_path (files os3) ?tmp"
  proof (rule tmp_path_safe [OF S(9)])
    show "no_link (files os3) ?tmp" using n3(3) by (auto simp: no_link_def)
    fix r
    assume r: "strict_prefix r q"
    then have "tmp_free T r" using S(10) tmp_free_prefix by (auto simp: strict_prefix_def)
    then have "r \<noteq> ?tmp" "r \<noteq> q" using unfree r by (auto simp: strict_prefix_def)
    then show "content_at (files os3) r = content_at (files os) r"
      using n3(1) [of r] D(7) [of r] by (auto simp: content_at_def)
  qed
  note C = clean_tmp_result [OF wf(1) safe wf(2)]
  have c: "nodes (clean_tmp ?tmp os3) = (nodes os3)(?tmp := None)" using C(3) n3(3) by auto
  have none: "nodes os1 ?tmp = None" using all_tmp_freeD [OF D(6) unfree] .
  have same: "nodes (clean_tmp ?tmp os3) p = nodes os1 p" if "p \<noteq> q" for p
    using n3(1) [of p] c none that by (cases "p = ?tmp") auto
  have "near M {} (files os) q b (files (clean_tmp ?tmp os3))"
  proof (rule nearI)
    show "fs_wf (files (clean_tmp ?tmp os3))" using C(1) n3(3) by auto
    show "nodes (clean_tmp ?tmp os3) q = nodes os q \<or> nodes (clean_tmp ?tmp os3) q = None"
      using n3(2) c D(4) by (simp add: tmp_path_simps(3) [symmetric])
  qed (use S same D(7) in auto)
  moreover have "undo_ok (clean_tmp ?tmp os3)" using C(2) n3(3) by auto
  ultimately show ?thesis by (rule failed_step [OF ready])
qed

lemma write_step:
  assumes ready: "step_ready T M fs0 bs b q pf os" and plan: "\<not> plan_delete pf"
    and step: "write_planned (bs @ [b]) pf q (bk_existed b) os = (os', r)"
  shows "step_done T M fs0 (bs @ [b]) q pf os os' r"
proof -
  note S = step_readyD [OF ready]
  let ?tmp = "tmp_path q"
  note unfree = staged_not_free [OF S(15) [OF plan]]
  obtain os1 r1 where m: "mkdir_all os (butlast q) = (os1, r1)" by fastforce
  note D = made_dirs [OF ready m]
  have near1: "near M {} (files os) q b (files os1)"
    by (rule nearI) (use D S in auto)
  show ?thesis
  proof (cases r1)
    case (Some e)
    from failed_step [OF ready near1 D(2)] step plan m Some show ?thesis
      by (auto simp: write_planned_def dir_path_def)
  next
    case None
    note parent = D(3) [OF None]
    have tmp1: "nodes os1 ?tmp = None" using all_tmp_freeD [OF D(6) unfree] .
    have T1: "safe_path (files os1) ?tmp"
      by (rule tmp_path_safe [OF D(5)]) (use tmp1 in \<open>auto simp: no_link_def\<close>)
    obtain os2 r2 where w: "write_file os1 ?tmp (plan_content pf) file_mode = (os2, r2)" by fastforce
    note W = write_file_cases [OF w D(1) T1 tmp_path_simps(2)]
    have undo2: "undo_ok os2" using W D(2) by (simp add: undo_ok_def)
    have n2: "nodes os2 p = nodes os1 p" if "p \<noteq> ?tmp" for p using W that by auto
    show ?thesis
    proof (cases r2)
      case e: (Some e)
      have os': "os' = clean_tmp ?tmp (rollback (bs @ [b]) os2)" "r \<noteq> None"
        using step plan m None w e by (auto simp: write_planned_def dir_path_def Let_def)
      have staged: "nodes os2 ?tmp = None \<or> (\<exists>d m. nodes os2 ?tmp = Some (File d m))"
        using W tmp1 by auto
      have q2: "nodes os2 q = nodes os q" using n2 [of q] D(4) tmp_path_simps(3) [of q] by metis
      have "near M {?tmp} (files os) q b (files os2)"
      proof (rule nearI)
        show "nodes os2 p = nodes os p \<or> (nodes os p = None \<and> nodes os2 p = Some Dir \<and> p \<in> M)"
          if "p \<notin> {?tmp}" for p
          using that n2 [of p] D(7) [of p] by auto
        show "fs_wf (files os2)" using W by blast
      qed (use S q2 staged in auto)
      from failed_stage [OF ready plan this undo2 staged] os' show ?thesis by (cases r) auto
    next
      case ok: None
      then obtain m' where f2: "nodes os2 ?tmp = Some (File (plan_content pf) m')" using W by auto
      obtain os3 r3 where r3: "replace_file os2 ?tmp q = (os3, r3)" by fastforce
      have wf2: "fs_wf (files os2)" using W by simp
      have free: "r \<noteq> ?tmp" if "prefix r q" for r
        using tmp_free_prefix [OF S(10) that] unfree by auto
      have qsafe: "safe_path (files os2) q"
        by (rule safe_path_cong [OF D(5)]) (use n2 free in auto)
      have tsafe: "safe_path (files os2) ?tmp"
      proof (rule tmp_path_safe [OF D(5)])
        show "no_link (files os2) ?tmp" using f2 by (simp add: no_link_def)
        fix r
        assume "strict_prefix r q"
        then have "r \<noteq> ?tmp" using free by (simp add: strict_prefix_def)
        then show "content_at (files os2) r = content_at (files os1) r" using n2 by (auto intro: content_cong)
      qed
      note R = replace_file_cases [OF r3 wf2 tsafe qsafe tmp_path_simps(3) f2 tmp_path_simps(1,2)]
      have undo3: "undo_ok os3" using R undo2 by (auto simp: undo_ok_def)
      have wf3: "fs_wf (files os3)" using R by blast
      show ?thesis
      proof (cases r3)
        case e: (Some e)
        have os': "os' = rollback (bs @ [b]) (clean_tmp ?tmp os3)" "r \<noteq> None"
          using step plan m None w ok r3 e by (auto simp: write_planned_def dir_path_def Let_def)
        have n3: "nodes os3 = nodes os2 \<or> nodes os3 = (nodes os2)(q := None)" using R e by auto
        have "step_done T M fs0 (bs @ [b]) q pf os (rollback (bs @ [b]) (clean_tmp ?tmp os3)) (Some (the r))"
        proof (rule failed_replace [OF ready plan m wf3 undo3])
          show "nodes os3 p = nodes os1 p" if "p \<noteq> ?tmp" "p \<noteq> q" for p using n3 n2 [OF that(1)] that by auto
          show "nodes os3 q = nodes os1 q \<or> nodes os3 q = None"
            using n3 n2 [of q] free [of q] by auto
          show "\<exists>d m. nodes os3 ?tmp = Some (File d m)" using n3 f2 tmp_path_simps(3) [of q] by auto
        qed
        then show ?thesis using os' by simp
      next
        case fin: None
        have os': "os' = os3" "r = None"
          using step plan m None w ok r3 fin by (auto simp: write_planned_def dir_path_def Let_def)
        have n3: "nodes os3 = (nodes os2)(?tmp := None, q \<mapsto> File (plan_content pf) m')"
          using R fin by auto
        have others: "nodes os3 p = nodes os p \<or> (nodes os p = None \<and> nodes os3 p = Some Dir \<and> p \<in> M)"
          if "p \<noteq> q" for p
          using that n3 n2 [of p] D(7) [of p] all_tmp_freeD [OF S(3) unfree] by auto
        have c: "content_at (files os3) p = content_at (files os) p" if "p \<noteq> q" for p
          using others [OF that] by (auto simp: content_at_def)
        have cq: "content_at (files os3) q = planned_content pf"
          using n3 plan by (simp add: content_at_def planned_content_def)
        have "rolls T M (files os3) (bs @ [b]) fs0"
        proof (rule rolls_snoc [OF S(4,5) c])
          fix p assume "nodes os3 p = Some Dir"
          then show "nodes os p = Some Dir \<or> p \<in> M" using others [of p] n3 by (cases "p = q") auto
        qed (use n3 cq plan in \<open>simp_all add: no_link_def planned_content_def\<close>)
        moreover have "all_tmp_free T (files os3)"
          unfolding all_tmp_free_def
        proof (intro allI impI)
          fix p assume p: "nodes os3 p \<noteq> None"
          then have "p \<noteq> ?tmp" using n3 tmp_path_simps(3) [of q] by auto
          then show "tmp_free T p"
            using p n3 n2 [of p] D(6) S(10) by (cases "p = q") (auto simp: all_tmp_free_def)
        qed
        ultimately show ?thesis using os' undo3 wf3 c cq by (auto simp: step_done_def fun_eq_iff)
      qed
    qed
  qed
qed

section \<open>The loop over the planned paths\<close>

text \<open>What the revalidated proposal guarantees for a planned key, in the state \<open>fs0\<close> at the start.\<close>

definition key_ready :: "path set \<Rightarrow> path set \<Rightarrow> fs \<Rightarrow> workspace \<Rightarrow> plan \<Rightarrow> string \<Rightarrow> path \<Rightarrow> planned_file \<Rightarrow> bool" where
  "key_ready T M fs0 ws planned k q pf \<longleftrightarrow>
     resolve_path fs0 ws k = Inr q \<and> map_of planned k = Some pf \<and> (\<forall>r. strict_prefix r q \<longrightarrow> r \<in> M)
     \<and> (plan_delete pf \<longrightarrow> q \<notin> M) \<and> tmp_free T q \<and> (\<not> plan_delete pf \<longrightarrow> tmp_path q \<in> T)"

definition loop_inv :: "path set \<Rightarrow> path set \<Rightarrow> fs \<Rightarrow> os \<Rightarrow> backup list \<Rightarrow> bool" where
  "loop_inv T M fs0 os bs \<longleftrightarrow>
     fs_wf (files os) \<and> undo_ok os \<and> all_tmp_free T (files os) \<and> rolls T M (files os) bs fs0
     \<and> links (files os) = links fs0"

definition start_ok :: "path set \<Rightarrow> fs \<Rightarrow> workspace \<Rightarrow> bool" where
  "start_ok T fs0 ws \<longleftrightarrow> fs_wf fs0 \<and> all_tmp_free T fs0 \<and> proper_path (ws_root ws)"

lemma take_backup_result:
  assumes "fs_wf (files os)" "safe_path (files os) q" "take_backup os k q = (os1, r)"
  shows "files os1 = files os" "undo_faults os1 = undo_faults os"
    "r = Inr b \<Longrightarrow> backs_up b (files os) q"
proof -
  obtain f os0 where f: "next_fault os = (f, os0)" by fastforce
  note n = next_fault_cases(1,2) [OF f]
  have l: "lstat (files os) q = (case nodes os q of None \<Rightarrow> Inl ENOENT | Some nd \<Rightarrow> Inr nd)"
    by (rule stat_safe(1) [OF assms(2,1)])
  have c: "read_content (files os) q =
      (case nodes os q of None \<Rightarrow> Inl ENOENT | Some (File d m) \<Rightarrow> Inr d | _ \<Rightarrow> Inl EISDIR)"
    by (rule read_content_safe [OF assms(2,1)])
  have "files os1 = files os \<and> undo_faults os1 = undo_faults os \<and> (r = Inr b \<longrightarrow> backs_up b (files os) q)"
  proof (cases "nodes os q")
    case None
    with l assms(3) show ?thesis by (auto simp: take_backup_def backs_up_def Let_def)
  next
    case (Some nd)
    show ?thesis
    proof (cases nd)
      case Dir
      with Some l assms(3) show ?thesis by (auto simp: take_backup_def backs_up_def Let_def)
    next
      case (File d m)
      with Some l c assms(3) n f show ?thesis
        by (auto simp: take_backup_def read_file_def backs_up_def Let_def split: if_splits)
    next
      case (Link ab t)
      with Some safe_not_link [OF assms(2)] show ?thesis by simp
    qed
  qed
  then show "files os1 = files os" "undo_faults os1 = undo_faults os"
    "r = Inr b \<Longrightarrow> backs_up b (files os) q" by auto
qed

lemma rollback_loop:
  assumes "loop_inv T M fs0 os bs" "files os1 = files os" "undo_faults os1 = undo_faults os"
  shows "fs_wf (files (rollback bs os1)) \<and> undo_ok (rollback bs os1)
    \<and> content_at (files (rollback bs os1)) = content_at fs0"
proof -
  have "rolls T M (files os) bs fs0" "fs_wf (files os1)" "undo_ok os1" "similar M {} (files os1) (files os)"
    using assms by (simp_all add: loop_inv_def undo_ok_def)
  from rollback_similar [OF this] show ?thesis by (auto simp: tmp_only_def)
qed

lemma links_update:
  assumes "content_at fs' = (content_at fs)(q := planned_content pf)" "no_link fs q"
  shows "links fs' = links fs"
proof
  fix p
  show "links fs' p = links fs p"
    using assms by (cases "p = q")
      (auto simp: links_content planned_content_def no_link_def content_Inr split: option.splits sum.splits)
qed

lemma apply_path_result:
  assumes start: "start_ok T fs0 ws" and inv: "loop_inv T M fs0 os bs" and key: "key_ready T M fs0 ws planned k q pf"
    and step: "apply_path ws planned fail_after k (os, bs, n) = (os', r)"
  shows "(case r of
      Inl e \<Rightarrow> fs_wf (files os') \<and> undo_ok os' \<and> content_at (files os') = content_at fs0
    | Inr (bs', n') \<Rightarrow> loop_inv T M fs0 os' bs'
        \<and> content_at (files os') = (content_at (files os))(q := planned_content pf))"
proof (cases "resolve_path (files os) ws k")
  case (Inl e)
  with step rollback_loop [OF inv refl refl] show ?thesis by (auto simp: apply_path_def Let_def)
next
  case (Inr q')
  have I: "fs_wf (files os)" "undo_ok os" "all_tmp_free T (files os)" "rolls T M (files os) bs fs0"
    "links (files os) = links fs0" using inv by (simp_all add: loop_inv_def)
  have F: "fs_wf fs0" "all_tmp_free T fs0" "proper_path (ws_root ws)" using start by (simp_all add: start_ok_def)
  have K: "resolve_path fs0 ws k = Inr q" "map_of planned k = Some pf" "\<And>r. strict_prefix r q \<Longrightarrow> r \<in> M"
    "plan_delete pf \<Longrightarrow> q \<notin> M" using key by (auto simp: key_ready_def)
  have q': "q' = q" using resolve_path_stable [OF F(1) I(1,5) F(3) K(1) Inr] .
  have safe: "safe_path (files os) q" using ws_paths.confined [OF I(1) F(3) Inr] q' by simp
  have safe0: "safe_path fs0 q" using ws_paths.confined [OF F(1,3) K(1)] by simp
  have free: "tmp_free T q" "\<not> plan_delete pf \<Longrightarrow> tmp_path q \<in> T" using key by (simp_all add: key_ready_def)
  obtain os1 rb where tb: "take_backup os k q = (os1, rb)" by fastforce
  note T = take_backup_result [OF I(1) safe tb]
  show ?thesis
  proof (cases rb)
    case (Inl e)
    with step Inr q' tb rollback_loop [OF inv T(1,2)] show ?thesis by (auto simp: apply_path_def Let_def)
  next
    case rb: (Inr b)
    have ready: "step_ready T M fs0 bs b q pf os1"
      using I F(2) T(1,2) T(3) [OF rb] safe safe0 free K(3,4)
      by (simp add: step_ready_def planned_at_def undo_ok_def)
    obtain os2 r2 where wp: "write_planned (bs @ [b]) pf q (bk_existed b) os1 = (os2, r2)" by fastforce
    have D: "step_done T M fs0 (bs @ [b]) q pf os1 os2 r2"
      using delete_step [OF ready _ wp] write_step [OF ready _ wp] by (cases "plan_delete pf") auto
    show ?thesis
    proof (cases r2)
      case (Some e)
      with step Inr q' tb rb K(2) wp D show ?thesis by (auto simp: apply_path_def step_done_def Let_def)
    next
      case None
      have c: "content_at (files os2) = (content_at (files os))(q := planned_content pf)"
        and D': "fs_wf (files os2)" "undo_ok os2" "rolls T M (files os2) (bs @ [b]) fs0" "all_tmp_free T (files os2)"
        using D None T(1) by (simp_all add: step_done_def)
      have "links (files os2) = links fs0"
        using links_update [OF c] safe I(5) by (simp add: safe_path_def)
      then have inv2: "loop_inv T M fs0 os2 (bs @ [b])" using D' by (simp add: loop_inv_def)
      show ?thesis
      proof (cases "fail_after > 0 \<and> n + 1 \<ge> fail_after")
        case True
        with step Inr q' tb rb K(2) wp None rollback_loop [OF inv2 refl refl] show ?thesis
          by (auto simp: apply_path_def Let_def)
      next
        case False
        with step Inr q' tb rb K(2) wp None inv2 c show ?thesis
          by (auto simp: apply_path_def Let_def)
      qed
    qed
  qed
qed

text \<open>The planned end state of the contents: the paths in order, the last write to a file wins.\<close>

definition plan_effect ::
  "fs \<Rightarrow> workspace \<Rightarrow> plan \<Rightarrow> string list \<Rightarrow> (path \<Rightarrow> (string + bool \<times> string list) option)
    \<Rightarrow> path \<Rightarrow> (string + bool \<times> string list) option" where
  "plan_effect fs0 ws planned ks c =
     fold (\<lambda>k c. case (resolve_path fs0 ws k, map_of planned k) of
             (Inr q, Some pf) \<Rightarrow> c(q := planned_content pf) | _ \<Rightarrow> c) ks c"

lemma apply_paths_result:
  assumes "start_ok T fs0 ws" "loop_inv T M fs0 os bs" "\<And>k. k \<in> set ks \<Longrightarrow> \<exists>q pf. key_ready T M fs0 ws planned k q pf"
    and "apply_paths ws planned fail_after ks (os, bs, n) = (os', r)"
  shows "fs_wf (files os') \<and> undo_ok os' \<and>
    (case r of
       Some e \<Rightarrow> content_at (files os') = content_at fs0
     | None \<Rightarrow> content_at (files os') = plan_effect fs0 ws planned ks (content_at (files os)))"
  using assms(2-)
proof (induction ks arbitrary: os bs n)
  case Nil
  then show ?case by (simp add: plan_effect_def loop_inv_def)
next
  case (Cons k ks)
  obtain q pf where key: "key_ready T M fs0 ws planned k q pf" using Cons.prems(2) [of k] by auto
  obtain os1 r1 where st: "apply_path ws planned fail_after k (os, bs, n) = (os1, r1)" by fastforce
  note A = apply_path_result [OF assms(1) Cons.prems(1) key st]
  show ?case
  proof (cases r1)
    case (Inl e)
    with Cons.prems(3) st A show ?thesis by auto
  next
    case (Inr bn)
    obtain bs1 n1 where bn: "bn = (bs1, n1)" by (cases bn)
    have inv1: "loop_inv T M fs0 os1 bs1" and c: "content_at (files os1) = (content_at (files os))(q := planned_content pf)"
      using A Inr bn by simp_all
    have rest: "apply_paths ws planned fail_after ks (os1, bs1, n1) = (os', r)"
      using Cons.prems(3) st Inr bn by simp
    have "plan_effect fs0 ws planned (k # ks) (content_at (files os)) =
        plan_effect fs0 ws planned ks (content_at (files os1))"
      using key c by (simp add: plan_effect_def key_ready_def)
    with Cons.IH [OF inv1 _ rest] Cons.prems(2) show ?thesis by (cases r) simp_all
  qed
qed

section \<open>From the proposal to the loop\<close>

text \<open>
  The files a plan names, the paths their new contents are staged at, and that these are free:
  nothing is there, and no planned file is one of them or below one.
\<close>

definition planned_targets :: "fs \<Rightarrow> workspace \<Rightarrow> plan \<Rightarrow> (path \<times> planned_file) list" where
  "planned_targets fs0 ws planned =
     concat (map (\<lambda>(k, pf). case resolve_path fs0 ws k of Inr q \<Rightarrow> [(q, pf)] | Inl _ \<Rightarrow> []) planned)"

definition staging_paths :: "fs \<Rightarrow> workspace \<Rightarrow> plan \<Rightarrow> path list" where
  "staging_paths fs0 ws planned =
     map (\<lambda>(q, _). tmp_path q) (filter (\<lambda>(_, pf). \<not> plan_delete pf) (planned_targets fs0 ws planned))"

definition staging_free :: "fs \<Rightarrow> workspace \<Rightarrow> plan \<Rightarrow> bool" where
  "staging_free fs0 ws planned =
     list_all (\<lambda>t. node_at fs0 t = None \<and> list_all (\<lambda>(q, _). \<not> prefix t q) (planned_targets fs0 ws planned))
       (staging_paths fs0 ws planned)"

lemma planned_targetsI:
  "map_of planned k = Some pf \<Longrightarrow> resolve_path fs0 ws k = Inr q \<Longrightarrow> (q, pf) \<in> set (planned_targets fs0 ws planned)"
proof -
  assume "map_of planned k = Some pf" and q: "resolve_path fs0 ws k = Inr q"
  then have "(k, pf) \<in> set planned" by (simp add: map_of_SomeD)
  then show ?thesis unfolding planned_targets_def set_concat set_map using q
    by (intro UN_I [of "[(q, pf)]"] image_eqI [of _ _ "(k, pf)"]) simp_all
qed

lemma staging_pathsI:
  assumes "map_of planned k = Some pf" "resolve_path fs0 ws k = Inr q" "\<not> plan_delete pf"
  shows "tmp_path q \<in> set (staging_paths fs0 ws planned)"
  using planned_targetsI [OF assms(1,2)] assms(3) by (force simp: staging_paths_def)

lemma staging_freeD:
  assumes "staging_free fs0 ws planned" "fs_wf fs0"
  shows "all_tmp_free (set (staging_paths fs0 ws planned)) fs0"
    "map_of planned k = Some pf \<Longrightarrow> resolve_path fs0 ws k = Inr q \<Longrightarrow>
      tmp_free (set (staging_paths fs0 ws planned)) q"
proof -
  show "all_tmp_free (set (staging_paths fs0 ws planned)) fs0"
    using assms fs_wf_absent [OF assms(2)]
    by (auto simp: staging_free_def all_tmp_free_def tmp_free_def list_all_iff)
  show "map_of planned k = Some pf \<Longrightarrow> resolve_path fs0 ws k = Inr q \<Longrightarrow>
      tmp_free (set (staging_paths fs0 ws planned)) q"
    using assms(1) planned_targetsI [of planned k pf fs0 ws q]
    by (auto simp: staging_free_def tmp_free_def list_all_iff)
qed

text \<open>Stored proposals stem from \<open>Propose\<close>; claims and marks do not touch what it computed.\<close>

definition genuine :: "proposal \<Rightarrow> bool" where
  "genuine prop \<longleftrightarrow>
     (\<exists>fs now w cs m p. propose fs now w cs m = Inr p \<and> prop_change_set prop = prop_change_set p
        \<and> prop_planned prop = prop_planned p \<and> prop_diff prop = prop_diff p)"

definition parents_of :: "fs \<Rightarrow> workspace \<Rightarrow> plan \<Rightarrow> path set" where
  "parents_of fs0 ws planned =
     {r. \<exists>k q. map_of planned k \<noteq> None \<and> resolve_path fs0 ws k = Inr q \<and> strict_prefix r q}"

lemma plan_entry:
  assumes "propose fs now w cs m = Inr p" "map_of (prop_planned p) k = Some v"
  obtains ch ps pl where "ch \<in> set (cs_changes cs)" "change_result fs w m ch = Inr (ps, pl)" "(k, v) \<in> set pl"
proof -
  have "map_of (result_plan fs w m (cs_changes cs)) k = Some v"
    using assms(2) propose_Inr(7) [OF assms(1)] map_of_update_all [OF proposal_keys_distinct(2) [OF assms(1)]]
    by simp
  then have "(k, v) \<in> set (result_plan fs w m (cs_changes cs))" by (rule map_of_SomeD)
  then obtain ch where ch: "ch \<in> set (cs_changes cs)" "(k, v) \<in> set (ok_plan (change_result fs w m ch))"
    by (auto simp: result_plan_def)
  obtain ps pl where "change_result fs w m ch = Inr (ps, pl)"
    using accepted_change [OF propose_Inr(5) [OF assms(1)] ch(1)] .
  with ch that show thesis by (simp add: ok_plan_def)
qed

lemma genuine_delete:
  assumes "genuine prop" "map_of (prop_planned prop) k = Some pf" "plan_delete pf"
  shows "\<exists>ch\<in>set (cs_changes (prop_change_set prop)). fc_operation ch \<in> {op_delete, op_rename} \<and> k = clean (fc_path ch)"
proof -
  obtain fs now w cs m p where p: "propose fs now w cs m = Inr p"
    "prop_change_set prop = prop_change_set p" "prop_planned prop = prop_planned p"
    using assms(1) by (auto simp: genuine_def)
  have changes: "cs_changes (prop_change_set prop) = cs_changes cs"
    using p(2) propose_Inr(6) [OF p(1)] by simp
  obtain ch ps pl where ch: "ch \<in> set (cs_changes cs)" "change_result fs w m ch = Inr (ps, pl)" "(k, pf) \<in> set pl"
    using plan_entry [OF p(1)] assms(2) p(3) by metis
  from ch(2,3) assms(3) have "fc_operation ch \<in> {op_delete, op_rename} \<and> k = clean (fc_path ch)"
    by (cases rule: change_result_cases) auto
  with ch(1) changes show ?thesis by auto
qed

lemma genuine_keys:
  assumes "genuine prop"
  shows "dom (map_of (prop_planned prop)) = set (concat (map change_keys (cs_changes (prop_change_set prop))))"
    "distinct (map fst (prop_planned prop))"
proof -
  obtain fs now w cs m p where p: "propose fs now w cs m = Inr p"
    "prop_change_set prop = prop_change_set p" "prop_planned prop = prop_planned p"
    using assms by (auto simp: genuine_def)
  show "dom (map_of (prop_planned prop)) = set (concat (map change_keys (cs_changes (prop_change_set prop))))"
    using proposal_keys [OF p(1)] p(2,3) propose_Inr(6) [OF p(1)] by simp
  show "distinct (map fst (prop_planned prop))"
    using p(3) propose_Inr(7) [OF p(1)] by (simp add: update_all_distinct)
qed

lemma keys_ready:
  assumes start: "start_ok T fs0 ws" and gen: "genuine prop"
    and staged: "staging_free fs0 ws (prop_planned prop)" and T: "T = set (staging_paths fs0 ws (prop_planned prop))"
    and fresh: "propose fs0 now ws (prop_change_set prop) m = Inr fresh"
    and k: "map_of (prop_planned prop) k = Some pf"
  shows "\<exists>q. key_ready T (parents_of fs0 ws (prop_planned prop)) fs0 ws (prop_planned prop) k q pf"
proof -
  have F: "fs_wf fs0" "proper_path (ws_root ws)" using start by (simp_all add: start_ok_def)
  have dom: "dom (map_of (prop_planned fresh)) = dom (map_of (prop_planned prop))"
    using proposal_keys [OF fresh] genuine_keys(1) [OF gen] by simp
  have res: "\<exists>q. resolve_path fs0 ws k = Inr q" if "map_of (prop_planned prop) k \<noteq> None" for k
    using proposal_key_resolves [OF fresh, of k] dom that by blast
  from res [of k] k obtain q where q: "resolve_path fs0 ws k = Inr q" by auto
  have "q \<notin> parents_of fs0 ws (prop_planned prop)" if del: "plan_delete pf"
  proof
    assume "q \<in> parents_of fs0 ws (prop_planned prop)"
    then obtain k' q' where k': "resolve_path fs0 ws k' = Inr q'" "strict_prefix q q'"
      by (auto simp: parents_of_def)
    obtain ch where ch: "ch \<in> set (cs_changes (prop_change_set prop))"
      "fc_operation ch \<in> {op_delete, op_rename}" "k = clean (fc_path ch)"
      using genuine_delete [OF gen k del] by blast
    obtain ps pl where "change_result fs0 ws m ch = Inr (ps, pl)"
      using accepted_change [OF propose_Inr(5) [OF fresh] ch(1)] .
    then have "exists_file fs0 ws k"
      using ch(2,3) read_existing_exists by (cases rule: change_result_cases) auto
    then obtain d perm where "node_at fs0 q = Some (File d perm)"
      using q exists_file_iff [OF F] by auto
    moreover have "safe_path fs0 q'" using ws_paths.confined [OF F k'(1)] by simp
    ultimately show False using k'(2) by (auto simp: safe_path_def plain_path_def)
  qed
  moreover have "tmp_free T q" "\<not> plan_delete pf \<Longrightarrow> tmp_path q \<in> T"
    using staging_freeD(2) [OF staged F(1) k q] staging_pathsI [OF k q] T by simp_all
  ultimately show ?thesis using q k by (auto simp: key_ready_def parents_of_def)
qed

text \<open>The outcome of the function run under the workspace lock.\<close>

lemma apply_locked_result:
  assumes wf: "fs_wf (files os)" "proper_path (ws_root ws)" "undo_ok os" and gen: "genuine prop"
    and staged: "staging_free (files os) ws (prop_planned prop)"
    and run: "apply_locked now prop req opts ws (os, None) = (ws', (os', res), e)"
  shows "content_at (files os') = (case e of
      Some err \<Rightarrow> content_at (files os)
    | None \<Rightarrow> plan_effect (files os) ws (prop_planned prop) (sort (map fst (prop_planned prop)))
        (content_at (files os)))"
proof (cases "propose (files os) now ws (prop_change_set prop) (opt_max_bytes opts)")
  case (Inl err)
  with run show ?thesis by (auto simp: apply_locked_def)
next
  case (Inr fresh)
  show ?thesis
  proof (cases "ad_hash (prop_diff fresh) = ad_hash (prop_diff prop)")
    case False
    with run Inr show ?thesis by (auto simp: apply_locked_def)
  next
    case True
    let ?T = "set (staging_paths (files os) ws (prop_planned prop))"
    let ?M = "parents_of (files os) ws (prop_planned prop)" and ?ks = "sort (map fst (prop_planned prop))"
    have start: "start_ok ?T (files os) ws"
      using wf staging_freeD(1) [OF staged wf(1)] by (simp add: start_ok_def)
    have "loop_inv ?T ?M (files os) os []"
      using start wf(3) by (simp add: loop_inv_def start_ok_def rolls_Nil)
    moreover have "\<exists>q pf. key_ready ?T ?M (files os) ws (prop_planned prop) k q pf" if "k \<in> set ?ks" for k
    proof -
      from that obtain pf where "map_of (prop_planned prop) k = Some pf"
        by (auto simp: map_of_None_iff dest: weak_map_of_SomeI)
      with keys_ready [OF start gen staged refl Inr this] show ?thesis by blast
    qed
    ultimately have loop: "apply_paths ws (prop_planned prop) (opt_fail_after opts) ?ks (os, [], 0) = (os1, r) \<Longrightarrow>
        (case r of Some e \<Rightarrow> content_at (files os1) = content_at (files os)
         | None \<Rightarrow> content_at (files os1) = plan_effect (files os) ws (prop_planned prop) ?ks (content_at (files os)))"
      for os1 r
      using apply_paths_result [OF start] by blast
    obtain os1 r where ap: "apply_paths ws (prop_planned prop) (opt_fail_after opts) ?ks (os, [], 0) = (os1, r)"
      by fastforce
    from loop [OF ap] ap run Inr True show ?thesis
      by (cases r) (auto simp: apply_locked_def Let_def)
  qed
qed

end
