(* ===== verification/Apply_Properties.thy ===== *)
theory Apply_Properties
  imports Apply_Atomic
begin

text \<open>
  What \<open>ApplyChanges\<close> guarantees, for any schedule of faults in its own calls. A successful
  apply was approved for exactly this diff, and the diff was computed again on the files as they
  are. When moreover the calls of the rollback work and nothing is at the paths the apply stages
  its files at (\<open>.oncode-tmp\<close> added to the name of a file it writes), a failed apply leaves
  contents, registry and proposal store as they were, and a successful one wrote exactly the plan.
  The last section shows on runs of the code that the condition on the staging paths is needed.
\<close>

section \<open>The state before an apply\<close>

text \<open>
  The file system is well formed, workspace roots are cleaned paths, and stored proposals come
  from \<open>Propose\<close>.
\<close>

definition world_ok :: "os \<Rightarrow> registry \<Rightarrow> proposal_store \<Rightarrow> bool" where
  "world_ok os reg st \<longleftrightarrow>
     fs_wf (files os)
     \<and> (\<forall>wid ws. map_of reg wid = Some ws \<longrightarrow> proper_path (ws_root ws))
     \<and> (\<forall>i p. map_of st i = Some p \<longrightarrow> genuine p)"

lemma genuine_flags [simp]:
  "genuine (p\<lparr>prop_applying := x\<rparr>) = genuine p" "genuine (p\<lparr>prop_applied := y\<rparr>) = genuine p"
  by (simp_all add: genuine_def)

lemma claim_cases:
  assumes "claim_for_apply st i = (st1, r)"
  shows "(\<exists>e. r = Inl e \<and> st1 = st) \<or>
    (\<exists>p. map_of st i = Some p \<and> \<not> prop_applied p \<and> \<not> prop_applying p \<and> r = Inr (p\<lparr>prop_applying := True\<rparr>)
      \<and> st1 = AList.update i (p\<lparr>prop_applying := True\<rparr>) st)"
  using assms by (auto simp: claim_for_apply_def Let_def split: option.splits if_splits)

lemma abort_after_claim:
  assumes "map_of st i = Some p" "\<not> prop_applied p" "\<not> prop_applying p"
  shows "map_of (abort_apply (AList.update i (p\<lparr>prop_applying := True\<rparr>) st) i) = map_of st"
proof -
  have "p\<lparr>prop_applying := False\<rparr> = p" using assms(3) by simp
  then show ?thesis using assms by (auto simp: abort_apply_def go_map.look_ins fun_eq_iff)
qed

lemma finish_after_claim:
  assumes "\<not> prop_applied p"
  shows "finish_apply (AList.update i (p\<lparr>prop_applying := True\<rparr>) st) i =
    (AList.update i (p\<lparr>prop_applied := True, prop_applying := False\<rparr>)
       (AList.update i (p\<lparr>prop_applying := True\<rparr>) st), None)"
  using assms by (simp add: finish_apply_def mark_applied_def go_map.look_ins)

lemma mutate_cases:
  assumes "mutate reg wid f s = (reg1, s1, r)"
  shows "(r \<noteq> None \<and> reg1 = reg \<and> s1 = s) \<or>
    (\<exists>ws ws'. map_of reg wid = Some ws \<and> f ws s = (ws', s1, r) \<and> reg1 = store_workspace wid ws' reg)"
  using assms by (auto simp: mutate_def split: if_splits option.splits prod.splits)

lemma store_same: "map_of reg wid = Some ws \<Longrightarrow> map_of (store_workspace wid ws reg) = map_of reg"
  by (auto simp: registry_store.look_ins)

text \<open>The function run under the lock: what its outcome says of its checks.\<close>

lemma apply_locked_cases:
  assumes "apply_locked now prop req opts ws (os, None) = (ws', (os', res), e)"
  shows "(\<exists>err. e = Some err \<and> ws' = ws) \<or>
    (\<exists>fresh r. e = None \<and> res = Some r \<and> ws' = ws\<lparr>ws_revision := int64_wrap (ws_revision ws + 1)\<rparr>
      \<and> propose (files os) now ws (prop_change_set prop) (opt_max_bytes opts) = Inr fresh
      \<and> ad_hash (prop_diff fresh) = ad_hash (prop_diff prop))"
  using assms by (auto simp: apply_locked_def Let_def split: sum.splits option.splits prod.splits if_splits)

text \<open>The run from the claim on.\<close>

lemma apply_claimed_cases:
  assumes run: "apply_claimed now reg st req opts os = (reg', st', os', r)"
  obtains e where "r = Inl e" "map_of reg' = map_of reg" "map_of st' = map_of st" "os' = os"
  | e ws p res where "r = Inl e" "map_of reg' = map_of reg" "map_of st' = map_of st"
      "map_of reg (ar_workspace req) = Some ws" "map_of st (ar_change_set req) = Some p"
      "apply_locked now (p\<lparr>prop_applying := True\<rparr>) req opts ws (os, None) = (ws, (os', res), Some e)"
  | ws p ws' res where "r = Inr res"
      "map_of reg (ar_workspace req) = Some ws" "map_of st (ar_change_set req) = Some p"
      "\<not> prop_applied p" "\<not> prop_applying p" "ar_diff_hash req = ad_hash (prop_diff p)"
      "apply_locked now (p\<lparr>prop_applying := True\<rparr>) req opts ws (os, None) = (ws', (os', Some res), None)"
      "map_of reg' = (map_of reg)(ar_workspace req \<mapsto> ws')"
      "map_of st' = (map_of st)(ar_change_set req \<mapsto> p\<lparr>prop_applied := True, prop_applying := False\<rparr>)"
proof -
  let ?i = "ar_change_set req"
  obtain st1 c where cl: "claim_for_apply st ?i = (st1, c)" by fastforce
  from claim_cases [OF cl] show thesis
  proof
    assume "\<exists>e. c = Inl e \<and> st1 = st"
    with run cl that(1) show thesis by (auto simp: apply_claimed_def Let_def)
  next
    assume "\<exists>p. map_of st ?i = Some p \<and> \<not> prop_applied p \<and> \<not> prop_applying p
      \<and> c = Inr (p\<lparr>prop_applying := True\<rparr>) \<and> st1 = AList.update ?i (p\<lparr>prop_applying := True\<rparr>) st"
    then obtain p where p: "map_of st ?i = Some p" "\<not> prop_applied p" "\<not> prop_applying p"
      "c = Inr (p\<lparr>prop_applying := True\<rparr>)" "st1 = AList.update ?i (p\<lparr>prop_applying := True\<rparr>) st" by blast
    let ?p = "p\<lparr>prop_applying := True\<rparr>"
    note abort = abort_after_claim [OF p(1-3)]
    show thesis
    proof (cases "cs_workspace (prop_change_set p) = ar_workspace req \<and> ar_diff_hash req = ad_hash (prop_diff p)")
      case False
      with run cl p abort that(1) show thesis by (auto simp: apply_claimed_def Let_def split: if_splits)
    next
      case True
      obtain reg1 os1 res e where mu:
        "mutate reg (ar_workspace req) (apply_locked now ?p req opts) (os, None) = (reg1, (os1, res), e)"
        by (metis prod_cases3 surj_pair)
      from mutate_cases [OF mu] show thesis
      proof
        assume "e \<noteq> None \<and> reg1 = reg \<and> (os1, res) = (os, None)"
        with run cl p True mu abort that(1) show thesis by (auto simp: apply_claimed_def Let_def)
      next
        assume "\<exists>ws ws'. map_of reg (ar_workspace req) = Some ws
          \<and> apply_locked now ?p req opts ws (os, None) = (ws', (os1, res), e)
          \<and> reg1 = store_workspace (ar_workspace req) ws' reg"
        then obtain ws ws' where ws: "map_of reg (ar_workspace req) = Some ws"
          "apply_locked now ?p req opts ws (os, None) = (ws', (os1, res), e)"
          "reg1 = store_workspace (ar_workspace req) ws' reg" by blast
        from apply_locked_cases [OF ws(2)] show thesis
        proof (elim disjE exE conjE)
          fix err
          assume "e = Some err" "ws' = ws"
          with run cl p True mu abort ws store_same [OF ws(1)] that(2) show thesis
            by (auto simp: apply_claimed_def Let_def)
        next
          fix fresh r0
          assume e: "e = None" "res = Some r0"
          have "r = Inr r0" "os' = os1" "reg' = reg1"
            "st' = AList.update ?i (p\<lparr>prop_applied := True, prop_applying := False\<rparr>) st1"
            using run cl p True mu e finish_after_claim [OF p(2), of ?i st]
            by (auto simp: apply_claimed_def Let_def)
          with ws p True e that(3) show thesis
            by (simp add: registry_store.look_ins go_map.look_ins fun_eq_iff)
        qed
      qed
    qed
  qed
qed

text \<open>The same with what becomes of the contents.\<close>

lemma apply_claimed_result:
  assumes ok: "world_ok os reg st" "undo_ok os"
    and staged: "\<And>ws p. map_of reg (ar_workspace req) = Some ws \<Longrightarrow> map_of st (ar_change_set req) = Some p \<Longrightarrow>
      staging_free (files os) ws (prop_planned p)"
    and run: "apply_claimed now reg st req opts os = (reg', st', os', r)"
  shows "(case r of
      Inl e \<Rightarrow> content_at (files os') = content_at (files os) \<and> map_of reg' = map_of reg \<and> map_of st' = map_of st
    | Inr res \<Rightarrow>
        \<exists>ws p. map_of reg (ar_workspace req) = Some ws \<and> map_of st (ar_change_set req) = Some p
          \<and> content_at (files os') = plan_effect (files os) ws (prop_planned p)
              (sort (map fst (prop_planned p))) (content_at (files os)))"
proof -
  have locked: "content_at (files os1) = (case e of Some _ \<Rightarrow> content_at (files os)
        | None \<Rightarrow> plan_effect (files os) ws (prop_planned p) (sort (map fst (prop_planned p))) (content_at (files os)))"
    if at: "map_of reg (ar_workspace req) = Some ws" "map_of st (ar_change_set req) = Some p"
      and l: "apply_locked now (p\<lparr>prop_applying := True\<rparr>) req opts ws (os, None) = (ws', (os1, res), e)"
    for ws p ws' os1 res e
  proof -
    have "fs_wf (files os)" "proper_path (ws_root ws)" "genuine (p\<lparr>prop_applying := True\<rparr>)"
      "staging_free (files os) ws (prop_planned (p\<lparr>prop_applying := True\<rparr>))"
      using ok(1) at staged [OF at] by (auto simp: world_ok_def)
    from apply_locked_result [OF this(1,2) ok(2) this(3,4) l] show ?thesis by (cases e) simp_all
  qed
  from run show ?thesis
  proof (cases rule: apply_claimed_cases)
    case (2 e ws p res)
    with locked [OF 2(4,5,6)] show ?thesis by simp
  next
    case (3 ws p ws' res)
    with locked [OF 3(2,3,7)] show ?thesis by auto
  qed simp
qed

lemma apply_changes_claimed:
  assumes "apply_changes now (Some reg) (Some st) approval req opts os = (rego, sto, os', r)"
  shows "(\<exists>e. r = Inl e \<and> rego = Some reg \<and> sto = Some st \<and> os' = os) \<or>
    (\<exists>reg' st'. rego = Some reg' \<and> sto = Some st'
      \<and> (case approval of None \<Rightarrow> local_approval | Some v \<Rightarrow> v) (ar_approval req) (ar_change_set req)
          (ar_diff_hash req) = None
      \<and> apply_claimed now reg st req opts os = (reg', st', os', r))"
  using assms by (auto simp: apply_changes_def Let_def split: if_splits option.splits prod.splits)

lemma plan_effect_frame:
  "(\<And>k. k \<in> set ks \<Longrightarrow> resolve_path fs ws k \<noteq> Inr q) \<Longrightarrow> plan_effect fs ws planned ks c q = c q"
proof (induction ks arbitrary: c)
  case (Cons k ks)
  then have "plan_effect fs ws planned (k # ks) c q =
      (case (resolve_path fs ws k, map_of planned k) of
         (Inr q', Some pf) \<Rightarrow> c(q' := planned_content pf) | _ \<Rightarrow> c) q"
    by (simp add: plan_effect_def)
  also have "\<dots> = c q" using Cons.prems [of k] by (auto split: sum.splits option.splits)
  finally show ?case .
qed (simp add: plan_effect_def)

lemma plan_effect_at:
  assumes "k \<in> set ks" "resolve_path fs ws k = Inr q" "map_of planned k = Some pf"
    and only: "\<And>k'. k' \<in> set ks \<Longrightarrow> resolve_path fs ws k' = Inr q \<Longrightarrow> k' = k"
  shows "plan_effect fs ws planned ks c q = planned_content pf"
  using assms(1) only
proof (induction ks arbitrary: c)
  case (Cons k' ks)
  show ?case
  proof (cases "k \<in> set ks")
    case True
    with Cons show ?thesis by (simp add: plan_effect_def)
  next
    case False
    with Cons.prems(1) have "k' = k" by simp
    moreover have "plan_effect fs ws planned ks (c(q := planned_content pf)) q = planned_content pf"
      using plan_effect_frame [of ks fs ws q planned "c(q := planned_content pf)"] False Cons.prems(2) by fastforce
    ultimately show ?thesis using assms(2,3) by (simp add: plan_effect_def)
  qed
qed simp

section \<open>A concrete apply\<close>

definition demo_os :: "fault list \<Rightarrow> os" where
  "demo_os fl = \<lparr>files = demo_fs, umask = 18, faults = fl, undo_faults = []\<rparr>"

definition demo_plan :: plan where
  "demo_plan = [(''in/f'', Planned False ''ho''), (''b'', Planned False ''new'')]"

definition demo_request :: "proposal \<Rightarrow> apply_request" where
  "demo_request p =
     \<lparr>ar_change_set = demo_id, ar_workspace = ws_id demo_ws,
      ar_approval = ''APR-00000000-0000-7000-8000-000000000000'', ar_diff_hash = ad_hash (prop_diff p)\<rparr>"

definition demo_options :: apply_options where
  "demo_options = \<lparr>opt_max_bytes = 100, opt_fail_after = 0\<rparr>"

lemma demo_planned:
  assumes "propose demo_fs 1 demo_ws demo_set 100 = Inr p"
  shows "prop_planned p = demo_plan" "prop_change_set p = demo_set" "\<not> prop_applied p" "\<not> prop_applying p"
    "ad_hash (prop_diff p) \<noteq> []"
proof -
  have "result_plan demo_fs demo_ws 100 demo_changes = demo_plan"
    using demo_read demo_create
    by (simp add: result_plan_def ok_plan_def demo_changes_def demo_plan_def change_result_def
        propose_change_def read_existing_for_change_def Let_def)
  moreover have "cs_changes demo_set = demo_changes" "demo_set\<lparr>cs_workspace := ws_id demo_ws\<rparr> = demo_set"
    by (simp_all add: demo_set_def)
  moreover have "update_all demo_plan [] = demo_plan" by (simp add: update_all_def demo_plan_def)
  ultimately show "prop_planned p = demo_plan" "prop_change_set p = demo_set" "\<not> prop_applied p"
    "\<not> prop_applying p" "ad_hash (prop_diff p) \<noteq> []"
    using propose_Inr(6-11) [OF assms] by (simp_all add: Let_def)
qed

lemma demo_world:
  assumes "propose demo_fs 1 demo_ws demo_set 100 = Inr p"
  shows "world_ok (demo_os fl) [(ws_id demo_ws, demo_ws)] [(demo_id, p)]" "undo_ok (demo_os fl)"
    "\<And>w q. map_of [(ws_id demo_ws, demo_ws)] i = Some w \<Longrightarrow> map_of [(demo_id, p)] j = Some q \<Longrightarrow>
      staging_free (files (demo_os fl)) w (prop_planned q)"
proof -
  note P = demo_planned [OF assms]
  have "genuine p" unfolding genuine_def using assms by blast
  then show "world_ok (demo_os fl) [(ws_id demo_ws, demo_ws)] [(demo_id, p)]"
    using demo_fs_wf demo_root by (auto simp: world_ok_def demo_os_def split: if_splits)
  show "undo_ok (demo_os fl)" by (simp add: undo_ok_def demo_os_def)
  have "staging_free demo_fs demo_ws demo_plan" by code_simp
  then show "\<And>w q. map_of [(ws_id demo_ws, demo_ws)] i = Some w \<Longrightarrow> map_of [(demo_id, p)] j = Some q \<Longrightarrow>
      staging_free (files (demo_os fl)) w (prop_planned q)"
    using P(1) by (auto simp: demo_os_def split: if_splits)
qed

text \<open>With these inputs the outcome is that of the loop over the planned paths.\<close>

lemma demo_apply:
  assumes p: "propose demo_fs 1 demo_ws demo_set 100 = Inr p"
    and loop: "apply_paths demo_ws demo_plan 0 [''b'', ''in/f''] (demo_os fl, [], 0) = (os', e)"
  shows "\<exists>rego sto r. apply_changes 1 (Some [(ws_id demo_ws, demo_ws)]) (Some [(demo_id, p)]) (Some local_approval)
      (demo_request p) demo_options (demo_os fl) = (rego, sto, os', r)
    \<and> (case e of None \<Rightarrow> \<exists>res. r = Inr res | Some err \<Rightarrow> r = Inl err)"
proof -
  note P = demo_planned [OF p]
  have ids: "validate_id KChangeSet demo_id = None" "validate_id KWorkspace (ws_id demo_ws) = None"
    "validate_id KApproval ''APR-00000000-0000-7000-8000-000000000000'' = None" "demo_id \<noteq> []"
    by code_simp+
  have sorted: "sort (map fst demo_plan) = [''b'', ''in/f'']" by code_simp
  have fs: "files (demo_os fl) = demo_fs" and w: "cs_workspace demo_set = ws_id demo_ws"
    by (simp_all add: demo_os_def demo_set_def)
  have approve: "local_approval (ar_approval (demo_request p)) demo_id (ad_hash (prop_diff p)) = None"
    using ids P(5) by (simp add: local_approval_def demo_request_def)
  obtain ws' res' where locked: "apply_locked 1 (p\<lparr>prop_applying := True\<rparr>) (demo_request p) demo_options demo_ws
      (demo_os fl, None) = (ws', (os', res'), e)" "e = None \<longrightarrow> res' \<noteq> None"
    using p P loop sorted by (cases e) (auto simp: apply_locked_def fs demo_options_def Let_def)
  show ?thesis
    using locked ids approve P w finish_after_claim [OF P(3), of demo_id "[(demo_id, p)]"]
    by (cases e) (auto simp: apply_changes_def apply_claimed_def claim_for_apply_def mutate_def demo_request_def Let_def)
qed

section \<open>Properties\<close>

text \<open>
  C1. A failed apply leaves no trace in contents, under three conditions: the file system is well
  formed and the stored proposals come from \<open>Propose\<close>; the calls of the rollback succeed; and
  the staging names are free, that is, for every file the proposal writes nothing has the name
  of that file with \<open>.oncode-tmp\<close> added, and no planned file is that or below it. Then, whatever
  other calls fail and wherever, every file and link holds what it held before, every workspace
  keeps its revision, and the proposal can be claimed again as before. Directories made on the
  way and permission bits are not part of the claim.
\<close>

theorem apply_failure_changes_nothing:
  assumes "world_ok os reg st" "undo_ok os"
    and staging: "\<And>ws p. map_of reg (ar_workspace req) = Some ws \<Longrightarrow> map_of st (ar_change_set req) = Some p \<Longrightarrow>
      staging_free (files os) ws (prop_planned p)"
    and run: "apply_changes now (Some reg) (Some st) approval req opts os = (rego, sto, os', Inl e)"
  shows "content_at (files os') = content_at (files os)
    \<and> (\<exists>reg' st'. rego = Some reg' \<and> map_of reg' = map_of reg \<and> sto = Some st' \<and> map_of st' = map_of st)"
proof -
  from apply_changes_claimed [OF run] show ?thesis
  proof (elim disjE exE conjE)
    fix reg' st'
    assume r: "rego = Some reg'" "sto = Some st'" "apply_claimed now reg st req opts os = (reg', st', os', Inl e)"
    from apply_claimed_result [OF assms(1,2) staging r(3)] r(1,2) show ?thesis by simp
  qed simp
qed

theorem apply_failure_changes_nothing_witness:
  "\<exists>p rego sto os' e. apply_changes 1 (Some [(ws_id demo_ws, demo_ws)]) (Some [(demo_id, p)])
      (Some local_approval) (demo_request p) demo_options (demo_os (replicate 6 Pass @ [Refuse]))
      = (rego, sto, os', Inl e)
    \<and> content_at (files os') = content_at demo_fs"
proof -
  obtain p where p: "propose demo_fs 1 demo_ws demo_set 100 = Inr p" using demo_propose by blast
  let ?os = "demo_os (replicate 6 Pass @ [Refuse])"
  have "snd (apply_paths demo_ws demo_plan 0 [''b'', ''in/f''] (?os, [], 0)) \<noteq> None" by code_simp
  then obtain os' e where "apply_paths demo_ws demo_plan 0 [''b'', ''in/f''] (?os, [], 0) = (os', Some e)"
    by (metis not_None_eq prod.collapse)
  from demo_apply [OF p this] obtain rego sto where
    "apply_changes 1 (Some [(ws_id demo_ws, demo_ws)]) (Some [(demo_id, p)]) (Some local_approval)
      (demo_request p) demo_options ?os = (rego, sto, os', Inl e)" by auto
  then have run: "apply_changes 1 (Some [(ws_id demo_ws, demo_ws)]) (Some [(demo_id, p)]) (Some local_approval)
      (demo_request p) demo_options ?os = (rego, sto, os', Inl e)" .
  have "files ?os = demo_fs" by (simp add: demo_os_def)
  with apply_failure_changes_nothing [OF demo_world(1,2) [OF p] demo_world(3) [OF p] run]
  have "content_at (files os') = content_at demo_fs" by simp
  with run show ?thesis by blast
qed

text \<open>
  C2. A successful apply was authorised and checked: the validator accepted the request, the
  approved hash is the hash of the diff stored with the proposal, the proposal was neither
  applied nor being applied, and recomputing the diff on the files as they are gives that
  same hash. The revision grows by one and the proposal is marked applied.
\<close>

theorem apply_success_authorised:
  assumes "apply_changes now (Some reg) (Some st) (Some approve) req opts os = (rego, sto, os', Inr res)"
  shows "approve (ar_approval req) (ar_change_set req) (ar_diff_hash req) = None
    \<and> (\<exists>ws p fresh reg' st'. map_of reg (ar_workspace req) = Some ws \<and> map_of st (ar_change_set req) = Some p
      \<and> \<not> prop_applied p \<and> \<not> prop_applying p \<and> ar_diff_hash req = ad_hash (prop_diff p)
      \<and> propose (files os) now ws (prop_change_set p) (opt_max_bytes opts) = Inr fresh
      \<and> ad_hash (prop_diff fresh) = ad_hash (prop_diff p)
      \<and> rego = Some reg' \<and> sto = Some st' \<and> applied st' (ar_change_set req)
      \<and> map_of reg' = (map_of reg)(ar_workspace req \<mapsto> ws\<lparr>ws_revision := int64_wrap (ws_revision ws + 1)\<rparr>))"
proof -
  obtain reg' st' where c: "rego = Some reg'" "sto = Some st'"
    "approve (ar_approval req) (ar_change_set req) (ar_diff_hash req) = None"
    "apply_claimed now reg st req opts os = (reg', st', os', Inr res)"
    using apply_changes_claimed [OF assms] by auto
  from c(4) show ?thesis
  proof (cases rule: apply_claimed_cases)
    case (3 ws p ws' r0)
    with apply_locked_cases [OF 3(7)] c(1-3) show ?thesis by (auto simp: applied_def)
  qed simp_all
qed

lemma demo_success:
  assumes "propose demo_fs 1 demo_ws demo_set 100 = Inr p"
  shows "\<exists>rego sto os' res. apply_changes 1 (Some [(ws_id demo_ws, demo_ws)]) (Some [(demo_id, p)])
    (Some local_approval) (demo_request p) demo_options (demo_os []) = (rego, sto, os', Inr res)"
proof -
  have "snd (apply_paths demo_ws demo_plan 0 [''b'', ''in/f''] (demo_os [], [], 0)) = None" by code_simp
  then obtain os' where "apply_paths demo_ws demo_plan 0 [''b'', ''in/f''] (demo_os [], [], 0) = (os', None)"
    by (metis prod.collapse)
  from demo_apply [OF assms this] show ?thesis by auto
qed

theorem apply_success_authorised_witness:
  "\<exists>p rego sto os' res reg'. apply_changes 1 (Some [(ws_id demo_ws, demo_ws)]) (Some [(demo_id, p)])
      (Some local_approval) (demo_request p) demo_options (demo_os []) = (rego, sto, os', Inr res)
    \<and> rego = Some reg' \<and> map_option ws_revision (map_of reg' (ws_id demo_ws)) = Some 1"
proof -
  obtain p where p: "propose demo_fs 1 demo_ws demo_set 100 = Inr p" using demo_propose by blast
  obtain rego sto os' res where run: "apply_changes 1 (Some [(ws_id demo_ws, demo_ws)]) (Some [(demo_id, p)])
    (Some local_approval) (demo_request p) demo_options (demo_os []) = (rego, sto, os', Inr res)"
    using demo_success [OF p] by blast
  have rev: "int64_wrap (ws_revision demo_ws + 1) = 1" by code_simp
  have wid: "ar_workspace (demo_request p) = ws_id demo_ws" by (simp add: demo_request_def)
  obtain ws reg' where "rego = Some reg'" "map_of [(ws_id demo_ws, demo_ws)] (ws_id demo_ws) = Some ws"
    "map_of reg' = (map_of [(ws_id demo_ws, demo_ws)])
      (ws_id demo_ws \<mapsto> ws\<lparr>ws_revision := int64_wrap (ws_revision ws + 1)\<rparr>)"
    using apply_success_authorised [OF run] unfolding wid by metis
  then have "rego = Some reg' \<and> map_option ws_revision (map_of reg' (ws_id demo_ws)) = Some 1"
    using rev by auto
  with run show ?thesis by blast
qed

text \<open>
  C3. A successful apply writes the plan and nothing else, under the conditions of C1 (a well
  formed file system and proposals from \<open>Propose\<close>, a working rollback, and no file at or below
  the staging name of a file the proposal writes): a planned file that no other planned path
  resolves to holds the planned content, or is gone when its deletion was planned, and every
  file or link that no planned path resolves to holds what it held before. Planned paths that
  several names of the plan resolve to are outside the first part.
\<close>

theorem apply_success_writes_plan:
  assumes "world_ok os reg st" "undo_ok os"
    and run: "apply_changes now (Some reg) (Some st) approval req opts os = (rego, sto, os', Inr res)"
    and named: "map_of reg (ar_workspace req) = Some ws" "map_of st (ar_change_set req) = Some p"
    and staging: "staging_free (files os) ws (prop_planned p)"
  shows "(\<forall>k pf q. map_of (prop_planned p) k = Some pf \<longrightarrow> resolve_path (files os) ws k = Inr q \<longrightarrow>
        (\<forall>k'. map_of (prop_planned p) k' \<noteq> None \<longrightarrow> resolve_path (files os) ws k' = Inr q \<longrightarrow> k' = k) \<longrightarrow>
        content_at (files os') q = (if plan_delete pf then None else Some (Inl (plan_content pf))))
    \<and> (\<forall>q. (\<forall>k. map_of (prop_planned p) k \<noteq> None \<longrightarrow> resolve_path (files os) ws k \<noteq> Inr q) \<longrightarrow>
        content_at (files os') q = content_at (files os) q)"
proof -
  let ?ks = "sort (map fst (prop_planned p))"
  obtain reg' st' where "apply_claimed now reg st req opts os = (reg', st', os', Inr res)"
    using apply_changes_claimed [OF run] by auto
  from apply_claimed_result [OF assms(1,2) _ this] named staging
  have eff: "content_at (files os') = plan_effect (files os) ws (prop_planned p) ?ks (content_at (files os))"
    by auto
  have ks: "k \<in> set ?ks \<longleftrightarrow> map_of (prop_planned p) k \<noteq> None" for k
    by (auto simp: map_of_None_iff)
  show ?thesis
  proof (intro conjI allI impI)
    fix k pf q
    assume k: "map_of (prop_planned p) k = Some pf" "resolve_path (files os) ws k = Inr q"
      and only: "\<forall>k'. map_of (prop_planned p) k' \<noteq> None \<longrightarrow> resolve_path (files os) ws k' = Inr q \<longrightarrow> k' = k"
    have "plan_effect (files os) ws (prop_planned p) ?ks (content_at (files os)) q = planned_content pf"
      by (rule plan_effect_at [OF _ k(2,1)]) (use ks k only in auto)
    with eff show "content_at (files os') q = (if plan_delete pf then None else Some (Inl (plan_content pf)))"
      by (simp add: planned_content_def)
  next
    fix q
    assume "\<forall>k. map_of (prop_planned p) k \<noteq> None \<longrightarrow> resolve_path (files os) ws k \<noteq> Inr q"
    then show "content_at (files os') q = content_at (files os) q"
      unfolding eff using ks by (intro plan_effect_frame) blast
  qed
qed

theorem apply_success_writes_plan_witness:
  "\<exists>p rego sto os' res. apply_changes 1 (Some [(ws_id demo_ws, demo_ws)]) (Some [(demo_id, p)])
      (Some local_approval) (demo_request p) demo_options (demo_os []) = (rego, sto, os', Inr res)
    \<and> content_at (files os') [''w'', ''a'', ''f''] = Some (Inl ''ho'')"
proof -
  obtain p where p: "propose demo_fs 1 demo_ws demo_set 100 = Inr p" using demo_propose by blast
  obtain rego sto os' res where run: "apply_changes 1 (Some [(ws_id demo_ws, demo_ws)]) (Some [(demo_id, p)])
    (Some local_approval) (demo_request p) demo_options (demo_os []) = (rego, sto, os', Inr res)"
    using demo_success [OF p] by blast
  have req: "map_of [(ws_id demo_ws, demo_ws)] (ar_workspace (demo_request p)) = Some demo_ws"
    "map_of [(demo_id, p)] (ar_change_set (demo_request p)) = Some p"
    by (simp_all add: demo_request_def)
  note plan = demo_planned(1) [OF p]
  have q: "resolve_path demo_fs demo_ws ''in/f'' = Inr [''w'', ''a'', ''f'']" by code_simp
  have only: "k' = ''in/f''"
    if "map_of demo_plan k' \<noteq> None" "resolve_path demo_fs demo_ws k' = Inr [''w'', ''a'', ''f'']" for k'
    using that demo_create by (auto simp: demo_plan_def split: if_splits)
  have pf: "map_of demo_plan ''in/f'' = Some (Planned False ''ho'')" by (simp add: demo_plan_def)
  have fs: "files (demo_os []) = demo_fs" by (simp add: demo_os_def)
  have "content_at (files os') [''w'', ''a'', ''f''] = Some (Inl ''ho'')"
    using conjunct1 [OF apply_success_writes_plan [OF demo_world(1,2) [OF p] run req demo_world(3) [OF p req]]]
      q only pf
    unfolding plan fs by fastforce
  with run show ?thesis by blast
qed

section \<open>What a successful write loses\<close>

text \<open>
  Writing over an executable file gives it the permissions of a new file. A file that has the
  staging name is gone afterwards. A link that has the staging name is followed: what it points
  at, here a file outside the workspace \<open>/w\<close>, gets the new content, and the link itself takes the
  place of the file that was to be written. So the conditions of C1 and C3 on staging names are
  needed.
\<close>

definition script_os :: "node \<Rightarrow> os" where
  "script_os nd =
     \<lparr>files = [([''w''], Dir), ([''w'', ''m''], File ''a'' 0x1ED), ([''w'', ''m.oncode-tmp''], nd),
               ([''etc''], Dir), ([''etc'', ''x''], File ''own'' 0x1A4)],
      umask = 0x12, faults = [], undo_faults = []\<rparr>"

definition script_after :: "node \<Rightarrow> path \<Rightarrow> node option" where
  "script_after nd p =
     nodes (fst (write_planned [] (Planned False ''b'') [''w'', ''m''] True (script_os nd))) p"

lemma write_loses_mode:
  "script_after (File ''mine'' 0x1A4) [''w'', ''m''] = Some (File ''b'' 0x1A4)"
  by code_simp

lemma write_takes_staging_name:
  "script_after (File ''mine'' 0x1A4) [''w'', ''m.oncode-tmp''] = None"
  by code_simp

lemma write_follows_staging_link:
  "script_after (Link True [''etc'', ''x'']) [''etc'', ''x''] = Some (File ''b'' 0x1A4)"
  "script_after (Link True [''etc'', ''x'']) [''w'', ''m''] = Some (Link True [''etc'', ''x''])"
  by code_simp+

end
