(* ===== verification/Chat_Context.thy ===== *)
theory Chat_Context
  imports Protocol_Messages
begin

text \<open>
  \<open>local-agent/internal/chatctx/validate.go\<close>: the check that a chat message from the IDE
  carries no source text. A Go map is visited in no fixed order; the model visits the fields
  in list order, so of several offending fields it may name another one than the code.
\<close>

definition forbidden_keys :: "string list" where
  "forbidden_keys =
     [''content'', ''source'', ''selected_text'', ''selection_text'', ''file_content'', ''source_text'']"

fun reject_forbidden :: "json \<Rightarrow> string option"
  and reject_fields :: "jmap \<Rightarrow> string option"
  and reject_items :: "json list \<Rightarrow> string option" where
  "reject_forbidden (JObj m) = reject_fields m"
| "reject_forbidden (JArr xs) = reject_items xs"
| "reject_forbidden _ = None"
| "reject_fields [] = None"
| "reject_fields ((k, child) # m) =
     (let key = to_lower k in
      if key \<in> set forbidden_keys \<and> key \<noteq> ''message''
      then Some (''source body field '' @ go_quote k @ '' is not allowed'')
      else case reject_forbidden child of Some e \<Rightarrow> Some e | None \<Rightarrow> reject_fields m)"
| "reject_items [] = None"
| "reject_items (child # xs) =
     (case reject_forbidden child of Some e \<Rightarrow> Some e | None \<Rightarrow> reject_items xs)"

definition validate_submit :: "jmap option \<Rightarrow> string option" where
  "validate_submit data0 =
     (case data0 of
        None \<Rightarrow> Some ''chat.submit data is required''
      | Some data \<Rightarrow>
          if trim_space (get_str data ''message'') = [] then Some ''message is required''
          else case reject_forbidden (JObj data) of
            Some e \<Rightarrow> Some e
          | None \<Rightarrow>
              (case get_any data ''ide_context'' of
                 JObj ctx \<Rightarrow>
                   if contains (get_str ctx ''current_file'') [newline]
                   then Some ''current_file must be a path, not file contents'' else None
               | _ \<Rightarrow> None))"

text \<open>\<open>ParseData\<close> returns the decoded map together with the error of the validation.\<close>

definition parse_data :: "string \<Rightarrow> jmap option \<times> string option" where
  "parse_data raw =
     (if raw = [] then (None, Some ''empty chat data'')
      else case json_parse raw of
        None \<Rightarrow> (None, Some ''invalid JSON'')
      | Some (JObj m) \<Rightarrow> (let d = Some (to_map m) in (d, validate_submit d))
      | Some JNull \<Rightarrow> (None, validate_submit None)
      | Some _ \<Rightarrow> (None, Some ''json: cannot unmarshal''))"

section \<open>Keys at any depth\<close>

fun all_keys :: "json \<Rightarrow> string list"
  and field_keys :: "jmap \<Rightarrow> string list"
  and item_keys :: "json list \<Rightarrow> string list" where
  "all_keys (JObj m) = field_keys m"
| "all_keys (JArr xs) = item_keys xs"
| "all_keys _ = []"
| "field_keys [] = []"
| "field_keys ((k, child) # m) = k # all_keys child @ field_keys m"
| "item_keys [] = []"
| "item_keys (child # xs) = all_keys child @ item_keys xs"

lemma reject_iff:
  "reject_forbidden j = None \<longleftrightarrow> (\<forall>k\<in>set (all_keys j). to_lower k \<notin> set forbidden_keys)"
  "reject_fields m = None \<longleftrightarrow> (\<forall>k\<in>set (field_keys m). to_lower k \<notin> set forbidden_keys)"
  "reject_items xs = None \<longleftrightarrow> (\<forall>k\<in>set (item_keys xs). to_lower k \<notin> set forbidden_keys)"
proof (induction j and m and xs rule: reject_forbidden_reject_fields_reject_items.induct)
  case (5 k child m)
  have "''message'' \<notin> set forbidden_keys" by (simp add: forbidden_keys_def)
  with 5 show ?case by (auto simp: Let_def split: option.splits)
qed (auto split: option.splits)

section \<open>Properties\<close>

text \<open>
  C29. A chat message passes \<open>ValidateSubmit\<close> exactly when it has a text that is not blank, no
  key of any object in it, at any depth and in any letter case, names source text, and the
  current file given as context is a single line.
\<close>

theorem validate_submit_iff:
  "validate_submit d = None \<longleftrightarrow>
     (\<exists>data. d = Some data \<and> trim_space (get_str data ''message'') \<noteq> []
       \<and> (\<forall>k\<in>set (field_keys data). to_lower k \<notin> set forbidden_keys)
       \<and> (\<forall>ctx. get_any data ''ide_context'' = JObj ctx \<longrightarrow> newline \<notin> set (get_str ctx ''current_file'')))"
proof -
  have nl: "contains s [newline] \<longleftrightarrow> newline \<in> set s" for s
    by (simp add: contains_iff sublist_code) (auto simp: sublist_def in_set_conv_decomp)
  show ?thesis
  proof (cases d)
    case (Some data)
    show ?thesis
    proof (cases "reject_fields data")
      case None
      with reject_iff(2) [of data] show ?thesis
        by (cases "get_any data ''ide_context''") (auto simp: Some validate_submit_def nl)
    next
      case (Some e)
      with reject_iff(2) [of data] show ?thesis by (auto simp: \<open>d = Some data\<close> validate_submit_def)
    qed
  qed (simp add: validate_submit_def)
qed

theorem validate_submit_iff_witness:
  "validate_submit (Some [(''message'', JStr ''fix it''),
     (''ide_context'', JObj [(''current_file'', JStr ''a.go'')])]) = None"
proof -
  let ?d = "[(''message'', JStr ''fix it''), (''ide_context'', JObj [(''current_file'', JStr ''a.go'')])]"
  have a: "trim_space (get_str ?d ''message'') \<noteq> []"
    and b: "\<forall>k\<in>set (field_keys ?d). to_lower k \<notin> set forbidden_keys"
    and c: "get_any ?d ''ide_context'' = JObj [(''current_file'', JStr ''a.go'')]"
    and d: "newline \<notin> set (get_str [(''current_file'', JStr ''a.go'')] ''current_file'')"
    by code_simp+
  show ?thesis
  proof (rule iffD2 [OF validate_submit_iff], intro exI conjI allI impI)
    show "trim_space (get_str ?d ''message'') \<noteq> []" by (rule a)
    show "\<forall>k\<in>set (field_keys ?d). to_lower k \<notin> set forbidden_keys" by (rule b)
    fix ctx assume "get_any ?d ''ide_context'' = JObj ctx"
    with c d show "newline \<notin> set (get_str ctx ''current_file'')" by simp
  qed (rule refl)
qed

end
