(* ===== verification/Ide_Hub.thy ===== *)
theory Ide_Hub
  imports Apply_Properties Chat_Context Protocol_Codec
begin

text \<open>
  \<open>local-agent/internal/idesession/hub.go\<close> and \<open>apply.go\<close>: the hub between the IDE and the
  server. Its state holds the shared registry and proposal store and the operating system; what
  it sends to the server and pushes to the IDE is recorded, latest last. The stream to the
  server is a function answering each event with an error or nil. An entry point that panics
  (an assignment into a nil map, \<open>MustNew\<close> without random bytes) has the value \<open>None\<close>.
  \<open>json.Marshal\<close> does not fail on the values at hand, so its error branches are left out;
  \<open>liveStream\<close> (a typed nil pointer) has no counterpart.
\<close>

section \<open>State\<close>

record ide_message =
  im_type :: string
  im_id :: string
  im_data :: "jmap option"

datatype hub_output = PushIde ide_message | SendServer string json

record pending_apply =
  pa_change_set :: string
  pa_workspace :: string
  pa_approval :: string
  pa_hash :: string
  pa_work_item :: string
  pa_unchanged :: bool

definition no_pending :: pending_apply where
  "no_pending = \<lparr>pa_change_set = [], pa_workspace = [], pa_approval = [], pa_hash = [],
                 pa_work_item = [], pa_unchanged = False\<rparr>"

record hub =
  hub_stream :: "(string \<Rightarrow> json \<Rightarrow> string option) option"
  hub_push :: bool
  hub_workspace :: string
  hub_old :: "(string \<Rightarrow> string) option"
  hub_registry :: "registry option"
  hub_proposals :: "proposal_store option"
  hub_max_bytes :: int
  hub_last_work_item :: string
  hub_last_bind :: jmap
  hub_pending :: pending_apply
  hub_os :: os
  hub_out :: "hub_output list"

definition new_hub ::
  "(string \<Rightarrow> json \<Rightarrow> string option) option \<Rightarrow> bool \<Rightarrow> string \<Rightarrow> (string \<Rightarrow> string) option
    \<Rightarrow> registry option \<Rightarrow> proposal_store option \<Rightarrow> int \<Rightarrow> os \<Rightarrow> hub" where
  "new_hub stream push ws old reg props max_bytes os =
     \<lparr>hub_stream = stream, hub_push = push, hub_workspace = (if ws = [] then ''ws-local'' else ws),
      hub_old = old, hub_registry = reg, hub_proposals = props,
      hub_max_bytes = (if max_bytes < 0 then 0 else max_bytes), hub_last_work_item = [],
      hub_last_bind = [], hub_pending = no_pending, hub_os = os, hub_out = []\<rparr>"

section \<open>Helpers\<close>

fun text_of :: "json \<Rightarrow> string" where
  "text_of (JStr s) = s"
| "text_of _ = []"

definition clone_map :: "jmap option \<Rightarrow> jmap" where
  "clone_map m = (case m of None \<Rightarrow> [] | Some d \<Rightarrow> d)"

definition error_msg :: "string \<Rightarrow> string \<Rightarrow> string \<Rightarrow> ide_message" where
  "error_msg ident code message =
     \<lparr>im_type = ''error'', im_id = ident,
      im_data = Some [(''code'', JStr code), (''message'', JStr message)]\<rparr>"

definition push_ide :: "ide_message \<Rightarrow> hub \<Rightarrow> hub" where
  "push_ide m h = h\<lparr>hub_out := hub_out h @ [PushIde m]\<rparr>"

definition push_error :: "string \<Rightarrow> string \<Rightarrow> hub \<Rightarrow> hub" where
  "push_error code message h =
     push_ide \<lparr>im_type = ''error'', im_id = [],
               im_data = Some [(''code'', JStr code), (''message'', JStr message)]\<rparr> h"

text \<open>\<open>SendEvent\<close> on a connected stream.\<close>

definition send_event :: "(string \<Rightarrow> json \<Rightarrow> string option) \<Rightarrow> string \<Rightarrow> json \<Rightarrow> hub \<Rightarrow> hub \<times> string option" where
  "send_event stream ev j h = (h\<lparr>hub_out := hub_out h @ [SendServer ev j]\<rparr>, stream ev j)"

text \<open>A send whose error is answered to the IDE, otherwise \<open>reply\<close>.\<close>

definition relay ::
  "string \<Rightarrow> json \<Rightarrow> ide_message \<Rightarrow> ide_message option \<Rightarrow> (string \<Rightarrow> json \<Rightarrow> string option) \<Rightarrow> hub
    \<Rightarrow> hub \<times> ide_message option" where
  "relay ev j msg reply stream h =
     (case send_event stream ev j h of
        (h1, Some e) \<Rightarrow> (h1, Some (error_msg (im_id msg) ''UNAVAILABLE'' e))
      | (h1, None) \<Rightarrow> (h1, reply))"

definition not_connected :: "ide_message \<Rightarrow> ide_message option" where
  "not_connected msg = Some (error_msg (im_id msg) ''UNAVAILABLE'' ''central server is not connected'')"

text \<open>A map holds the key (a null value counts).\<close>

definition has_key :: "jmap \<Rightarrow> string \<Rightarrow> bool" where
  "has_key m k \<longleftrightarrow> map_of m k \<noteq> None"

definition default_workspace :: "hub \<Rightarrow> jmap \<Rightarrow> jmap" where
  "default_workspace h data =
     (if has_key data ''workspace_id'' then data
      else put ''workspace_id'' (JStr (hub_workspace h)) data)"

section \<open>Frames from the IDE\<close>

definition submit_chat :: "hub \<Rightarrow> ide_message \<Rightarrow> hub \<times> ide_message option" where
  "submit_chat h msg =
     (case validate_submit (im_data msg) of
        Some e \<Rightarrow> (h, Some (error_msg (im_id msg) ''INVALID_REQUEST'' e))
      | None \<Rightarrow>
          (case hub_stream h of
             None \<Rightarrow> (h, not_connected msg)
           | Some stream \<Rightarrow>
               let data = default_workspace h (clone_map (im_data msg)) in
               relay event_chat_submit (JObj data) msg
                 (Some \<lparr>im_type = ''chat.accepted'', im_id = im_id msg,
                        im_data = Some [(''ok'', JBool True)]\<rparr>) stream h))"

definition forward_answer :: "hub \<Rightarrow> ide_message \<Rightarrow> hub \<times> ide_message option" where
  "forward_answer h msg =
     (case hub_stream h of
        None \<Rightarrow> (h, not_connected msg)
      | Some stream \<Rightarrow>
          let raw = (case im_data msg of None \<Rightarrow> JNull | Some d \<Rightarrow> JObj d) in
          relay event_question_answer raw msg None stream h)"

definition forward_decide :: "hub \<Rightarrow> ide_message \<Rightarrow> hub \<times> ide_message option" where
  "forward_decide h msg =
     (case hub_stream h of
        None \<Rightarrow> (h, not_connected msg)
      | Some stream \<Rightarrow>
          let data = fold (\<lambda>(k, v) d. if has_key d k then d else put k v d) (hub_last_bind h)
                       (clone_map (im_data msg));
              data = default_workspace h data
          in relay event_approval_decide (JObj data) msg None stream h)"

definition restore_session :: "hub \<Rightarrow> ide_message \<Rightarrow> hub \<times> ide_message option" where
  "restore_session h msg =
     (case hub_stream h of
        None \<Rightarrow> (h, not_connected msg)
      | Some stream \<Rightarrow>
          let data = clone_map (im_data msg);
              data = (if text_of (get_any data ''work_item_id'') = [] \<and> hub_last_work_item h \<noteq> []
                      then put ''work_item_id'' (JStr (hub_last_work_item h)) data else data)
          in if text_of (get_any data ''work_item_id'') = [] then (h, None)
             else relay event_session_restore (JObj data) msg None stream h)"

definition handle_frame :: "hub \<Rightarrow> ide_message \<Rightarrow> hub \<times> ide_message option" where
  "handle_frame h msg =
     (if im_type msg = ''chat.submit'' then submit_chat h msg
      else if im_type msg = ''question.answer'' then forward_answer h msg
      else if im_type msg = ''approval.decide'' then forward_decide h msg
      else if im_type msg = ''session.restore'' then restore_session h msg
      else (h, Some (error_msg (im_id msg) ''UNSUPPORTED'' (''unsupported type '' @ im_type msg))))"

section \<open>Proposals from the server\<close>

definition read_old :: "hub \<Rightarrow> string \<Rightarrow> string" where
  "read_old h p =
     (case hub_old h of
        Some f \<Rightarrow> f p
      | None \<Rightarrow>
          (case hub_registry h of
             None \<Rightarrow> []
           | Some reg \<Rightarrow>
               if hub_workspace h = [] then []
               else (case get_workspace reg (hub_workspace h) of
                  Inl _ \<Rightarrow> []
                | Inr ws \<Rightarrow>
                    (case read_text_file (files (hub_os h)) ws p (hub_max_bytes h) of
                       Inl _ \<Rightarrow> []
                     | Inr res \<Rightarrow> read_text res))))"

fun change_set_from_proposed ::
  "fs \<Rightarrow> workspace \<Rightarrow> int \<Rightarrow> change list \<Rightarrow> go_error + file_change list" where
  "change_set_from_proposed fs ws max_bytes [] = Inr []"
| "change_set_from_proposed fs ws max_bytes (ch # chs) =
     (let oper = to_upper (change_operation ch);
          oper = (if oper = [] then op_modify else oper);
          fc = \<lparr>fc_path = trim_prefix (change_path ch) ''/'', fc_operation = oper, fc_base_hash = [],
                fc_content = change_content ch, fc_target = trim_prefix (change_target ch) ''/''\<rparr>;
          withHash =
            (if oper = op_modify \<or> oper = op_delete \<or> oper = op_rename then
               (case read_text_file fs ws (fc_path fc) max_bytes of
                  Inl e \<Rightarrow> Inl e
                | Inr res \<Rightarrow> Inr (fc\<lparr>fc_base_hash := read_hash res\<rparr>))
             else Inr fc)
      in case withHash of
           Inl e \<Rightarrow> Inl e
         | Inr fc \<Rightarrow>
             (case change_set_from_proposed fs ws max_bytes chs of
                Inl e \<Rightarrow> Inl e
              | Inr fcs \<Rightarrow> Inr (fc # fcs)))"

definition prepare_stored_proposal ::
  "u8 list option \<Rightarrow> int \<Rightarrow> string \<Rightarrow> change list \<Rightarrow> hub \<Rightarrow> (hub \<times> (go_error + diff_result)) option" where
  "prepare_stored_proposal rnd now cs_id0 changes h =
     (case (hub_registry h, hub_proposals h) of
        (Some reg, Some st) \<Rightarrow>
          (case get_workspace reg (hub_workspace h) of
             Inl e \<Rightarrow> Some (h, Inl e)
           | Inr ws \<Rightarrow>
               (case (if validate_id KChangeSet cs_id0 \<noteq> None then new_id KChangeSet rnd now else Inr cs_id0) of
                  Inl _ \<Rightarrow> None
                | Inr csid \<Rightarrow>
                    let fs = files (hub_os h) in
                    (case change_set_from_proposed fs ws (hub_max_bytes h) changes of
                       Inl e \<Rightarrow> Some (h, Inl e)
                     | Inr fcs \<Rightarrow>
                         (case propose fs now ws
                                 \<lparr>cs_id = csid, cs_workspace = ws_id ws, cs_base_revision = [], cs_changes = fcs\<rparr>
                                 (hub_max_bytes h) of
                            Inl e \<Rightarrow> Some (h, Inl e)
                          | Inr prop \<Rightarrow>
                              Some (h\<lparr>hub_proposals := Some (put_proposal prop st)\<rparr>,
                                Inr \<lparr>result_change_set = cs_id (prop_change_set prop),
                                     result_workspace = cs_workspace (prop_change_set prop),
                                     result_diff = ad_diff (prop_diff prop),
                                     result_hash = ad_hash (prop_diff prop)\<rparr>)))))
      | _ \<Rightarrow> Some (h, Inl (must_err InternalError ''workspace registry is required'')))"

definition diff_has_content_change :: "string \<Rightarrow> bool" where
  "diff_has_content_change diff_text =
     list_ex (\<lambda>line. \<not> (has_prefix line ''+++'' \<or> has_prefix line ''---'')
                     \<and> (has_prefix line ''+'' \<or> has_prefix line ''-''))
       (split_on newline diff_text)"

definition remember_bind :: "jmap \<Rightarrow> bool \<Rightarrow> hub \<Rightarrow> hub" where
  "remember_bind data with_diff h =
     (let bind = map (\<lambda>k. (k, get_any data k))
                   [''approval_id'', ''work_item_id'', ''workspace_id'', ''resource_id'', ''design_identity''];
          bind = (if with_diff then put ''diff_hash'' (get_any data ''diff_hash'') bind else bind);
          wi = text_of (get_any data ''work_item_id'')
      in h\<lparr>hub_last_bind := bind,
           hub_last_work_item := (if wi \<noteq> [] then wi else hub_last_work_item h)\<rparr>)"

definition remember_apply ::
  "string \<Rightarrow> string \<Rightarrow> string \<Rightarrow> string \<Rightarrow> string \<Rightarrow> bool \<Rightarrow> hub \<Rightarrow> hub" where
  "remember_apply csid wsid approval work_item hash unchanged h =
     (if csid = [] \<or> wsid = [] \<or> approval = [] \<or> hash = [] then h
      else h\<lparr>hub_pending := \<lparr>pa_change_set = csid, pa_workspace = wsid, pa_approval = approval,
                            pa_hash = hash, pa_work_item = work_item, pa_unchanged = unchanged\<rparr>\<rparr>)"

text \<open>The Korean note shown when the proposal equals the files, as UTF-8 bytes.\<close>

definition unchanged_note :: string where
  "unchanged_note = map char_of
     [0xEC, 0xA0, 0x9C, 0xEC, 0x95, 0x88, 0x20, 0xEB, 0x82, 0xB4, 0xEC, 0x9A, 0xA9, 0xEC, 0x9D, 0xB4,
      0x20, 0xED, 0x98, 0x84, 0xEC, 0x9E, 0xAC, 0x20, 0xED, 0x8C, 0x8C, 0xEC, 0x9D, 0xBC, 0xEA, 0xB3,
      0xBC, 0x20, 0xEA, 0xB0, 0x99, 0xEC, 0x8A, 0xB5, 0xEB, 0x8B, 0x88, 0xEB, 0x8B, 0xA4, 0x2E, 0x20,
      0xEC, 0x8A, 0xB9, 0xEC, 0x9D, 0xB8, 0xED, 0x95, 0xB4, 0xEB, 0x8F, 0x84, 0x20, 0xEB, 0x94, 0x94,
      0xEC, 0x8A, 0xA4, 0xED, 0x81, 0xAC, 0xEB, 0x8A, 0x94, 0x20, 0xEB, 0xB0, 0x94, 0xEB, 0x80, 0x8C,
      0xEC, 0xA7, 0x80, 0x20, 0xEC, 0x95, 0x8A, 0xEC, 0x8A, 0xB5, 0xEB, 0x8B, 0x88, 0xEB, 0x8B, 0xA4,
      0x2E :: nat]"


section \<open>Applying what was approved\<close>

definition take_pending :: "hub \<Rightarrow> hub \<times> pending_apply option" where
  "take_pending h =
     (if pa_change_set (hub_pending h) = [] then (h, None)
      else (h\<lparr>hub_pending := no_pending\<rparr>, Some (hub_pending h)))"

definition clear_pending :: "hub \<Rightarrow> hub" where
  "clear_pending h = h\<lparr>hub_pending := no_pending\<rparr>"

definition apply_error_code :: "go_error \<Rightarrow> string" where
  "apply_error_code e =
     (case e of
        ProtoError pe \<Rightarrow> if code_text (err_code pe) \<noteq> [] then code_text (err_code pe) else code_text ApplyFailed
      | PlainError _ \<Rightarrow> code_text ApplyFailed)"

definition notify_apply_completed :: "string \<Rightarrow> string \<Rightarrow> string \<Rightarrow> bool \<Rightarrow> hub \<Rightarrow> hub" where
  "notify_apply_completed work_item wsid csid unchanged h =
     (case hub_stream h of
        None \<Rightarrow> h
      | Some stream \<Rightarrow>
          if work_item = [] \<or> wsid = [] then h
          else fst (send_event stream event_apply_completed
                 (JObj [(''work_item_id'', JStr work_item), (''workspace_id'', JStr wsid),
                        (''change_set_id'', JStr csid), (''unchanged'', JBool unchanged)]) h))"

definition push_apply_result :: "jmap \<Rightarrow> hub \<Rightarrow> hub" where
  "push_apply_result data h = push_ide \<lparr>im_type = ''apply.result'', im_id = [], im_data = Some data\<rparr> h"

text \<open>The request and the validator made from a pending apply, and the call of \<open>ApplyChanges\<close>.\<close>

definition pending_request :: "pending_apply \<Rightarrow> apply_request" where
  "pending_request p =
     \<lparr>ar_change_set = pa_change_set p, ar_workspace = pa_workspace p,
      ar_approval = pa_approval p, ar_diff_hash = pa_hash p\<rparr>"

definition pending_validator :: "pending_apply \<Rightarrow> validator" where
  "pending_validator p =
     bound_validate \<lparr>bound_id = pa_approval p, bound_change_set = pa_change_set p, bound_hash = pa_hash p\<rparr>"

definition run_pending :: "int \<Rightarrow> pending_apply \<Rightarrow> hub \<Rightarrow> hub \<times> (go_error + apply_result)" where
  "run_pending now p h =
     (case apply_changes now (hub_registry h) (hub_proposals h) (Some (pending_validator p))
             (pending_request p) \<lparr>opt_max_bytes = hub_max_bytes h, opt_fail_after = 0\<rparr> (hub_os h) of
        (reg, st, os, r) \<Rightarrow> (h\<lparr>hub_registry := reg, hub_proposals := st, hub_os := os\<rparr>, r))"

definition apply_pending :: "int \<Rightarrow> string \<Rightarrow> pending_apply \<Rightarrow> hub \<Rightarrow> hub" where
  "apply_pending now work_item p h =
     (if pa_unchanged p then
        notify_apply_completed work_item (pa_workspace p) (pa_change_set p) True
          (push_apply_result
             [(''status'', JStr ''SUCCESS''), (''change_set_id'', JStr (pa_change_set p)),
              (''workspace_id'', JStr (pa_workspace p)), (''unchanged'', JBool True),
              (''message'', JStr ''no content change; workspace left as-is'')] h)
      else if hub_registry h = None \<or> hub_proposals h = None then
        push_error ''UNAVAILABLE'' ''workspace is not registered; apply skipped'' h
      else
        (case run_pending now p h of
           (h1, Inl e) \<Rightarrow> push_error (apply_error_code e) (error_text e) h1
         | (h1, Inr res) \<Rightarrow>
             notify_apply_completed work_item (res_workspace res) (res_change_set res) False
               (push_apply_result
                  [(''status'', JStr ''SUCCESS''), (''change_set_id'', JStr (res_change_set res)),
                   (''workspace_id'', JStr (res_workspace res)),
                   (''workspace_revision'', JNum (itoa (res_revision res))),
                   (''message'', JStr ''approved changes applied'')] h1)))"

definition apply_if_authorized :: "int \<Rightarrow> jmap \<Rightarrow> hub \<Rightarrow> hub" where
  "apply_if_authorized now data h =
     (let stage = text_of (get_any data ''stage'') in
      if stage = ''REJECTED'' then clear_pending h
      else if stage \<noteq> ''APPLYING_CHANGE'' then h
      else
        (case take_pending h of
           (h1, None) \<Rightarrow> h1
         | (h1, Some p) \<Rightarrow>
             apply_pending now
               (if pa_work_item p = [] then text_of (get_any data ''work_item_id'') else pa_work_item p) p h1))"

section \<open>Events from the server\<close>

text \<open>The diff of a proposal: stored with the workspace, or computed without one.\<close>

definition review_result ::
  "u8 list option \<Rightarrow> int \<Rightarrow> string \<Rightarrow> string \<Rightarrow> change list \<Rightarrow> hub \<Rightarrow> (hub \<times> (string + diff_result)) option" where
  "review_result rnd now csid wsid changes h =
     (if hub_registry h \<noteq> None \<and> hub_proposals h \<noteq> None then
        (case prepare_stored_proposal rnd now csid changes h of
           None \<Rightarrow> None
         | Some (h1, Inl e) \<Rightarrow> Some (h1, Inl (error_text e))
         | Some (h1, Inr r) \<Rightarrow> Some (h1, Inr r))
      else Some (h, from_proposed csid wsid changes (Some (read_old h))))"

definition review_view :: "jmap option \<Rightarrow> diff_result \<Rightarrow> jmap" where
  "review_view data r =
     (let view = remove_key ''proposed_changes_json'' (clone_map data);
          view = put ''change_set_id'' (JStr (result_change_set r)) view;
          view = put ''actual_diff'' (JStr (result_diff r)) view;
          view = put ''diff_hash'' (JStr (result_hash r)) view;
          view = put ''workspace_id'' (JStr (result_workspace r)) view;
          view = put ''can_apply'' (JBool False) view;
          unchanged = \<not> diff_has_content_change (result_diff r);
          view = put ''unchanged'' (JBool unchanged) view
      in if unchanged then put ''message'' (JStr unchanged_note) view else view)"

text \<open>Sending the approval bind, remembering the apply and pushing the review.\<close>

definition send_bind :: "jmap \<Rightarrow> diff_result \<Rightarrow> hub \<Rightarrow> hub" where
  "send_bind view r h =
     (case hub_stream h of
        None \<Rightarrow> h
      | Some stream \<Rightarrow>
          fst (send_event stream event_approval_bind
            (JObj (map (\<lambda>k. (k, get_any view k)) [''approval_id'', ''work_item_id'', ''workspace_id'', ''resource_id'']
                   @ [(''diff_hash'', JStr (result_hash r))])) h))"

definition publish_review :: "jmap option \<Rightarrow> diff_result \<Rightarrow> hub \<Rightarrow> hub" where
  "publish_review data r h =
     (let view = review_view data r;
          h1 = send_bind view r (remember_bind view True h);
          h2 = (if hub_registry h1 \<noteq> None \<and> hub_proposals h1 \<noteq> None
                then remember_apply (result_change_set r) (result_workspace r)
                       (text_of (get_any view ''approval_id'')) (text_of (get_any view ''work_item_id''))
                       (result_hash r) (\<not> diff_has_content_change (result_diff r)) h1
                else h1)
      in push_ide \<lparr>im_type = ''diff.review'', im_id = [], im_data = Some view\<rparr> h2)"

definition push_diff_review :: "u8 list option \<Rightarrow> int \<Rightarrow> jmap option \<Rightarrow> hub \<Rightarrow> hub option" where
  "push_diff_review rnd now data h =
     (let field = (\<lambda>k. text_of (get_any (clone_map data) k)) in
      case parse_proposed_json (field ''proposed_changes_json'') of
        Inl e \<Rightarrow> Some (push_error ''INVALID_REQUEST'' e h)
      | Inr (csid0, changes) \<Rightarrow>
          let csid = (if csid0 = [] then ''CS-unknown'' else csid0);
              wsid = (if field ''workspace_id'' = [] then hub_workspace h else field ''workspace_id'')
          in (case review_result rnd now csid wsid changes h of
                None \<Rightarrow> None
              | Some (h1, Inl e) \<Rightarrow> Some (push_error ''INVALID_REQUEST'' e h1)
              | Some (h1, Inr r) \<Rightarrow> Some (publish_review data r h1)))"

text \<open>
  Decoding the payload, and its data into a map: \<open>null\<close> makes the map nil (\<open>None\<close>), a value
  that is no object leaves it empty.
\<close>

definition decode_event :: "json option \<Rightarrow> (string \<times> json option) option" where
  "decode_event payload =
     (case payload of
        None \<Rightarrow> None
      | Some j \<Rightarrow> map_option (\<lambda>e. (event_name e, event_data e)) (dec_event j))"

definition event_map :: "json option \<Rightarrow> jmap option" where
  "event_map raw =
     (case raw of
        Some (JObj m) \<Rightarrow> Some (to_map m)
      | Some JNull \<Rightarrow> None
      | _ \<Rightarrow> Some [])"

text \<open>An assignment \<open>data[k] = s\<close>; a nil map panics (\<open>None\<close>).\<close>

definition assign_nonempty :: "string \<Rightarrow> string \<Rightarrow> jmap option \<Rightarrow> jmap option option" where
  "assign_nonempty k s data =
     (if s = [] then Some data
      else (case data of None \<Rightarrow> None | Some m \<Rightarrow> Some (Some (put k (JStr s) m))))"

definition event_context :: "envelope \<Rightarrow> jmap option \<Rightarrow> jmap option option" where
  "event_context env data =
     (case assign_nonempty ''work_item_id'' (env_work_item env) data of
        None \<Rightarrow> None
      | Some d \<Rightarrow> assign_nonempty ''workflow_id'' (env_workflow env) d)"

text \<open>After the push of a progress event.\<close>

definition after_progress :: "int \<Rightarrow> jmap option \<Rightarrow> hub \<Rightarrow> hub" where
  "after_progress now data h =
     (let d = clone_map data; h1 = apply_if_authorized now d h in
      if text_of (get_any d ''stage'') = ''COMPLETED''
      then clear_pending (h1\<lparr>hub_last_work_item := [], hub_last_bind := []\<rparr>)
      else h1)"

definition forward_event ::
  "u8 list option \<Rightarrow> int \<Rightarrow> string \<Rightarrow> jmap option \<Rightarrow> hub \<Rightarrow> hub option" where
  "forward_event rnd now ev data h =
     (if ev = event_design_review then
        (case data of
           None \<Rightarrow> None
         | Some m \<Rightarrow>
             Some (push_ide \<lparr>im_type = ev, im_id = [], im_data = Some (put ''can_apply'' (JBool False) m)\<rparr>
                     (remember_bind m False h)))
      else if ev = event_change_proposed then push_diff_review rnd now data h
      else
        let h1 = push_ide \<lparr>im_type = ev, im_id = [], im_data = data\<rparr> h in
        Some (if ev = event_workflow_progress then after_progress now data h1 else h1))"

definition forward_server_event ::
  "u8 list option \<Rightarrow> int \<Rightarrow> envelope option \<Rightarrow> hub \<Rightarrow> hub option" where
  "forward_server_event rnd now enve h =
     (case enve of
        None \<Rightarrow> Some h
      | Some env \<Rightarrow>
          if \<not> hub_push h then Some h
          else
            (case decode_event (env_payload env) of
               None \<Rightarrow> Some h
             | Some (ev, raw) \<Rightarrow>
                 (case event_context env (event_map raw) of
                    None \<Rightarrow> None
                  | Some data \<Rightarrow>
                      forward_event rnd now ev data
                        (if env_work_item env = [] then h
                         else h\<lparr>hub_last_work_item := env_work_item env\<rparr>))))"

text \<open>
  The loop of \<open>Listen\<close> over the events received before the context ends, each with the random
  bytes and the clock of its time.
\<close>

fun listen_events ::
  "(u8 list option \<times> int \<times> envelope option) list \<Rightarrow> hub \<Rightarrow> hub option" where
  "listen_events [] h = Some h"
| "listen_events ((rnd, now, env) # evs) h =
     (case forward_server_event rnd now env h of None \<Rightarrow> None | Some h1 \<Rightarrow> listen_events evs h1)"

definition listen :: "(u8 list option \<times> int \<times> envelope option) list \<Rightarrow> hub \<Rightarrow> hub option" where
  "listen evs h = (if hub_stream h = None then Some h else listen_events evs h)"

end
