(* ===== verification/Go_Net.thy ===== *)
theory Go_Net
  imports Go_Strings
begin

text \<open>
  What the IDE bridge uses of Go's \<open>net\<close> and \<open>net/url\<close>: \<open>net.ParseIP\<close>, \<open>IP.IsLoopback\<close>,
  \<open>url.Parse\<close> (the scheme and the host of its result), \<open>URL.Hostname\<close> and the query values. A parser
  answers \<open>None\<close> for its error. An IP address is the list of its 16 bytes.
\<close>

section \<open>IP addresses\<close>

definition all_digits :: "string \<Rightarrow> bool" where
  "all_digits s = list_all (\<lambda>c. digit_val c \<noteq> None) s"

text \<open>An octet: decimal, without a leading zero, at most 255.\<close>

definition parse_octet :: "string \<Rightarrow> nat option" where
  "parse_octet s =
     (if s = [] \<or> (hd s = CHR ''0'' \<and> s \<noteq> ''0'') then None
      else case digits_val 0 s of
        None \<Rightarrow> None
      | Some n \<Rightarrow> if n > 255 then None else Some n)"

definition parse_ipv4 :: "string \<Rightarrow> nat list option" where
  "parse_ipv4 s =
     (case map parse_octet (split_on (CHR ''.'') s) of
        [Some a, Some b, Some c, Some d] \<Rightarrow> Some [a, b, c, d]
      | _ \<Rightarrow> None)"

definition is_hex :: "char \<Rightarrow> bool" where
  "is_hex c \<longleftrightarrow> hex_val c \<noteq> None"

definition hex_number :: "string \<Rightarrow> nat" where
  "hex_number s = foldl (\<lambda>n c. 16 * n + (case hex_val c of Some d \<Rightarrow> d | None \<Rightarrow> 0)) 0 s"

text \<open>
  The loop over the groups of an IPv6 address: the bytes read so far, where \<open>::\<close> was seen, and the
  rest of the text.
\<close>

function ipv6_groups :: "nat list \<Rightarrow> nat option \<Rightarrow> string \<Rightarrow> (nat list \<times> nat option \<times> string) option" where
  "ipv6_groups bs ell s =
     (if 16 \<le> length bs then Some (bs, ell, s)
      else
        let h = takeWhile is_hex s; r = dropWhile is_hex s in
        if h = [] \<or> 4 < length h then None
        else if has_prefix r ''.'' then
          (if (ell = None \<and> length bs \<noteq> 12) \<or> 16 < length bs + 4 then None
           else case parse_ipv4 s of None \<Rightarrow> None | Some v \<Rightarrow> Some (bs @ v, ell, []))
        else
          let bs' = bs @ [hex_number h div 256, hex_number h mod 256] in
          if r = [] then Some (bs', ell, [])
          else if hd r \<noteq> CHR '':'' \<or> tl r = [] then None
          else if has_prefix (tl r) '':'' then
            (if ell \<noteq> None then None
             else if drop 2 r = [] then Some (bs', Some (length bs'), [])
             else ipv6_groups bs' (Some (length bs')) (drop 2 r))
          else ipv6_groups bs' ell (tl r))"
  by pat_completeness auto

termination
proof (relation "measure (\<lambda>(bs, ell, s). length s)")
  have shorter: "dropWhile P s \<noteq> [] \<Longrightarrow> length (dropWhile P s) - Suc k < length s" for P and s :: string and k
    using length_dropWhile_le [of P s] by (cases "dropWhile P s") auto
  fix bs :: "nat list" and ell :: "nat option" and s r :: string and bs'' :: "nat list"
  assume h: "r = dropWhile is_hex s" "r \<noteq> []"
  show "((bs'', Some (length bs''), drop 2 r), bs, ell, s) \<in> measure (\<lambda>(bs, ell, s). length s)"
    "((bs'', ell, tl r), bs, ell, s) \<in> measure (\<lambda>(bs, ell, s). length s)"
    using shorter [of is_hex s 1] shorter [of is_hex s 0] h by auto
qed simp

declare ipv6_groups.simps [simp del]

definition parse_ipv6 :: "string \<Rightarrow> nat list option" where
  "parse_ipv6 s =
     (let lead = has_prefix s ''::''; rest = (if lead then drop 2 s else s) in
      if CHR ''%'' \<in> set s then None
      else if lead \<and> rest = [] then Some (replicate 16 0)
      else case ipv6_groups [] (if lead then Some 0 else None) rest of
        None \<Rightarrow> None
      | Some (bs, ell, r) \<Rightarrow>
          if r \<noteq> [] then None
          else if length bs < 16 then
            (case ell of
               None \<Rightarrow> None
             | Some e \<Rightarrow> Some (take e bs @ replicate (16 - length bs) 0 @ drop e bs))
          else if ell \<noteq> None then None
          else Some bs)"

definition parse_ip :: "string \<Rightarrow> nat list option" where
  "parse_ip s =
     (case find (\<lambda>c. c = CHR ''.'' \<or> c = CHR '':'' \<or> c = CHR ''%'') s of
        None \<Rightarrow> None
      | Some c \<Rightarrow>
          if c = CHR ''.'' then map_option ((@) (replicate 10 0 @ [255, 255])) (parse_ipv4 s)
          else if c = CHR '':'' then parse_ipv6 s
          else None)"

definition is_loopback :: "nat list \<Rightarrow> bool" where
  "is_loopback ip \<longleftrightarrow>
     (if length ip = 16 \<and> take 12 ip = replicate 10 0 @ [255, 255] then ip ! 12 = 127
      else ip = replicate 15 0 @ [1])"

section \<open>URLs\<close>

datatype escape_mode = Encode_host | Encode_zone | Encode_query | Encode_other

definition is_letter :: "char \<Rightarrow> bool" where
  "is_letter c \<longleftrightarrow> (97 \<le> byte c \<and> byte c \<le> (122 :: nat)) \<or> (65 \<le> byte c \<and> byte c \<le> (90 :: nat))"

definition host_escape :: "char \<Rightarrow> bool" where
  "host_escape c \<longleftrightarrow>
     \<not> (is_letter c \<or> digit_val c \<noteq> None
        \<or> c \<in> set ''!$&()*+,;=:[]<>-_.~'' \<or> c = CHR 0x27 \<or> c = CHR 0x22)"

fun url_unescape :: "escape_mode \<Rightarrow> string \<Rightarrow> string option" where
  "url_unescape mode [] = Some []"
| "url_unescape mode (c # s) =
     (if c = CHR ''%'' then
        (case s of
           a # b # t \<Rightarrow>
             (case (hex_val a, hex_val b) of
                (Some x, Some y) \<Rightarrow>
                  let v = 16 * x + y in
                  if mode = Encode_host \<and> x < 8 \<and> v \<noteq> 0x25 then None
                  else if mode = Encode_zone \<and> v \<noteq> 0x25 \<and> v \<noteq> 0x20 \<and> host_escape (char_of v) then None
                  else map_option ((#) (char_of v)) (url_unescape mode t)
              | _ \<Rightarrow> None)
         | _ \<Rightarrow> None)
      else if c = CHR ''+'' \<and> mode = Encode_query then map_option ((#) (CHR '' '')) (url_unescape mode s)
      else if (mode = Encode_host \<or> mode = Encode_zone) \<and> byte c < (0x80 :: nat) \<and> host_escape c then None
      else map_option ((#) c) (url_unescape mode s))"

text \<open>\<open>strings.Cut\<close> at the first separator, and the parts around the last one.\<close>

definition cut_first :: "char \<Rightarrow> string \<Rightarrow> string \<times> string" where
  "cut_first c s = (takeWhile (\<lambda>x. x \<noteq> c) s, drop 1 (dropWhile (\<lambda>x. x \<noteq> c) s))"

definition cut_last :: "char \<Rightarrow> string \<Rightarrow> (string \<times> string) option" where
  "cut_last c s =
     (if c \<in> set s
      then Some (rev (drop 1 (dropWhile (\<lambda>x. x \<noteq> c) (rev s))), rev (takeWhile (\<lambda>x. x \<noteq> c) (rev s)))
      else None)"

text \<open>\<open>getScheme\<close>: the scheme and the rest, \<open>None\<close> for a missing scheme before the colon.\<close>

fun scheme_at :: "string \<Rightarrow> string \<Rightarrow> string \<Rightarrow> (string \<times> string) option" where
  "scheme_at raw acc [] = Some ([], raw)"
| "scheme_at raw acc (c # s) =
     (if is_letter c then scheme_at raw (acc @ [c]) s
      else if digit_val c \<noteq> None \<or> c \<in> set ''+-.''
        then (if acc = [] then Some ([], raw) else scheme_at raw (acc @ [c]) s)
      else if c = CHR '':'' then (if acc = [] then None else Some (acc, s))
      else Some ([], raw))"

definition valid_optional_port :: "string \<Rightarrow> bool" where
  "valid_optional_port p \<longleftrightarrow> p = [] \<or> (hd p = CHR '':'' \<and> all_digits (tl p))"

definition parse_host :: "string \<Rightarrow> string option" where
  "parse_host host =
     (if has_prefix host ''['' then
        (case cut_last (CHR '']'') host of
           None \<Rightarrow> None
         | Some (inside, port) \<Rightarrow>
             if \<not> valid_optional_port port then None
             else case index_str inside ''%25'' of
               Some z \<Rightarrow>
                 (case (url_unescape Encode_host (take z inside), url_unescape Encode_zone (drop z inside),
                        url_unescape Encode_host (CHR '']'' # port)) of
                    (Some h1, Some h2, Some h3) \<Rightarrow> Some (h1 @ h2 @ h3)
                  | _ \<Rightarrow> None)
             | None \<Rightarrow> url_unescape Encode_host host)
      else case cut_last (CHR '':'') host of
        Some (_, port) \<Rightarrow>
          if valid_optional_port (CHR '':'' # port) then url_unescape Encode_host host else None
      | None \<Rightarrow> url_unescape Encode_host host)"

definition valid_userinfo :: "string \<Rightarrow> bool" where
  "valid_userinfo s =
     list_all (\<lambda>c. is_letter c \<or> digit_val c \<noteq> None \<or> c \<in> set ''-._:~!$&()*+,;=%@'' \<or> c = CHR 0x27) s"

definition parse_authority :: "string \<Rightarrow> string option" where
  "parse_authority a =
     (case cut_last (CHR ''@'') a of
        None \<Rightarrow> parse_host a
      | Some (user, host) \<Rightarrow>
          (case parse_host host of
             None \<Rightarrow> None
           | Some h \<Rightarrow>
               let (name, password) = cut_first (CHR '':'') user in
               if \<not> valid_userinfo user \<or> url_unescape Encode_other name = None
                  \<or> url_unescape Encode_other password = None
               then None else Some h))"

record url =
  url_scheme :: string
  url_host :: string

definition url_parse :: "string \<Rightarrow> url option" where
  "url_parse raw0 =
     (let (raw, frag) = cut_first (CHR ''#'') raw0 in
      if list_ex (\<lambda>c. byte c < (0x20 :: nat) \<or> byte c = (0x7F :: nat)) raw
         \<or> url_unescape Encode_other frag = None
      then None
      else if raw = ''*'' then Some \<lparr>url_scheme = [], url_host = []\<rparr>
      else case scheme_at raw [] raw of
        None \<Rightarrow> None
      | Some (scheme, rest0) \<Rightarrow>
          let rest = fst (cut_first (CHR ''?'') rest0) in
          if \<not> has_prefix rest ''/'' \<and> scheme \<noteq> [] then Some \<lparr>url_scheme = to_lower scheme, url_host = []\<rparr>
          else if \<not> has_prefix rest ''/'' \<and> CHR '':'' \<in> set (fst (cut_first slash rest)) then None
          else if (scheme \<noteq> [] \<or> \<not> has_prefix rest ''///'') \<and> has_prefix rest ''//'' then
            (let a = takeWhile (\<lambda>c. c \<noteq> slash) (drop 2 rest); path = dropWhile (\<lambda>c. c \<noteq> slash) (drop 2 rest)
             in case parse_authority a of
                  None \<Rightarrow> None
                | Some h \<Rightarrow>
                    if url_unescape Encode_other path = None then None
                    else Some \<lparr>url_scheme = to_lower scheme, url_host = h\<rparr>)
          else if url_unescape Encode_other rest = None then None
          else Some \<lparr>url_scheme = to_lower scheme, url_host = []\<rparr>)"

definition hostname :: "url \<Rightarrow> string" where
  "hostname u =
     (let h = (case cut_last (CHR '':'') (url_host u) of
                 Some (h, port) \<Rightarrow> if all_digits port then h else url_host u
               | None \<Rightarrow> url_host u)
      in if has_prefix h ''['' \<and> has_suffix h '']'' then butlast (tl h) else h)"

text \<open>\<open>URL.Query().Get(key)\<close>: the first value of the key among the parts that decode.\<close>

definition query_part :: "string \<Rightarrow> (string \<times> string) option" where
  "query_part part =
     (let (k, v) = cut_first (CHR ''='') part in
      if CHR '';'' \<in> set part \<or> part = [] then None
      else case (url_unescape Encode_query k, url_unescape Encode_query v) of
        (Some k', Some v') \<Rightarrow> Some (k', v')
      | _ \<Rightarrow> None)"

definition query_get :: "string \<Rightarrow> string \<Rightarrow> string" where
  "query_get raw key =
     (case map_of (List.map_filter query_part (split_on (CHR ''&'') raw)) key of
        None \<Rightarrow> [] | Some v \<Rightarrow> v)"

section \<open>Dotted addresses\<close>

definition dotted :: "nat list \<Rightarrow> string" where
  "dotted ns = join_with (CHR ''.'') (map nat_digits ns)"

lemma digit_char_0: "digit_char 0 = CHR ''0''"
  by code_simp

lemma digit_char_eq_0: "d < 10 \<Longrightarrow> digit_char d = CHR ''0'' \<longleftrightarrow> d = 0"
  by (metis digit_val_char digit_char_0 option.inject zero_less_numeral)

lemma nat_digits_small: "n < 10 \<Longrightarrow> nat_digits n = [digit_char n]"
  by (simp add: nat_digits.simps [of n])

lemma nat_digits_step: "0 < m \<Longrightarrow> d < 10 \<Longrightarrow> nat_digits (10 * m + d) = nat_digits m @ [digit_char d]"
  by (subst nat_digits.simps) simp

lemma nat_digits_hd: "0 < n \<Longrightarrow> hd (nat_digits n) \<noteq> CHR ''0''"
proof (induction n rule: nat_digits.induct)
  case (1 n)
  show ?case
  proof (cases "n < 10")
    case True
    with "1.prems" show ?thesis by (simp add: nat_digits_small digit_char_eq_0)
  next
    case False
    with 1 show ?thesis by (simp add: nat_digits.simps [of n])
  qed
qed

lemma digits_val_text:
  "digits_val 0 s = Some n \<Longrightarrow> s \<noteq> [] \<Longrightarrow> hd s \<noteq> CHR ''0'' \<or> s = ''0'' \<Longrightarrow> s = nat_digits n"
proof (induction s arbitrary: n rule: rev_induct)
  case (snoc c t)
  from snoc.prems(1) obtain m d where m: "digits_val 0 t = Some m" "digit_val c = Some d" "n = 10 * m + d"
    by (auto simp: digits_val_append split: option.splits)
  then have c: "c = digit_char d" "d < 10" using digit_val_Some by blast+
  show ?case
  proof (cases "t = []")
    case True
    with m c show ?thesis by (simp add: nat_digits_small)
  next
    case False
    with snoc.prems have "t = nat_digits m" "hd t \<noteq> CHR ''0''" using snoc.IH [OF m(1)] by auto
    then have "0 < m" by (cases m) (auto simp: nat_digits_small digit_char_0)
    with \<open>t = nat_digits m\<close> m(3) c show ?thesis by (simp add: nat_digits_step)
  qed
qed simp

lemma parse_octet_iff: "parse_octet s = Some n \<longleftrightarrow> n \<le> 255 \<and> s = nat_digits n"
proof
  assume "parse_octet s = Some n"
  then show "n \<le> 255 \<and> s = nat_digits n"
    using digits_val_text [of s n] by (auto simp: parse_octet_def split: if_splits option.splits)
next
  assume "n \<le> 255 \<and> s = nat_digits n"
  moreover have "nat_digits 0 = ''0''" by (simp add: nat_digits_small digit_char_0)
  ultimately show "parse_octet s = Some n"
    using nat_digits_hd [of n] digits_val_nat_digits [of n] by (cases n) (auto simp: parse_octet_def)
qed

lemma nat_digits_dotless: "CHR ''.'' \<notin> set (nat_digits n)"
  using set_nat_digits digit_char_plain(4) by fastforce

lemma parse_ipv4_iff:
  "parse_ipv4 s = Some ns \<longleftrightarrow> length ns = 4 \<and> list_all (\<lambda>n. n \<le> 255) ns \<and> s = dotted ns"
proof
  assume "parse_ipv4 s = Some ns"
  then obtain a b c d where p: "map parse_octet (split_on (CHR ''.'') s) = [Some a, Some b, Some c, Some d]"
    and ns: "ns = [a, b, c, d]"
    by (auto simp: parse_ipv4_def split: list.splits option.splits)
  then obtain w x y z where sp: "split_on (CHR ''.'') s = [w, x, y, z]" by auto
  with p ns have "list_all (\<lambda>n. n \<le> 255) ns" "split_on (CHR ''.'') s = map nat_digits ns"
    by (auto simp: parse_octet_iff)
  with ns show "length ns = 4 \<and> list_all (\<lambda>n. n \<le> 255) ns \<and> s = dotted ns"
    using join_split [of "CHR ''.''" s] by (simp add: dotted_def)
next
  assume ns: "length ns = 4 \<and> list_all (\<lambda>n. n \<le> 255) ns \<and> s = dotted ns"
  then have "length ns = Suc (Suc (Suc (Suc 0)))" by simp
  then obtain a b c d where abcd: "ns = [a, b, c, d]" unfolding length_Suc_conv by auto
  moreover have "split_on (CHR ''.'') s = map nat_digits ns"
    using ns abcd split_join [of "map nat_digits ns" "CHR ''.''"] nat_digits_dotless
    by (auto simp: dotted_def)
  moreover have "n \<le> 255 \<Longrightarrow> parse_octet (nat_digits n) = Some n" for n by (simp add: parse_octet_iff)
  ultimately show "parse_ipv4 s = Some ns" using ns by (simp add: parse_ipv4_def)
qed

section \<open>Web addresses with a plain host\<close>

definition host_char :: "char \<Rightarrow> bool" where
  "host_char c \<longleftrightarrow> is_letter c \<or> digit_val c \<noteq> None \<or> c = CHR ''-'' \<or> c = CHR ''.''"

definition port_part :: "string \<Rightarrow> bool" where
  "port_part p \<longleftrightarrow> p = [] \<or> (\<exists>ds. p = CHR '':'' # ds \<and> all_digits ds)"

lemma host_char_excludes:
  assumes "host_char c"
  shows "c \<noteq> CHR ''/''" "c \<noteq> CHR '':''" "c \<noteq> CHR ''#''" "c \<noteq> CHR ''?''" "c \<noteq> CHR ''@''" "c \<noteq> CHR ''[''"
    "c \<noteq> CHR ''%''" "c \<noteq> CHR ''+''" "\<not> byte c < (0x20 :: nat)" "byte c \<noteq> (0x7F :: nat)" "\<not> host_escape c"
  using assms
  by (auto simp: host_char_def is_letter_def digit_val_def host_escape_def split: if_splits)

text \<open>What follows the scheme of such an address: the host, then perhaps a colon and digits.\<close>

definition plain_web :: "string \<Rightarrow> string \<Rightarrow> bool" where
  "plain_web host port \<longleftrightarrow> list_all host_char host \<and> port_part port"

lemma plain_web_chars:
  assumes "plain_web host port" "c \<in> set (host @ port)"
  shows "host_char c \<or> c = CHR '':''"
  using assms by (auto simp: plain_web_def port_part_def list_all_iff all_digits_def host_char_def)

lemma plain_web_excludes:
  assumes "plain_web host port" "c \<in> set (host @ port)"
  shows "c \<noteq> CHR ''/''" "c \<noteq> CHR ''#''" "c \<noteq> CHR ''?''" "c \<noteq> CHR ''@''" "c \<noteq> CHR ''[''"
    "c \<noteq> CHR ''%''" "\<not> byte c < (0x20 :: nat)" "byte c \<noteq> (0x7F :: nat)" "\<not> host_escape c"
proof -
  have colon: "\<not> host_escape (CHR '':'')" by code_simp
  from plain_web_chars [OF assms] consider (h) "host_char c" | (c) "c = CHR '':''" by blast
  then show "c \<noteq> CHR ''/''" "c \<noteq> CHR ''#''" "c \<noteq> CHR ''?''" "c \<noteq> CHR ''@''" "c \<noteq> CHR ''[''"
    "c \<noteq> CHR ''%''" "\<not> byte c < (0x20 :: nat)" "byte c \<noteq> (0x7F :: nat)" "\<not> host_escape c"
    by (cases; simp add: host_char_excludes colon)+
qed

lemma cut_first_absent: "c \<notin> set s \<Longrightarrow> cut_first c s = (s, [])"
  unfolding cut_first_def
  by (metis (mono_tags, lifting) Pair_inject drop_Nil dropWhile_eq_Nil_conv takeWhile_eq_all_conv)

lemma cut_last_absent: "c \<notin> set s \<Longrightarrow> cut_last c s = None"
  by (simp add: cut_last_def)

lemma cut_last_at:
  assumes "c \<notin> set t"
  shows "cut_last c (s @ c # t) = Some (s, t)"
proof -
  have "takeWhile (\<lambda>x. x \<noteq> c) (rev t @ c # rev s) = rev t"
    "dropWhile (\<lambda>x. x \<noteq> c) (rev t @ c # rev s) = c # rev s"
    using assms by (auto simp: takeWhile_append dropWhile_append)
  then show ?thesis by (simp add: cut_last_def)
qed

lemma url_unescape_plain:
  "(\<And>c. c \<in> set s \<Longrightarrow> c \<noteq> CHR ''%'' \<and> \<not> host_escape c) \<Longrightarrow> url_unescape Encode_host s = Some s"
  by (induction s) auto

lemma parse_host_plain:
  assumes "plain_web host port"
  shows "parse_host (host @ port) = Some (host @ port)"
proof -
  have u: "url_unescape Encode_host (host @ port) = Some (host @ port)"
    using plain_web_excludes [OF assms] by (intro url_unescape_plain) blast
  have b: "\<not> has_prefix (host @ port) ''[''"
    using plain_web_excludes(5) [OF assms] by (cases "host @ port") (auto simp: has_prefix_def)
  have h: "CHR '':'' \<notin> set host" using assms host_char_excludes(2) by (auto simp: plain_web_def list_all_iff)
  show ?thesis
  proof (cases "port = []")
    case True
    with u b h show ?thesis by (simp add: parse_host_def cut_last_absent)
  next
    case False
    with assms obtain ds where ds: "port = CHR '':'' # ds" "all_digits ds"
      by (auto simp: plain_web_def port_part_def)
    then have "CHR '':'' \<notin> set ds" by (auto simp: all_digits_def list_all_iff digit_val_def)
    with u b ds show ?thesis by (simp add: parse_host_def cut_last_at valid_optional_port_def)
  qed
qed

lemma hostname_plain:
  assumes "plain_web host port"
  shows "hostname \<lparr>url_scheme = sch, url_host = host @ port\<rparr> = host"
proof -
  have h: "CHR '':'' \<notin> set host" "\<not> has_prefix host ''[''"
    using assms host_char_excludes(2,6) by (cases host; auto simp: plain_web_def list_all_iff has_prefix_def)+
  show ?thesis
  proof (cases "port = []")
    case True
    with h show ?thesis by (simp add: hostname_def cut_last_absent)
  next
    case False
    with assms obtain ds where ds: "port = CHR '':'' # ds" "all_digits ds"
      by (auto simp: plain_web_def port_part_def)
    then have "CHR '':'' \<notin> set ds" by (auto simp: all_digits_def list_all_iff digit_val_def)
    with h ds show ?thesis by (simp add: hostname_def cut_last_at)
  qed
qed

lemma url_parse_plain:
  assumes "plain_web host port" "sch = ''http'' \<or> sch = ''https''"
  shows "url_parse (sch @ ''://'' @ host @ port) = Some \<lparr>url_scheme = sch, url_host = host @ port\<rparr>"
proof -
  define hp where "hp = host @ port"
  define raw where "raw = sch @ ''://'' @ hp"
  note ex = plain_web_excludes [OF assms(1), folded hp_def]
  have set: "CHR ''#'' \<notin> set raw" "CHR ''?'' \<notin> set (''//'' @ hp)" "CHR ''@'' \<notin> set hp" "slash \<notin> set hp"
    using ex(1-4) assms(2) by (auto simp: slash_def raw_def)
  have ctl: "\<not> list_ex (\<lambda>c. byte c < (0x20 :: nat) \<or> byte c = (0x7F :: nat)) raw"
    using ex(7,8) assms(2) by (auto simp: list_ex_iff raw_def)
  have letters: "list_all is_letter sch" using assms(2) by (auto simp: is_letter_def)
  have "scheme_at x acc (t @ CHR '':'' # r) = (if acc @ t = [] then None else Some (acc @ t, r))"
    if "list_all is_letter t" for x acc t r
    using that by (induction t arbitrary: acc) (auto simp: is_letter_def digit_val_def)
  from this [OF letters, of raw "[]" "''//'' @ hp"]
  have sch: "scheme_at raw [] raw = Some (sch, ''//'' @ hp)" using assms(2) by (auto simp: raw_def)
  have path: "takeWhile (\<lambda>c. c \<noteq> slash) hp = hp" "dropWhile (\<lambda>c. c \<noteq> slash) hp = []"
    using set(4) by (simp_all only: takeWhile_eq_all_conv dropWhile_eq_Nil_conv) blast+
  have auth: "parse_authority hp = Some hp"
    using set(3) parse_host_plain [OF assms(1)] by (simp add: parse_authority_def cut_last_absent hp_def)
  have "to_lower sch = sch" "sch \<noteq> []" "raw \<noteq> ''*''"
    using assms(2) by (auto simp: has_prefix_def lower_char_def raw_def)
  with cut_first_absent [OF set(1)] cut_first_absent [OF set(2)] ctl sch
  have "url_parse raw = Some \<lparr>url_scheme = sch, url_host = hp\<rparr>"
    by (simp add: url_parse_def Let_def has_prefix_def path auth)
  then show ?thesis by (simp add: raw_def hp_def)
qed

lemma four_octets: "length ns = 4 \<longleftrightarrow> (\<exists>a b c d. ns = [a, b, c, d])"
proof -
  have "length ns = 4 \<longleftrightarrow> length ns = Suc (Suc (Suc (Suc 0)))" by (simp add: eval_nat_numeral)
  then show ?thesis unfolding length_Suc_conv by auto
qed

lemma loopback_v4: "is_loopback (replicate 10 0 @ [255, 255, a, b, c, d]) \<longleftrightarrow> a = 127"
  by (simp add: is_loopback_def numeral_eq_Suc)

lemma parse_ip_plain:
  assumes "list_all host_char host"
  shows "(\<exists>ip. parse_ip host = Some ip \<and> is_loopback ip)
    \<longleftrightarrow> (\<exists>b c d. b \<le> 255 \<and> c \<le> 255 \<and> d \<le> 255 \<and> host = dotted [127, b, c, d])"
proof -
  have no: "CHR '':'' \<notin> set host" "CHR ''%'' \<notin> set host"
    using assms host_char_excludes(2,7) by (auto simp: list_all_iff)
  let ?P = "\<lambda>c. c = CHR ''.'' \<or> c = CHR '':'' \<or> c = CHR ''%''"
  have find: "find ?P host = (if CHR ''.'' \<in> set host then Some (CHR ''.'') else None)"
    using no by (induction host) auto
  have dot: "CHR ''.'' \<in> set (dotted [a, b, c, d])" for a b c d
    by (simp add: dotted_def)
  show ?thesis
  proof (cases "CHR ''.'' \<in> set host")
    case True
    then have "parse_ip host = map_option ((@) (replicate 10 0 @ [255, 255])) (parse_ipv4 host)"
      by (simp add: parse_ip_def find)
    then have ip: "parse_ip host = Some ip \<longleftrightarrow> (\<exists>a b c d. parse_ipv4 host = Some [a, b, c, d]
        \<and> ip = replicate 10 0 @ [255, 255, a, b, c, d])" for ip
      by (auto simp: parse_ipv4_iff four_octets)
    show ?thesis
    proof
      assume "\<exists>ip. parse_ip host = Some ip \<and> is_loopback ip"
      then obtain a b c d where v: "parse_ipv4 host = Some [a, b, c, d]"
        and "is_loopback (replicate 10 0 @ [255, 255, a, b, c, d])" unfolding ip by blast
      then have "a = 127" by (simp only: loopback_v4)
      with v show "\<exists>b c d. b \<le> 255 \<and> c \<le> 255 \<and> d \<le> 255 \<and> host = dotted [127, b, c, d]"
        by (auto simp: parse_ipv4_iff)
    next
      assume "\<exists>b c d. b \<le> 255 \<and> c \<le> 255 \<and> d \<le> 255 \<and> host = dotted [127, b, c, d]"
      then obtain b c d where "parse_ipv4 host = Some [127, b, c, d]" by (auto simp: parse_ipv4_iff)
      with loopback_v4 [of 127 b c d] show "\<exists>ip. parse_ip host = Some ip \<and> is_loopback ip"
        unfolding ip by blast
    qed
  next
    case False
    then show ?thesis using dot by (auto simp: parse_ip_def find)
  qed
qed

end
