(* ===== verification/Ide_Endpoint.thy ===== *)
theory Ide_Endpoint
  imports Ide_Hub Go_Net
begin

text \<open>
  \<open>local-agent/internal/idebridge\<close>, the files \<open>bind.go\<close>, \<open>origin.go\<close>, \<open>messages.go\<close> and
  \<open>endpoint.go\<close>: which addresses the bridge listens on, which origins it accepts, the JSON frames,
  and the discovery file that carries the session token. Errors are values of a datatype whose
  constructors are the \<open>fmt.Errorf\<close> calls. The state directory is absolute, as \<open>config.Load\<close> makes it.
\<close>

datatype bridge_error =
    Bind_empty
  | Bind_not_ip string
  | Bind_not_loopback string
  | Port_range int
  | State_dir_required
  | State_dir_empty
  | Agent_required
  | Token_failed
  | Already_started
  | Listen_failed string
  | Listener_refused
  | Endpoint_unwritten errno
  | Not_listening
  | Endpoint_unread errno
  | Endpoint_unparsed
  | Endpoint_incomplete

section \<open>Addresses and origins\<close>

definition validate_bind :: "string \<Rightarrow> bridge_error option" where
  "validate_bind host0 =
     (let host = trim_space host0 in
      if host = [] then Some Bind_empty
      else case parse_ip host of
        None \<Rightarrow> Some (Bind_not_ip host)
      | Some ip \<Rightarrow> if \<not> is_loopback ip then Some (Bind_not_loopback host) else None)"

definition origin_allowed :: "string \<Rightarrow> bool" where
  "origin_allowed origin0 =
     (let origin = trim_space origin0 in
      if origin = [] \<or> origin = ''null'' then True
      else case url_parse origin of
        None \<Rightarrow> False
      | Some u \<Rightarrow>
          if url_scheme u = [] then False
          else
            let sch = to_lower (url_scheme u) in
            if sch = ''vscode-file'' \<or> sch = ''vscode-webview'' \<or> sch = ''vscode-app'' then True
            else if sch = ''http'' \<or> sch = ''https'' then
              (let host = hostname u in
               if host = ''localhost'' then True
               else case parse_ip host of None \<Rightarrow> False | Some ip \<Rightarrow> is_loopback ip)
            else False)"

section \<open>Frames\<close>

text \<open>\<open>ReadJSON\<close> decodes the first JSON value of a message; longer messages fail the read.\<close>

definition max_message_bytes :: nat where
  "max_message_bytes = 64 * 1024"

definition dec_message :: "json \<Rightarrow> ide_message option" where
  "dec_message j =
     (case struct_fields j of
        None \<Rightarrow> None
      | Some m \<Rightarrow>
          (case (string_field ''type'' m, string_field ''message_id'' m,
                 assign_maps None (field_values ''data'' m)) of
             (Some t, Some i, Some d) \<Rightarrow> Some \<lparr>im_type = t, im_id = i, im_data = d\<rparr>
           | _ \<Rightarrow> None))"

definition read_frame :: "string option \<Rightarrow> ide_message option" where
  "read_frame msg =
     (case msg of
        None \<Rightarrow> None
      | Some s \<Rightarrow>
          if max_message_bytes < length s then None
          else case parse_value (skip_ws s) of
            None \<Rightarrow> None
          | Some (j, _) \<Rightarrow> dec_message j)"

definition error_message :: "string \<Rightarrow> string \<Rightarrow> string \<Rightarrow> ide_message" where
  "error_message ident code message =
     \<lparr>im_type = ''error'', im_id = ident,
      im_data = Some [(''code'', JStr code), (''message'', JStr message)]\<rparr>"

section \<open>The discovery file\<close>

record endpoint =
  ep_bind :: string
  ep_port :: int
  ep_path :: string
  ep_token :: string

definition new_token :: "u8 list option \<Rightarrow> bridge_error + string" where
  "new_token rnd = (case rnd of None \<Rightarrow> Inl Token_failed | Some b \<Rightarrow> Inr (hex_encode b))"

definition endpoint_path :: "string \<Rightarrow> path" where
  "endpoint_path dir = join_path (join_path [] dir) ''ide-ipc.json''"

text \<open>How \<open>encoding/json\<close> writes a string, with its escapes for HTML.\<close>

definition unicode_escape_text :: "nat \<Rightarrow> string" where
  "unicode_escape_text n =
     [CHR 0x5C, CHR ''u'', hex_digit (n div 4096 mod 16), hex_digit (n div 256 mod 16),
      hex_digit (n div 16 mod 16), hex_digit (n mod 16)]"

definition escape_ascii :: "char \<Rightarrow> string" where
  "escape_ascii c =
     (if c = CHR 0x22 \<or> c = CHR 0x5C then [CHR 0x5C, c]
      else if c = CHR 0x08 then [CHR 0x5C, CHR ''b'']
      else if c = CHR 0x0C then [CHR 0x5C, CHR ''f'']
      else if c = CHR 0x0A then [CHR 0x5C, CHR ''n'']
      else if c = CHR 0x0D then [CHR 0x5C, CHR ''r'']
      else if c = CHR 0x09 then [CHR 0x5C, CHR ''t'']
      else if byte c < (0x20 :: nat) \<or> c = CHR ''<'' \<or> c = CHR ''>'' \<or> c = CHR ''&''
        then unicode_escape_text (byte c)
      else [c])"

function json_escape :: "string \<Rightarrow> string" where
  "json_escape [] = []"
| "json_escape (c # s) =
     (if byte c < (0x80 :: nat) then escape_ascii c @ json_escape s
      else if rune_size (c # s) = 0 then unicode_escape_text 0xFFFD @ json_escape s
      else if has_prefix (c # s) [CHR 0xE2, CHR 0x80, CHR 0xA8] then unicode_escape_text 0x2028 @ json_escape (drop 2 s)
      else if has_prefix (c # s) [CHR 0xE2, CHR 0x80, CHR 0xA9] then unicode_escape_text 0x2029 @ json_escape (drop 2 s)
      else take (rune_size (c # s)) (c # s) @ json_escape (drop (rune_size (c # s) - 1) s))"
  by pat_completeness auto
termination
  by (relation "measure length") auto

declare json_escape.simps [simp del]

definition json_quote :: "string \<Rightarrow> string" where
  "json_quote s = CHR 0x22 # json_escape s @ [CHR 0x22]"

definition json_line :: "string \<Rightarrow> string \<Rightarrow> string" where
  "json_line key v = newline # ''  '' @ json_quote key @ '': '' @ v"

text \<open>\<open>json.MarshalIndent\<close> of an endpoint with two blanks.\<close>

definition endpoint_text :: "endpoint \<Rightarrow> string" where
  "endpoint_text ep =
     ''{'' @ json_line ''bind'' (json_quote (ep_bind ep)) @ '','' @ json_line ''port'' (itoa (ep_port ep))
       @ '','' @ json_line ''path'' (json_quote (ep_path ep))
       @ '','' @ json_line ''token'' (json_quote (ep_token ep)) @ [newline] @ ''}''"

definition write_endpoint :: "os \<Rightarrow> string \<Rightarrow> endpoint \<Rightarrow> os \<times> bridge_error option" where
  "write_endpoint os dir ep =
     (if dir = [] then (os, Some State_dir_empty)
      else case write_file os (endpoint_path dir) (endpoint_text ep) 0x180 of
        (os1, Some e) \<Rightarrow> (fst (remove_path os1 (endpoint_path dir)), Some (Endpoint_unwritten e))
      | (os1, None) \<Rightarrow> (os1, None))"

definition remove_endpoint :: "os \<Rightarrow> string \<Rightarrow> os" where
  "remove_endpoint os dir = (if dir = [] then os else fst (remove_path os (endpoint_path dir)))"

definition dec_endpoint :: "json \<Rightarrow> endpoint option" where
  "dec_endpoint j =
     (case struct_fields j of
        None \<Rightarrow> None
      | Some m \<Rightarrow>
          (case (string_field ''bind'' m, assign_ints 0 (field_values ''port'' m), string_field ''path'' m,
                 string_field ''token'' m) of
             (Some b, Some p, Some q, Some t) \<Rightarrow> Some \<lparr>ep_bind = b, ep_port = p, ep_path = q, ep_token = t\<rparr>
           | _ \<Rightarrow> None))"

definition read_endpoint :: "fs \<Rightarrow> string \<Rightarrow> bridge_error + endpoint" where
  "read_endpoint fs dir =
     (case read_content fs (endpoint_path dir) of
        Inl e \<Rightarrow> Inl (Endpoint_unread e)
      | Inr raw \<Rightarrow>
          (case (case json_parse raw of None \<Rightarrow> None | Some j \<Rightarrow> dec_endpoint j) of
             None \<Rightarrow> Inl Endpoint_unparsed
           | Some ep \<Rightarrow>
               if ep_bind ep = [] \<or> ep_port ep \<le> 0 \<or> ep_path ep = [] \<or> ep_token ep = []
               then Inl Endpoint_incomplete else Inr ep))"

section \<open>Web origins\<close>

text \<open>
  C40. Of the web origins with a plain host (letters, digits, dashes and dots, and perhaps a port) the
  bridge accepts exactly \<open>localhost\<close> in small letters and the dotted addresses that start with 127: a
  name that merely contains or extends such an address is refused.
\<close>

theorem origin_allowed_web:
  assumes "sch = ''http'' \<or> sch = ''https''" "plain_web host port"
  shows "origin_allowed (sch @ ''://'' @ host @ port)
    \<longleftrightarrow> host = ''localhost'' \<or> (\<exists>b c d. b \<le> 255 \<and> c \<le> 255 \<and> d \<le> 255 \<and> host = dotted [127, b, c, d])"
proof -
  define raw where "raw = sch @ ''://'' @ host @ port"
  have "plain_byte c" if "c \<in> set (host @ port)" for c
    using plain_web_chars [OF assms(2) that]
    by (auto simp: host_char_def is_letter_def digit_val_def plain_byte_def split: if_splits)
  then have "plain_byte (last raw)" "plain_byte (hd raw)" "raw \<noteq> []"
    using assms(1) by (auto simp: raw_def plain_byte_def last_append)
  then have trim: "trim_space raw = raw" by (intro trim_space_plain)
  have parsed: "url_parse raw = Some \<lparr>url_scheme = sch, url_host = host @ port\<rparr>"
    unfolding raw_def by (rule url_parse_plain [OF assms(2,1)])
  have "raw \<noteq> ''null''" "raw \<noteq> []" "sch \<noteq> []" "to_lower sch = sch" "hd sch \<noteq> CHR ''v''"
    using assms(1) by (auto simp: raw_def has_prefix_def lower_char_def)
  then have "origin_allowed raw \<longleftrightarrow> host = ''localhost'' \<or> (\<exists>ip. parse_ip host = Some ip \<and> is_loopback ip)"
    using assms(1) trim parsed hostname_plain [OF assms(2)]
    by (auto simp: origin_allowed_def Let_def split: option.splits)
  with parse_ip_plain [of host] assms(2) show ?thesis by (simp add: raw_def plain_web_def)
qed

theorem origin_allowed_web_witness:
  "origin_allowed ''http://127.0.0.1:3000'' \<and> \<not> origin_allowed ''https://127.0.0.1.example''"
proof -
  have p: "plain_web ''127.0.0.1'' '':3000''" "plain_web ''127.0.0.1.example'' []"
    by (simp_all add: plain_web_def host_char_def is_letter_def digit_val_def port_part_def all_digits_def)
  have d: "dotted [127, 0, 0, 1] = ''127.0.0.1''" by code_simp
  then have "\<exists>b c d. b \<le> 255 \<and> c \<le> 255 \<and> d \<le> 255 \<and> ''127.0.0.1'' = dotted [127, b, c, d]"
    by (intro exI [of _ 0] exI [of _ 1]) simp
  with origin_allowed_web [OF disjI1 [OF refl] p(1)] have "origin_allowed ''http://127.0.0.1:3000''" by simp
  moreover have "\<not> (\<exists>b c d. b \<le> 255 \<and> c \<le> 255 \<and> d \<le> 255 \<and> ''127.0.0.1.example'' = dotted [127, b, c, d])"
  proof -
    have "parse_ipv4 ''127.0.0.1.example'' = None" by code_simp
    then have "''127.0.0.1.example'' \<noteq> dotted [127, b, c, d]" if "b \<le> 255" "c \<le> 255" "d \<le> 255" for b c d
      using that parse_ipv4_iff [of "''127.0.0.1.example''" "[127, b, c, d]"] by simp
    then show ?thesis by blast
  qed
  with origin_allowed_web [OF disjI2 [OF refl] p(2)] have "\<not> origin_allowed ''https://127.0.0.1.example''" by simp
  ultimately show ?thesis ..
qed

section \<open>The discovery file is read back\<close>

text \<open>Printable ASCII text, which every bind address, path and token is.\<close>

definition printable :: "string \<Rightarrow> bool" where
  "printable s = list_all (\<lambda>c. 0x20 \<le> byte c \<and> byte c < (0x7F :: nat)) s"

lemma rune_size_ascii: "byte c < (0x80 :: nat) \<Longrightarrow> rune_size (c # s) = 1"
  by simp

lemma html_escapes:
  "escape_ascii (CHR ''<'') = [CHR 0x5C, CHR ''u''] @ ''003c''"
  "escape_ascii (CHR ''>'') = [CHR 0x5C, CHR ''u''] @ ''003e''"
  "escape_ascii (CHR ''&'') = [CHR 0x5C, CHR ''u''] @ ''0026''"
  by code_simp+

lemma unicode_escape_html:
  "unicode_escape (CHR ''0'' # CHR ''0'' # CHR ''3'' # CHR ''c'' # t) = Some (''<'', 4)"
  "unicode_escape (CHR ''0'' # CHR ''0'' # CHR ''3'' # CHR ''e'' # t) = Some (''>'', 4)"
  "unicode_escape (CHR ''0'' # CHR ''0'' # CHR ''2'' # CHR ''6'' # t) = Some (''&'', 4)"
proof -
  have h: "hex_val (CHR ''0'') = Some 0" "hex_val (CHR ''3'') = Some 3" "hex_val (CHR ''2'') = Some 2"
    "hex_val (CHR ''6'') = Some 6" "hex_val (CHR ''c'') = Some 12" "hex_val (CHR ''e'') = Some 14"
    by code_simp+
  have u: "utf8_encode 60 = ''<''" "utf8_encode 62 = ''>''" "utf8_encode 38 = ''&''" by code_simp+
  show "unicode_escape (CHR ''0'' # CHR ''0'' # CHR ''3'' # CHR ''c'' # t) = Some (''<'', 4)"
    "unicode_escape (CHR ''0'' # CHR ''0'' # CHR ''3'' # CHR ''e'' # t) = Some (''>'', 4)"
    "unicode_escape (CHR ''0'' # CHR ''0'' # CHR ''2'' # CHR ''6'' # t) = Some (''&'', 4)"
    by (simp_all add: unicode_escape_def h u)
qed

lemma parse_string_escaped:
  "printable s \<Longrightarrow> parse_string (json_escape s @ CHR 0x22 # r) = Some (s, r)"
proof (induction s)
  case Nil
  then show ?case by (simp add: json_escape.simps parse_string.simps)
next
  case (Cons c s)
  then have c: "0x20 \<le> byte c" "byte c < (0x7F :: nat)" and IH: "parse_string (json_escape s @ CHR 0x22 # r) = Some (s, r)"
    by (simp_all add: printable_def)
  have "c \<noteq> CHR 0x08" "c \<noteq> CHR 0x0C" "c \<noteq> CHR 0x0A" "c \<noteq> CHR 0x0D" "c \<noteq> CHR 0x09" "\<not> byte c < (0x20 :: nat)"
    using c(1) by auto
  then have "escape_ascii c = [c]"
    if "c \<noteq> CHR 0x22" "c \<noteq> CHR 0x5C" "c \<noteq> CHR ''<''" "c \<noteq> CHR ''>''" "c \<noteq> CHR ''&''"
    using that by (simp add: escape_ascii_def)
  then consider (quote) "c = CHR 0x22 \<or> c = CHR 0x5C" | (html) "c = CHR ''<'' \<or> c = CHR ''>'' \<or> c = CHR ''&''"
    | (plain) "escape_ascii c = [c]" "c \<noteq> CHR 0x22" "c \<noteq> CHR 0x5C"
    by blast
  then show ?case
  proof cases
    case quote
    then show ?thesis using IH
      by (auto simp: json_escape.simps escape_ascii_def parse_string.simps(2) [of "CHR 0x5C"] simple_escape_def)
  next
    case html
    then show ?thesis using IH
      by (auto simp: json_escape.simps html_escapes unicode_escape_html parse_string.simps(2) [of "CHR 0x5C"])
  next
    case plain
    then show ?thesis using IH c rune_size_ascii [of c]
      by (simp add: json_escape.simps parse_string.simps(2) [of c])
  qed
qed

lemma skip_ws_simps [simp]:
  "skip_ws [] = []" "skip_ws (c # s) = (if is_ws c then skip_ws s else c # s)"
  by (simp_all add: skip_ws_def)

lemma parse_digits:
  assumes "0 < n" "r = [] \<or> digit_val (hd r) = None"
  shows "take_digits (nat_digits n @ r) = (nat_digits n, r)"
proof -
  have "\<forall>c \<in> set (nat_digits n). digit_val c \<noteq> None"
    using set_nat_digits [of _ n] digit_val_char by fastforce
  then show ?thesis using assms(2) by (cases r) (auto simp: takeWhile_append dropWhile_append)
qed

lemma parse_number_port:
  assumes "0 < p"
  shows "parse_number (itoa p @ '','' @ s) = Some (itoa p, '','' @ s)"
proof -
  obtain n where n: "p = int n" "0 < n" using assms by (metis pos_int_cases)
  obtain c t where c: "nat_digits n = c # t" by (cases "nat_digits n") simp_all
  have "c \<noteq> CHR ''0''" using nat_digits_hd [OF n(2)] c by simp
  moreover obtain d where "c = digit_char d" "d < 10" using set_nat_digits [of c n] c by auto
  ultimately have "\<not> has_prefix (c # t @ CHR '','' # s) ''-''" "\<not> has_prefix (c # t @ CHR '','' # s) ''0''"
    using digit_char_plain(2) by (auto simp: has_prefix_def)
  with parse_digits [OF n(2), of "CHR '','' # s"] n c show ?thesis
    by (simp add: parse_number_def itoa_def Let_def has_prefix_def digit_val_def)
qed

lemma parse_quoted:
  "printable s \<Longrightarrow> parse_value (json_quote s @ r) = Some (JStr s, r)"
  by (simp add: json_quote_def parse_value.simps(2) [of "CHR 0x22"] parse_string_escaped has_prefix_def)

lemma parse_port: "0 < p \<Longrightarrow> parse_value (itoa p @ '','' @ s) = Some (JNum (itoa p), '','' @ s)"
proof -
  assume p: "0 < p"
  then obtain n where n: "p = int n" "0 < n" by (metis pos_int_cases)
  obtain c t where c: "nat_digits n = c # t" by (cases "nat_digits n") simp_all
  obtain d where d: "c = digit_char d" "d < 10" using set_nat_digits [of c n] c by auto
  then have b: "byte c = (48 + d :: nat)" by (simp add: digit_char_def)
  have "c \<notin> set ''ntf''" "c \<noteq> CHR 0x22" "c \<noteq> CHR ''[''" "c \<noteq> CHR ''{''"
    using b d(2) by auto
  with parse_number_port [OF p, of s] n c show ?thesis
    by (simp add: itoa_def parse_value.simps(2) [of c] has_prefix_def)
qed

text \<open>One member of the object, with what follows it.\<close>

lemma parse_member:
  assumes "printable k" "parse_value (v @ r) = Some (j, r)" "v \<noteq> []" "\<not> is_ws (hd v)"
  shows "parse_members (json_quote k @ '': '' @ v @ r) =
    (let w = skip_ws r in
     if has_prefix w ''}'' then Some ([(k, j)], drop 1 w)
     else if has_prefix w '','' then
       (let x = skip_ws (drop 1 w) in
        if length x < length (json_quote k @ '': '' @ v @ r)
        then map_option (map_prod ((#) (k, j)) id) (parse_members x) else None)
     else None)"
proof -
  have u: "skip_ws (CHR '' '' # v @ r) = v @ r" using assms(3,4) by (cases v) (auto simp: is_ws_def)
  have ps: "parse_string (json_escape k @ CHR 0x22 # CHR '':'' # CHR '' '' # v @ r) = Some (k, '': '' @ v @ r)"
    using parse_string_escaped [OF assms(1), of "'': '' @ v @ r"] by simp
  show ?thesis
    unfolding parse_members.simps [of "json_quote k @ '': '' @ v @ r"]
    using u ps assms(2) by (simp add: json_quote_def has_prefix_def is_ws_def Let_def)
qed

definition endpoint_fields :: "endpoint \<Rightarrow> jmap" where
  "endpoint_fields ep =
     [(''bind'', JStr (ep_bind ep)), (''port'', JNum (itoa (ep_port ep))), (''path'', JStr (ep_path ep)),
      (''token'', JStr (ep_token ep))]"

definition whole_endpoint :: "endpoint \<Rightarrow> bool" where
  "whole_endpoint ep \<longleftrightarrow>
     ep_bind ep \<noteq> [] \<and> printable (ep_bind ep) \<and> 0 < ep_port ep \<and> ep_port ep \<le> 65535
     \<and> ep_path ep \<noteq> [] \<and> printable (ep_path ep) \<and> ep_token ep \<noteq> [] \<and> printable (ep_token ep)"

lemma quote_start [simp]: "json_quote s \<noteq> []" "\<not> is_ws (hd (json_quote s))"
  by (simp_all add: json_quote_def is_ws_def)

lemma skip_ws_quote: "skip_ws (json_quote s @ r) = json_quote s @ r"
  by (simp add: json_quote_def is_ws_def)

lemma itoa_start: "0 < p \<Longrightarrow> itoa p \<noteq> [] \<and> \<not> is_ws (hd (itoa p))"
proof -
  assume "0 < p"
  then obtain n where n: "itoa p = nat_digits n" by (auto simp: itoa_def)
  obtain c t where c: "nat_digits n = c # t" by (cases "nat_digits n") simp_all
  obtain d where d: "c = digit_char d" "d < 10" using set_nat_digits [of c n] c by auto
  then have "byte c = (48 + d :: nat)" by (simp add: digit_char_def)
  then have "\<not> is_ws c" by (auto simp: is_ws_def)
  with n c show ?thesis by simp
qed

lemma parse_member_more:
  assumes "printable k" "parse_value (v @ '','' @ newline # ''  '' @ t) = Some (j, '','' @ newline # ''  '' @ t)"
    "v \<noteq> []" "\<not> is_ws (hd v)" "skip_ws t = t" "parse_members t = Some (m, r)"
  shows "parse_members (json_quote k @ '': '' @ v @ '','' @ newline # ''  '' @ t) = Some ((k, j) # m, r)"
  using parse_member [OF assms(1,2,3,4)] assms(5,6)
  by (simp add: Let_def has_prefix_def newline_def is_ws_def)

lemma printable_keys:
  "printable ''bind''" "printable ''port''" "printable ''path''" "printable ''token''"
  by (simp_all add: printable_def)

lemma endpoint_text_reads:
  assumes "whole_endpoint ep"
  shows "json_parse (endpoint_text ep) = Some (JObj (endpoint_fields ep))"
proof -
  have w: "printable (ep_bind ep)" "0 < ep_port ep" "printable (ep_path ep)" "printable (ep_token ep)"
    using assms by (simp_all add: whole_endpoint_def)
  define t4 where "t4 = json_quote ''token'' @ '': '' @ json_quote (ep_token ep) @ newline # ''}''"
  define t3 where "t3 = json_quote ''path'' @ '': '' @ json_quote (ep_path ep) @ '','' @ newline # ''  '' @ t4"
  define t2 where "t2 = json_quote ''port'' @ '': '' @ itoa (ep_port ep) @ '','' @ newline # ''  '' @ t3"
  define t1 where "t1 = json_quote ''bind'' @ '': '' @ json_quote (ep_bind ep) @ '','' @ newline # ''  '' @ t2"
  have skips: "skip_ws t4 = t4" "skip_ws t3 = t3" "skip_ws t2 = t2" "skip_ws t1 = t1"
    by (simp_all only: t4_def t3_def t2_def t1_def skip_ws_quote)
  have "parse_members t4 = Some ([(''token'', JStr (ep_token ep))], [])"
    unfolding t4_def
    using parse_member [OF printable_keys(4) parse_quoted [OF w(4), of "newline # ''}''"] quote_start]
    by (simp add: Let_def has_prefix_def newline_def is_ws_def)
  from parse_member_more [OF printable_keys(3) parse_quoted [OF w(3)] quote_start skips(1) this, folded t3_def]
  have "parse_members t3 = Some ([(''path'', JStr (ep_path ep)), (''token'', JStr (ep_token ep))], [])" .
  from parse_member_more [OF printable_keys(2) parse_port [OF w(2)] _ _ skips(2) this, folded t2_def] itoa_start [OF w(2)]
  have "parse_members t2 = Some (tl (endpoint_fields ep), [])" by (simp add: endpoint_fields_def)
  from parse_member_more [OF printable_keys(1) parse_quoted [OF w(1)] quote_start skips(3) this, folded t1_def]
  have m: "parse_members t1 = Some (endpoint_fields ep, [])" by (simp add: endpoint_fields_def)
  have whole: "endpoint_text ep = CHR ''{'' # newline # ''  '' @ t1"
    by (simp add: endpoint_text_def json_line_def t1_def t2_def t3_def t4_def)
  have start: "\<not> has_prefix t1 ''}''" by (simp add: t1_def json_quote_def has_prefix_def)
  have "skip_ws (newline # ''  '' @ t1) = t1" using skips(4) by (simp add: newline_def is_ws_def)
  then have "parse_value (CHR ''{'' # newline # ''  '' @ t1) = Some (JObj (endpoint_fields ep), [])"
    using m start by (simp add: parse_value.simps(2) has_prefix_def [of "CHR ''{'' # _"] Let_def)
  then show ?thesis unfolding whole by (simp add: json_parse_def is_ws_def)
qed

lemma dec_endpoint_fields: "whole_endpoint ep \<Longrightarrow> dec_endpoint (JObj (endpoint_fields ep)) = Some ep"
proof -
  assume w: "whole_endpoint ep"
  then have "parse_int (itoa (ep_port ep)) = Some (ep_port ep)"
    by (intro parse_int_itoa) (simp add: whole_endpoint_def int64_range_def)
  moreover have "field_values k (endpoint_fields ep) = map snd (filter (\<lambda>(k', _). k' = k) (endpoint_fields ep))"
    if "k \<in> {''bind'', ''port'', ''path'', ''token''}" for k
    using that by (auto simp: field_values_def endpoint_fields_def fold_name.simps has_prefix_def lower_char_def)
  ultimately show ?thesis
    by (simp add: dec_endpoint_def struct_fields_def string_field_def) (simp add: endpoint_fields_def)
qed

text \<open>
  What \<open>writeEndpoint\<close> wrote \<open>ReadEndpoint\<close> reads back; a file that was there keeps its permission
  bits, whatever they are.
\<close>

lemma endpoint_path_simps [simp]: "endpoint_path dir \<noteq> []" "proper_path (endpoint_path dir)"
proof -
  have "endpoint_path dir = join_path [] dir @ [''ide-ipc.json'']"
    by (simp add: endpoint_path_def join_path_def [of _ "''ide-ipc.json''"] slash_def)
  moreover have "proper_path (join_path [] dir)" by (rule join_path_proper) simp
  ultimately show "endpoint_path dir \<noteq> []" "proper_path (endpoint_path dir)"
    by (simp_all add: proper_def slash_def)
qed

lemma endpoint_roundtrip:
  assumes "fs_wf (files os)" "safe_path (files os) (endpoint_path dir)" "whole_endpoint ep"
    and "write_endpoint os dir ep = (os', None)"
  shows "read_endpoint (files os') dir = Inr ep"
proof -
  let ?p = "endpoint_path dir"
  have "write_file os ?p (endpoint_text ep) 0x180 = (os', None)"
    using assms(4) by (auto simp: write_endpoint_def split: if_splits prod.splits option.splits)
  from write_file_cases [OF this assms(1,2)] obtain m
    where wf: "fs_wf (files os')" and n: "nodes os' = (nodes os)(?p \<mapsto> File (endpoint_text ep) m)" by auto
  have "safe_path (files os') ?p"
    using assms(2) n by (auto simp: safe_path_def plain_path_def no_link_def)
  from read_content_safe [OF this wf] n have "read_content (files os') ?p = Inr (endpoint_text ep)" by simp
  with endpoint_text_reads [OF assms(3)] dec_endpoint_fields [OF assms(3)] assms(3) show ?thesis
    by (simp add: read_endpoint_def whole_endpoint_def)
qed

lemma endpoint_keeps_mode:
  assumes "fs_wf (files os)" "safe_path (files os) (endpoint_path dir)" "faults os = []" "dir \<noteq> []"
    and "nodes os (endpoint_path dir) = Some (File d m)"
  shows "\<exists>os'. write_endpoint os dir ep = (os', None)
    \<and> nodes os' (endpoint_path dir) = Some (File (endpoint_text ep) m)"
proof -
  have "nodes os (butlast (endpoint_path dir)) = Some Dir"
    using assms(1,5) by (simp add: fs_wf_def)
  with assms safe_walk [OF assms(2,1), of True kernel_links] show ?thesis
    by (simp add: write_endpoint_def write_file_def next_fault_def safe_path_def node_fs_put)
qed

text \<open>\<open>ValidateBind\<close> trims the address it checks, and the bridge listens on the address as it was given.\<close>

lemma validate_bind_trims: "validate_bind '' 127.0.0.1'' = None \<and> parse_ip '' 127.0.0.1'' = None"
  by code_simp

end
