(* ===== verification/Ide_Bridge.thy ===== *)
theory Ide_Bridge
  imports Ide_Endpoint
begin

text \<open>
  \<open>local-agent/internal/idebridge/bridge.go\<close>: the loopback WebSocket server the IDE connects to.
  Each connection is a goroutine; the state keeps for each the place where it stands, and a step is an
  HTTP request, a message read on a connection, a write of one, a broadcast or a call of \<open>SetHandler\<close>,
  \<open>Start\<close> or \<open>Close\<close>. The handshake of the WebSocket library is a parameter, as are the messages and
  the outcomes of writes; the time outs of reads are reads that fail. The frames written and the
  calls of the handler are kept as history, latest last. A read and the call of the handler with its
  message are one step, and \<open>Start\<close> is one step.
\<close>

section \<open>State\<close>

type_synonym 'w frame_handler = "'w \<Rightarrow> string \<Rightarrow> ide_message \<Rightarrow> 'w \<times> ide_message option"

record bridge_options =
  opt_bind :: string
  opt_port :: int
  opt_state_dir :: string
  opt_agent_id :: string

record 'w bridge =
  br_bind :: string
  br_port :: int
  br_state_dir :: string
  br_agent_id :: string
  br_token :: string
  br_handler :: "'w frame_handler option"
  br_started :: bool
  br_endpoint :: endpoint
  br_server :: bool
  br_conns :: "(nat \<times> string) list"

definition no_endpoint :: endpoint where
  "no_endpoint = \<lparr>ep_bind = [], ep_port = 0, ep_path = [], ep_token = []\<rparr>"

definition new_bridge ::
  "u8 list option \<Rightarrow> bridge_options \<Rightarrow> 'w frame_handler option \<Rightarrow> bridge_error + 'w bridge" where
  "new_bridge rnd opts h =
     (case validate_bind (opt_bind opts) of
        Some e \<Rightarrow> Inl e
      | None \<Rightarrow>
          if opt_port opts < 0 \<or> opt_port opts > 65535 then Inl (Port_range (opt_port opts))
          else if opt_state_dir opts = [] then Inl State_dir_required
          else if opt_agent_id opts = [] then Inl Agent_required
          else case new_token rnd of
            Inl e \<Rightarrow> Inl e
          | Inr token \<Rightarrow>
              Inr \<lparr>br_bind = opt_bind opts, br_port = opt_port opts, br_state_dir = opt_state_dir opts,
                   br_agent_id = opt_agent_id opts, br_token = token, br_handler = h, br_started = False,
                   br_endpoint = no_endpoint, br_server = False, br_conns = []\<rparr>)"

definition set_handler :: "'w frame_handler option \<Rightarrow> 'w bridge \<Rightarrow> 'w bridge" where
  "set_handler h b = b\<lparr>br_handler := h\<rparr>"

text \<open>\<open>Start\<close>, given what \<open>net.Listen\<close> answers: an error or the address and port it listens on.\<close>

definition start_bridge ::
  "string + nat list option \<times> int \<Rightarrow> os \<Rightarrow> 'w bridge \<Rightarrow> ('w bridge \<times> os) \<times> bridge_error option" where
  "start_bridge lis os b =
     (if br_started b then ((b, os), Some Already_started)
      else case lis of
        Inl e \<Rightarrow> ((b, os), Some (Listen_failed e))
      | Inr (None, port) \<Rightarrow> ((b, os), Some Listener_refused)
      | Inr (Some ip, port) \<Rightarrow>
          if \<not> is_loopback ip then ((b, os), Some Listener_refused)
          else
            let ep = \<lparr>ep_bind = br_bind b, ep_port = port, ep_path = ''/ipc'', ep_token = br_token b\<rparr> in
            (case write_endpoint os (br_state_dir b) ep of
               (os1, Some e) \<Rightarrow> ((b, os1), Some e)
             | (os1, None) \<Rightarrow>
                 ((b\<lparr>br_started := True, br_server := True, br_endpoint := ep\<rparr>, os1), None)))"

definition get_endpoint :: "'w bridge \<Rightarrow> bridge_error + endpoint" where
  "get_endpoint b =
     (if \<not> br_started b \<or> ep_port (br_endpoint b) = 0 then Inl Not_listening else Inr (br_endpoint b))"

text \<open>The handler of the program is \<open>hub.Handle\<close>.\<close>

definition hub_frames :: "hub frame_handler" where
  "hub_frames h cid m = handle_frame h m"

section \<open>Admission\<close>

record http_request =
  rq_method :: string
  rq_origin :: string
  rq_authorization :: string
  rq_query :: string

datatype ipc_answer = Http_error nat string | Not_upgraded | Upgraded

definition token_matches :: "'w bridge \<Rightarrow> string \<Rightarrow> bool" where
  "token_matches b got =
     (if got = [] \<or> br_token b = [] \<or> length got \<noteq> length (br_token b) then False
      else got = br_token b)"

definition extract_token :: "http_request \<Rightarrow> string" where
  "extract_token rq =
     (let t = trim_space (query_get (rq_query rq) ''token'') in
      if t \<noteq> [] then t
      else if has_prefix (rq_authorization rq) ''Bearer ''
        then trim_space (trim_prefix (rq_authorization rq) ''Bearer '')
      else [])"

definition handle_ipc :: "(http_request \<Rightarrow> bool) \<Rightarrow> 'w bridge \<Rightarrow> http_request \<Rightarrow> ipc_answer" where
  "handle_ipc handshake b rq =
     (if rq_method rq \<noteq> ''GET'' then Http_error 405 ''method not allowed''
      else if \<not> origin_allowed (rq_origin rq) then Http_error 403 ''forbidden origin''
      else if \<not> token_matches b (extract_token rq) then Http_error 401 ''unauthorized''
      else if \<not> (handshake rq \<and> origin_allowed (rq_origin rq)) then Not_upgraded
      else Upgraded)"

section \<open>Connections\<close>

datatype sock =
    Waiting
  | Greeting string string
  | Serving string
  | Replying string ide_message
  | Gone

record 'w ipc =
  ipc_bridge :: "'w bridge"
  ipc_os :: os
  ipc_world :: 'w
  ipc_socks :: "(nat \<times> sock) list"
  ipc_casts :: "(ide_message \<times> nat list) list"
  ipc_http :: "(nat \<times> ipc_answer) list"
  ipc_wrote :: "(nat \<times> ide_message) list"
  ipc_calls :: "(nat \<times> string \<times> ide_message) list"

definition ipc_init :: "'w bridge \<Rightarrow> os \<Rightarrow> 'w \<Rightarrow> 'w ipc" where
  "ipc_init b os w =
     \<lparr>ipc_bridge = b, ipc_os = os, ipc_world = w, ipc_socks = [], ipc_casts = [], ipc_http = [],
      ipc_wrote = [], ipc_calls = []\<rparr>"

definition set_sock :: "nat \<Rightarrow> sock \<Rightarrow> 'w ipc \<Rightarrow> 'w ipc" where
  "set_sock c k st = st\<lparr>ipc_socks := AList.update c k (ipc_socks st)\<rparr>"

definition wrote :: "nat \<Rightarrow> ide_message \<Rightarrow> 'w ipc \<Rightarrow> 'w ipc" where
  "wrote c m st = st\<lparr>ipc_wrote := ipc_wrote st @ [(c, m)]\<rparr>"

definition track_client :: "nat \<Rightarrow> string \<Rightarrow> 'w ipc \<Rightarrow> 'w ipc" where
  "track_client c cid st =
     st\<lparr>ipc_bridge := (ipc_bridge st)\<lparr>br_conns := AList.update c cid (br_conns (ipc_bridge st))\<rparr>\<rparr>"

definition untrack :: "nat \<Rightarrow> 'w ipc \<Rightarrow> 'w ipc" where
  "untrack c st =
     st\<lparr>ipc_bridge := (ipc_bridge st)\<lparr>br_conns := AList.delete c (br_conns (ipc_bridge st))\<rparr>\<rparr>"

definition new_ide_client_id :: "u8 list option \<Rightarrow> string option" where
  "new_ide_client_id rnd = map_option (\<lambda>b. ''ide-'' @ hex_encode b) rnd"

definition registered_message :: "'w bridge \<Rightarrow> string \<Rightarrow> string \<Rightarrow> ide_message" where
  "registered_message b cid mid =
     \<lparr>im_type = ''ide.registered'', im_id = mid,
      im_data = Some [(''ide_client_id'', JStr cid), (''agent_id'', JStr (br_agent_id b))]\<rparr>"

text \<open>The first message of a connection. An error is written when the connection takes it.\<close>

definition refuse_client :: "nat \<Rightarrow> bool \<Rightarrow> ide_message \<Rightarrow> 'w ipc \<Rightarrow> 'w ipc" where
  "refuse_client c writable m st = set_sock c Gone (if writable then wrote c m st else st)"

definition register_client :: "nat \<Rightarrow> string option \<Rightarrow> u8 list option \<Rightarrow> bool \<Rightarrow> 'w ipc \<Rightarrow> 'w ipc" where
  "register_client c raw rnd writable st =
     (case read_frame raw of
        None \<Rightarrow> refuse_client c writable (error_message [] ''INVALID_REQUEST'' ''expected ide.register'') st
      | Some msg \<Rightarrow>
          if im_type msg \<noteq> ''ide.register''
          then refuse_client c writable (error_message (im_id msg) ''UNSUPPORTED'' ''first message must be ide.register'') st
          else if trim_space (get_str (clone_map (im_data msg)) ''ide'') = []
          then refuse_client c writable (error_message (im_id msg) ''INVALID_REQUEST'' ''data.ide is required'') st
          else case new_ide_client_id rnd of
            None \<Rightarrow>
              refuse_client c writable
                (error_message (im_id msg) ''INVALID_REQUEST'' ''failed to allocate ide_client_id'') st
          | Some cid \<Rightarrow> set_sock c (Greeting cid (im_id msg)) (track_client c cid st))"

text \<open>A message of a registered client.\<close>

definition serve_frame :: "nat \<Rightarrow> string \<Rightarrow> string option \<Rightarrow> 'w ipc \<Rightarrow> 'w ipc" where
  "serve_frame c cid raw st =
     (case read_frame raw of
        None \<Rightarrow> set_sock c Gone (untrack c st)
      | Some msg \<Rightarrow>
          (case br_handler (ipc_bridge st) of
             None \<Rightarrow> st
           | Some h \<Rightarrow>
               let (w, reply) = h (ipc_world st) cid msg;
                   st1 = st\<lparr>ipc_world := w, ipc_calls := ipc_calls st @ [(c, cid, msg)]\<rparr>
               in case reply of None \<Rightarrow> st1 | Some r \<Rightarrow> set_sock c (Replying cid r) st1))"

definition accept_request :: "(http_request \<Rightarrow> bool) \<Rightarrow> nat \<Rightarrow> http_request \<Rightarrow> 'w ipc \<Rightarrow> 'w ipc" where
  "accept_request handshake c rq st =
     (if br_server (ipc_bridge st) \<and> map_of (ipc_socks st) c = None then
        (let a = handle_ipc handshake (ipc_bridge st) rq;
             st1 = st\<lparr>ipc_http := ipc_http st @ [(c, a)]\<rparr>
         in if a = Upgraded then set_sock c Waiting st1 else st1)
      else st)"

definition serve_conn :: "nat \<Rightarrow> string option \<Rightarrow> u8 list option \<Rightarrow> bool \<Rightarrow> 'w ipc \<Rightarrow> 'w ipc" where
  "serve_conn c raw rnd writable st =
     (case map_of (ipc_socks st) c of
        Some Waiting \<Rightarrow> register_client c raw rnd writable st
      | Some (Serving cid) \<Rightarrow> serve_frame c cid raw st
      | _ \<Rightarrow> st)"

definition write_pending :: "nat \<Rightarrow> bool \<Rightarrow> 'w ipc \<Rightarrow> 'w ipc" where
  "write_pending c writable st =
     (case map_of (ipc_socks st) c of
        Some (Greeting cid mid) \<Rightarrow>
          if writable
          then set_sock c (Serving cid) (wrote c (registered_message (ipc_bridge st) cid mid) st)
          else set_sock c Gone (untrack c st)
      | Some (Replying cid r) \<Rightarrow> set_sock c (Serving cid) (if writable then wrote c r st else st)
      | _ \<Rightarrow> st)"

text \<open>\<open>Broadcast\<close> takes the clients under the lock and writes to each of them afterwards.\<close>

definition broadcast :: "ide_message \<Rightarrow> 'w ipc \<Rightarrow> 'w ipc" where
  "broadcast m st = st\<lparr>ipc_casts := ipc_casts st @ [(m, map fst (br_conns (ipc_bridge st)))]\<rparr>"

definition deliver :: "nat \<Rightarrow> nat \<Rightarrow> bool \<Rightarrow> 'w ipc \<Rightarrow> 'w ipc" where
  "deliver i c writable st =
     (if i < length (ipc_casts st) \<and> c \<in> set (snd (ipc_casts st ! i)) then
        (let (m, cs) = ipc_casts st ! i;
             st1 = st\<lparr>ipc_casts := (ipc_casts st)[i := (m, removeAll c cs)]\<rparr>
         in if writable \<and> map_of (ipc_socks st) c \<noteq> Some Gone then wrote c m st1 else st1)
      else st)"

text \<open>\<open>Close\<close>: the tracked connections are closed, and their goroutines end at the next read.\<close>

definition close_bridge :: "'w ipc \<Rightarrow> 'w ipc" where
  "close_bridge st =
     (let b = ipc_bridge st in
      (fold (\<lambda>c. set_sock c Gone) (map fst (br_conns b)) st)
        \<lparr>ipc_bridge := b\<lparr>br_conns := [], br_server := False, br_started := False\<rparr>,
         ipc_os := remove_endpoint (ipc_os st) (br_state_dir b)\<rparr>)"

datatype 'w ipc_event =
    Ipc_request nat http_request
  | Ipc_read nat "string option" "u8 list option" bool
  | Ipc_write nat bool
  | Ipc_broadcast ide_message
  | Ipc_deliver nat nat bool
  | Ipc_set_handler "'w frame_handler option"
  | Ipc_start "string + nat list option \<times> int"
  | Ipc_close

fun ipc_step :: "(http_request \<Rightarrow> bool) \<Rightarrow> 'w ipc_event \<Rightarrow> 'w ipc \<Rightarrow> 'w ipc" where
  "ipc_step hs (Ipc_request c rq) st = accept_request hs c rq st"
| "ipc_step hs (Ipc_read c raw rnd writable) st = serve_conn c raw rnd writable st"
| "ipc_step hs (Ipc_write c writable) st = write_pending c writable st"
| "ipc_step hs (Ipc_broadcast m) st = broadcast m st"
| "ipc_step hs (Ipc_deliver i c writable) st = deliver i c writable st"
| "ipc_step hs (Ipc_set_handler h) st = st\<lparr>ipc_bridge := set_handler h (ipc_bridge st)\<rparr>"
| "ipc_step hs (Ipc_start lis) st =
     (let ((b, os), _) = start_bridge lis (ipc_os st) (ipc_bridge st) in st\<lparr>ipc_bridge := b, ipc_os := os\<rparr>)"
| "ipc_step hs Ipc_close st = close_bridge st"

definition ipc_run :: "(http_request \<Rightarrow> bool) \<Rightarrow> 'w ipc_event list \<Rightarrow> 'w ipc \<Rightarrow> 'w ipc" where
  "ipc_run hs evs st = fold (ipc_step hs) evs st"

section \<open>Who reaches the handler\<close>

text \<open>What events did, in order: each predicate holds of an event, later ones of later events.\<close>

definition happened :: "('e \<Rightarrow> bool) list \<Rightarrow> 'e list \<Rightarrow> bool" where
  "happened ps evs \<longleftrightarrow> (\<exists>es. subseq es evs \<and> list_all2 (\<lambda>p e. p e) ps es)"

lemma happened_more: "happened ps evs \<Longrightarrow> happened ps (evs @ [e])"
  unfolding happened_def by (meson subseq_order.trans list_emb_prefix subseq_order.refl)

lemma happened_then: "happened ps evs \<Longrightarrow> p e \<Longrightarrow> happened (ps @ [p]) (evs @ [e])"
  unfolding happened_def
  by (metis list_all2_appendI list_all2_Cons list_all2_Nil subseq_order.refl list_emb_append_mono)

lemma happened_butlast: "happened (ps @ [p]) evs \<Longrightarrow> happened ps evs"
  unfolding happened_def list_all2_append1
  by (meson list_emb_prefix subseq_order.refl subseq_order.trans)

text \<open>A request that is upgraded, a message that registers a client, a write that succeeds, a message.\<close>

fun admits :: "(http_request \<Rightarrow> bool) \<Rightarrow> string \<Rightarrow> nat \<Rightarrow> 'w ipc_event \<Rightarrow> bool" where
  "admits hs token c (Ipc_request c' rq) \<longleftrightarrow> c' = c \<and> rq_method rq = ''GET'' \<and> origin_allowed (rq_origin rq)
     \<and> token \<noteq> [] \<and> extract_token rq = token \<and> hs rq"
| "admits hs token c _ = False"

fun registers :: "nat \<Rightarrow> string \<Rightarrow> 'w ipc_event \<Rightarrow> bool" where
  "registers c cid (Ipc_read c' raw rnd writable) \<longleftrightarrow> c' = c \<and> new_ide_client_id rnd = Some cid
     \<and> (case read_frame raw of
          None \<Rightarrow> False
        | Some m \<Rightarrow> im_type m = ''ide.register'' \<and> trim_space (get_str (clone_map (im_data m)) ''ide'') \<noteq> [])"
| "registers c cid _ = False"

fun writes :: "nat \<Rightarrow> 'w ipc_event \<Rightarrow> bool" where
  "writes c (Ipc_write c' writable) \<longleftrightarrow> c' = c \<and> writable"
| "writes c _ = False"

fun reads :: "nat \<Rightarrow> ide_message \<Rightarrow> 'w ipc_event \<Rightarrow> bool" where
  "reads c m (Ipc_read c' raw rnd writable) \<longleftrightarrow> c' = c \<and> read_frame raw = Some m"
| "reads c m _ = False"

text \<open>What holds of a connection, by the place where its goroutine stands.\<close>

definition is_greeting :: "string \<Rightarrow> string \<Rightarrow> ide_message \<Rightarrow> bool" where
  "is_greeting agent cid m \<longleftrightarrow> im_type m = ''ide.registered''
     \<and> im_data m = Some [(''ide_client_id'', JStr cid), (''agent_id'', JStr agent)]"

definition sock_ok ::
  "(http_request \<Rightarrow> bool) \<Rightarrow> 'w bridge \<Rightarrow> 'w ipc_event list \<Rightarrow> (nat \<times> ide_message) list \<Rightarrow> nat \<Rightarrow> sock \<Rightarrow> bool" where
  "sock_ok hs b evs out c k =
     (case k of
        Waiting \<Rightarrow> happened [admits hs (br_token b) c] evs
      | Greeting cid mid \<Rightarrow> happened [admits hs (br_token b) c, registers c cid] evs
      | Gone \<Rightarrow> True
      | Serving cid \<Rightarrow> happened [admits hs (br_token b) c, registers c cid, writes c] evs
          \<and> (\<exists>m. (c, m) \<in> set out \<and> is_greeting (br_agent_id b) cid m)
      | Replying cid r \<Rightarrow> happened [admits hs (br_token b) c, registers c cid, writes c] evs
          \<and> (\<exists>m. (c, m) \<in> set out \<and> is_greeting (br_agent_id b) cid m))"

definition client_ok :: "(http_request \<Rightarrow> bool) \<Rightarrow> 'w bridge \<Rightarrow> 'w ipc_event list \<Rightarrow> nat \<Rightarrow> bool" where
  "client_ok hs b evs c \<longleftrightarrow> (\<exists>cid. happened [admits hs (br_token b) c, registers c cid] evs)"

definition wrote_ok :: "(http_request \<Rightarrow> bool) \<Rightarrow> 'w bridge \<Rightarrow> 'w ipc_event list \<Rightarrow> nat \<times> ide_message \<Rightarrow> bool" where
  "wrote_ok hs b evs cm \<longleftrightarrow> happened [admits hs (br_token b) (fst cm)] evs
     \<and> (im_type (snd cm) = ''error'' \<or> client_ok hs b evs (fst cm))"

definition call_ok ::
  "(http_request \<Rightarrow> bool) \<Rightarrow> 'w bridge \<Rightarrow> 'w ipc_event list \<Rightarrow> (nat \<times> ide_message) list
    \<Rightarrow> nat \<times> string \<times> ide_message \<Rightarrow> bool" where
  "call_ok hs b evs out call =
     (case call of (c, cid, m) \<Rightarrow>
        happened [admits hs (br_token b) c, registers c cid, writes c, reads c m] evs
        \<and> (\<exists>g. (c, g) \<in> set out \<and> is_greeting (br_agent_id b) cid g))"

definition ipc_inv :: "(http_request \<Rightarrow> bool) \<Rightarrow> 'w bridge \<Rightarrow> 'w ipc_event list \<Rightarrow> 'w ipc \<Rightarrow> bool" where
  "ipc_inv hs b evs st \<longleftrightarrow>
     br_token (ipc_bridge st) = br_token b \<and> br_agent_id (ipc_bridge st) = br_agent_id b
     \<and> (\<forall>c k. map_of (ipc_socks st) c = Some k \<longrightarrow> sock_ok hs b evs (ipc_wrote st) c k)
     \<and> list_all (client_ok hs b evs) (map fst (br_conns (ipc_bridge st)))
     \<and> list_all (\<lambda>cast. list_all (client_ok hs b evs) (snd cast)) (ipc_casts st)
     \<and> list_all (wrote_ok hs b evs) (ipc_wrote st)
     \<and> list_all (call_ok hs b evs (ipc_wrote st)) (ipc_calls st)"

section \<open>The invariant is kept\<close>

named_theorems ipc_keeps

lemma later_ok:
  "sock_ok hs b evs out c k \<Longrightarrow> sock_ok hs b (evs @ [e]) out c k"
  "client_ok hs b evs c \<Longrightarrow> client_ok hs b (evs @ [e]) c"
  "wrote_ok hs b evs cm \<Longrightarrow> wrote_ok hs b (evs @ [e]) cm"
  "call_ok hs b evs out call \<Longrightarrow> call_ok hs b (evs @ [e]) out call"
proof -
  show c: "client_ok hs b evs c \<Longrightarrow> client_ok hs b (evs @ [e]) c" for c
    by (auto simp: client_ok_def intro: happened_more)
  show "sock_ok hs b evs out c k \<Longrightarrow> sock_ok hs b (evs @ [e]) out c k"
    by (cases k) (auto simp: sock_ok_def intro: happened_more)
  show "wrote_ok hs b evs cm \<Longrightarrow> wrote_ok hs b (evs @ [e]) cm"
    by (auto simp: wrote_ok_def intro: happened_more c)
  show "call_ok hs b evs out call \<Longrightarrow> call_ok hs b (evs @ [e]) out call"
    by (auto simp: call_ok_def intro: happened_more)
qed

lemma inv_more: "ipc_inv hs b evs st \<Longrightarrow> ipc_inv hs b (evs @ [e]) st"
  by (auto simp: ipc_inv_def intro: later_ok elim!: list.pred_mono_strong)

lemma keep_set_sock [ipc_keeps]:
  "ipc_inv hs b evs st \<Longrightarrow> sock_ok hs b evs (ipc_wrote st) c k \<Longrightarrow> ipc_inv hs b evs (set_sock c k st)"
  by (auto simp: ipc_inv_def set_sock_def update_conv')

lemma wrote_more:
  "sock_ok hs b evs out c k \<Longrightarrow> sock_ok hs b evs (out @ out') c k"
  "call_ok hs b evs out call \<Longrightarrow> call_ok hs b evs (out @ out') call"
  by (cases k; auto simp: sock_ok_def) (auto simp: call_ok_def)

lemma keep_wrote [ipc_keeps]:
  "ipc_inv hs b evs st \<Longrightarrow> wrote_ok hs b evs (c, m) \<Longrightarrow> ipc_inv hs b evs (wrote c m st)"
  by (auto simp: ipc_inv_def wrote_def intro: wrote_more elim!: list.pred_mono_strong)

lemma keep_track [ipc_keeps]:
  "ipc_inv hs b evs st \<Longrightarrow> client_ok hs b evs c \<Longrightarrow> ipc_inv hs b evs (track_client c cid st)"
  using keys_update [of c cid "br_conns (ipc_bridge st)"]
  by (auto simp: ipc_inv_def track_client_def list_all_iff)

lemma keep_untrack [ipc_keeps]: "ipc_inv hs b evs st \<Longrightarrow> ipc_inv hs b evs (untrack c st)"
  using delete_keys [of c "br_conns (ipc_bridge st)"]
  by (auto simp: ipc_inv_def untrack_def list_all_iff)

lemma sock_at: "ipc_inv hs b evs st \<Longrightarrow> map_of (ipc_socks st) c = Some k \<Longrightarrow> sock_ok hs b evs (ipc_wrote st) c k"
  by (simp add: ipc_inv_def)

lemma gone_ok [simp]: "sock_ok hs b evs out c Gone"
  by (simp add: sock_ok_def)

lemma keep_refuse [ipc_keeps]:
  "ipc_inv hs b evs st \<Longrightarrow> happened [admits hs (br_token b) c] evs \<Longrightarrow> im_type m = ''error'' \<Longrightarrow>
    ipc_inv hs b evs (refuse_client c writable m st)"
  unfolding refuse_client_def by (auto simp: wrote_ok_def intro!: ipc_keeps)

lemma keep_update [ipc_keeps]:
  "ipc_inv hs b evs st \<Longrightarrow> ipc_inv hs b evs (st\<lparr>ipc_http := x\<rparr>)"
  "ipc_inv hs b evs st \<Longrightarrow> call_ok hs b evs (ipc_wrote st) call \<Longrightarrow>
    ipc_inv hs b evs (st\<lparr>ipc_world := w, ipc_calls := ipc_calls st @ [call]\<rparr>)"
  by (simp_all add: ipc_inv_def)

lemma client_wrote_ok: "client_ok hs b evs c \<Longrightarrow> wrote_ok hs b evs (c, m)"
  using happened_butlast [of "[admits hs (br_token b) c]" _ evs] by (auto simp: client_ok_def wrote_ok_def)

lemma served_client:
  assumes "happened [admits hs (br_token b) c, registers c cid, writes c] evs"
  shows "client_ok hs b evs c"
  using happened_butlast [of "[admits hs (br_token b) c, registers c cid]" "writes c" evs] assms
  by (auto simp: client_ok_def)

lemma request_keeps: "ipc_inv hs b evs st \<Longrightarrow> ipc_inv hs b (evs @ [Ipc_request c rq]) (accept_request hs c rq st)"
proof -
  let ?e = "Ipc_request c rq" and ?evs = "evs @ [Ipc_request c rq]"
  assume inv: "ipc_inv hs b evs st"
  have "sock_ok hs b ?evs out c Waiting" if "handle_ipc hs (ipc_bridge st) rq = Upgraded" for out
  proof -
    have "admits hs (br_token b) c ?e"
      using that inv by (auto simp: handle_ipc_def token_matches_def ipc_inv_def split: if_splits)
    moreover have "happened [] evs" by (simp add: happened_def)
    ultimately have "happened ([] @ [admits hs (br_token b) c]) ?evs" by (rule happened_then [rotated])
    then show ?thesis by (simp add: sock_ok_def)
  qed
  with inv_more [OF inv, of ?e] show ?thesis
    by (auto simp: accept_request_def Let_def intro!: ipc_keeps)
qed

lemma register_keeps:
  fixes st :: "'w ipc"
  assumes "ipc_inv hs b evs st" "happened [admits hs (br_token b) c] evs"
  shows "ipc_inv hs b (evs @ [Ipc_read c raw rnd writable]) (register_client c raw rnd writable st)"
proof -
  let ?e = "Ipc_read c raw rnd writable :: 'w ipc_event"
  have reg: "happened [admits hs (br_token b) c, registers c cid] (evs @ [?e])" if "registers c cid ?e" for cid
    using happened_then [OF assms(2), of "registers c cid" ?e] that by simp
  note inv = inv_more [OF assms(1), of ?e] and adm = happened_more [OF assms(2), of ?e]
  show ?thesis
  proof (cases "\<exists>cid. registers c cid ?e")
    case True
    then obtain cid where cid: "registers c cid ?e" ..
    then obtain m where m: "read_frame raw = Some m" "new_ide_client_id rnd = Some cid"
      "im_type m = ''ide.register''" "trim_space (get_str (clone_map (im_data m)) ''ide'') \<noteq> []"
      by (auto split: option.splits)
    then have "register_client c raw rnd writable st = set_sock c (Greeting cid (im_id m)) (track_client c cid st)"
      by (simp add: register_client_def)
    with reg [OF cid] inv show ?thesis
      by (auto simp: client_ok_def sock_ok_def intro!: ipc_keeps)
  next
    case False
    with inv adm show ?thesis
      by (auto simp: register_client_def error_message_def split: option.split intro!: keep_refuse)
  qed
qed

lemma serve_keeps:
  assumes "ipc_inv hs b evs st" "sock_ok hs b evs (ipc_wrote st) c (Serving cid)"
  shows "ipc_inv hs b (evs @ [Ipc_read c raw rnd writable]) (serve_frame c cid raw st)"
proof -
  let ?e = "Ipc_read c raw rnd writable"
  note inv = inv_more [OF assms(1), of ?e] and sock = later_ok(1) [OF assms(2), of ?e]
  have call: "call_ok hs b (evs @ [?e]) (ipc_wrote st) (c, cid, m)" if "read_frame raw = Some m" for m
    using happened_then [of "[admits hs (br_token b) c, registers c cid, writes c]" evs "reads c m" ?e] that assms(2)
    by (auto simp: call_ok_def sock_ok_def)
  have "sock_ok hs b (evs @ [?e]) (ipc_wrote st) c (Replying cid r)" for r
    using sock by (simp add: sock_ok_def)
  with inv call show ?thesis
    by (auto simp: serve_frame_def Let_def split: option.splits prod.splits intro!: ipc_keeps)
qed

lemma write_keeps: "ipc_inv hs b evs st \<Longrightarrow> ipc_inv hs b (evs @ [Ipc_write c writable]) (write_pending c writable st)"
proof -
  let ?e = "Ipc_write c writable"
  assume i: "ipc_inv hs b evs st"
  note inv = inv_more [OF i, of ?e]
  show ?thesis
  proof (cases "map_of (ipc_socks st) c")
    case (Some k)
    note ok = sock_at [OF i Some]
    show ?thesis
    proof (cases k)
      case (Greeting cid mid)
      let ?m = "registered_message (ipc_bridge st) cid mid"
      have g: "happened [admits hs (br_token b) c, registers c cid] evs" using ok Greeting by (simp add: sock_ok_def)
      then have w: "wrote_ok hs b (evs @ [?e]) (c, ?m)"
        by (intro client_wrote_ok later_ok(2)) (auto simp: client_ok_def)
      have "happened [admits hs (br_token b) c, registers c cid, writes c] (evs @ [?e])" if writable
        using happened_then [OF g, of "writes c" ?e] that by simp
      moreover have "is_greeting (br_agent_id b) cid ?m" using i by (simp add: is_greeting_def registered_message_def ipc_inv_def)
      ultimately have "writable \<Longrightarrow> sock_ok hs b (evs @ [?e]) (ipc_wrote (wrote c ?m st)) c (Serving cid)"
        by (auto simp: sock_ok_def wrote_def)
      with Some Greeting inv w show ?thesis by (auto simp: write_pending_def intro!: ipc_keeps)
    next
      case (Replying cid r)
      then have s: "sock_ok hs b (evs @ [?e]) (ipc_wrote st) c (Serving cid)"
        using later_ok(1) [OF ok] by (simp add: sock_ok_def)
      then have "wrote_ok hs b (evs @ [?e]) (c, r)" by (auto simp: sock_ok_def intro: client_wrote_ok served_client)
      moreover have "sock_ok hs b (evs @ [?e]) (ipc_wrote (wrote c r st)) c (Serving cid)"
        using wrote_more(1) [OF s, of "[(c, r)]"] by (simp add: wrote_def)
      ultimately show ?thesis using Some Replying inv s
        by (auto simp: write_pending_def intro!: ipc_keeps)
    qed (use Some inv in \<open>simp_all add: write_pending_def\<close>)
  qed (use inv in \<open>simp add: write_pending_def\<close>)
qed

lemma deliver_keeps: "ipc_inv hs b evs st \<Longrightarrow> ipc_inv hs b evs (deliver i c writable st)"
proof -
  assume inv: "ipc_inv hs b evs st"
  show ?thesis
  proof (cases "i < length (ipc_casts st) \<and> c \<in> set (snd (ipc_casts st ! i))")
    case True
    obtain m cs where mc: "ipc_casts st ! i = (m, cs)" by fastforce
    with inv True have cs: "list_all (client_ok hs b evs) cs"
      by (metis ipc_inv_def list_all_length snd_conv)
    with True mc have "client_ok hs b evs c" by (auto simp: list_all_iff)
    then have w: "wrote_ok hs b evs (c, m)" by (rule client_wrote_ok)
    have "ipc_inv hs b evs (st\<lparr>ipc_casts := (ipc_casts st)[i := (m, removeAll c cs)]\<rparr>)"
      using inv cs True set_update_subset_insert [of "ipc_casts st" i "(m, removeAll c cs)"]
      by (auto simp: ipc_inv_def list_all_iff)
    with True mc w show ?thesis by (auto simp: deliver_def Let_def intro!: ipc_keeps)
  qed (use inv in \<open>auto simp: deliver_def\<close>)
qed

lemma start_keeps: "ipc_inv hs b evs st \<Longrightarrow> ipc_inv hs b evs (ipc_step hs (Ipc_start lis) st)"
  by (auto simp: ipc_inv_def start_bridge_def Let_def split: sum.splits option.splits prod.splits if_splits)

lemma close_keeps: "ipc_inv hs b evs st \<Longrightarrow> ipc_inv hs b evs (close_bridge st)"
proof -
  assume inv: "ipc_inv hs b evs st"
  then have "ipc_inv hs b evs (fold (\<lambda>c. set_sock c Gone) cs st)" for cs
    by (induction cs arbitrary: st) (auto simp: ipc_keeps)
  from this [of "map fst (br_conns (ipc_bridge st))"] inv show ?thesis
    by (simp add: close_bridge_def Let_def ipc_inv_def)
qed

lemma step_keeps: "ipc_inv hs b evs st \<Longrightarrow> ipc_inv hs b (evs @ [e]) (ipc_step hs e st)"
proof (cases e)
  case (Ipc_read c raw rnd writable)
  assume inv: "ipc_inv hs b evs st"
  show ?thesis
  proof (cases "map_of (ipc_socks st) c")
    case (Some k)
    note ok = sock_at [OF inv Some]
    show ?thesis
      using Ipc_read Some inv ok register_keeps [OF inv] serve_keeps [OF inv] inv_more [OF inv, of e]
      by (cases k) (auto simp: serve_conn_def sock_ok_def [of _ _ _ _ _ Waiting])
  qed (use Ipc_read inv_more [OF inv, of e] in \<open>simp add: serve_conn_def\<close>)
next
  case (Ipc_broadcast m)
  assume "ipc_inv hs b evs st"
  with inv_more [OF this, of e] Ipc_broadcast show ?thesis by (simp add: ipc_inv_def broadcast_def)
next
  case (Ipc_set_handler h)
  assume "ipc_inv hs b evs st"
  with inv_more [OF this, of e] Ipc_set_handler show ?thesis by (simp add: ipc_inv_def set_handler_def)
qed (use inv_more start_keeps in \<open>fastforce intro: request_keeps write_keeps deliver_keeps close_keeps\<close>)+

lemma run_keeps: "ipc_inv hs b evs st \<Longrightarrow> ipc_inv hs b (evs @ evs') (ipc_run hs evs' st)"
proof (induction evs' arbitrary: evs st)
  case (Cons e es)
  from Cons.IH [OF step_keeps [OF Cons.prems, of e]] show ?case by (simp add: ipc_run_def)
qed (simp add: ipc_run_def)

text \<open>
  C9. Whatever the connections send and however they interleave with broadcasts, restarts and changes of
  the handler: the handler is called for a message of a connection only after an HTTP request of that
  connection with method GET, an allowed origin and the session token, then a message that registers it
  with the client identifier it is called with, then the answer with that identifier. A frame is written
  to admitted connections only, and to an unregistered one only an error.
\<close>

theorem handler_needs_admission:
  assumes "new_bridge rnd opts h = Inr b" "ipc_run hs evs (ipc_init b os w) = st"
  shows "(\<forall>(c, cid, m) \<in> set (ipc_calls st).
        happened [admits hs (br_token b) c, registers c cid, writes c, reads c m] evs
        \<and> (\<exists>g. (c, g) \<in> set (ipc_wrote st) \<and> is_greeting (opt_agent_id opts) cid g))
    \<and> (\<forall>(c, m) \<in> set (ipc_wrote st).
        happened [admits hs (br_token b) c] evs
        \<and> (im_type m = ''error'' \<or> (\<exists>cid. happened [admits hs (br_token b) c, registers c cid] evs)))"
proof -
  have b: "br_conns b = []" "br_agent_id b = opt_agent_id opts"
    using assms(1) by (auto simp: new_bridge_def split: option.splits if_splits sum.splits)
  then have "ipc_inv hs b [] (ipc_init b os w)" by (simp add: ipc_inv_def ipc_init_def)
  from run_keeps [OF this, of evs] assms(2) have "ipc_inv hs b evs st" by simp
  with b(2) show ?thesis
    by (simp add: ipc_inv_def list_all_iff call_ok_def wrote_ok_def client_ok_def case_prod_unfold)
qed

section \<open>A session\<close>

text \<open>\<open>main.go\<close> sets the hub's \<open>Handle\<close> as the handler; it ignores the client identifier.\<close>

definition demo_options :: bridge_options where
  "demo_options = \<lparr>opt_bind = ''127.0.0.1'', opt_port = 0, opt_state_dir = ''/s'', opt_agent_id = ''a1''\<rparr>"

definition demo_bridge :: "hub bridge" where
  "demo_bridge =
     \<lparr>br_bind = ''127.0.0.1'', br_port = 0, br_state_dir = ''/s'', br_agent_id = ''a1'',
      br_token = ''07ff'', br_handler = None, br_started = False, br_endpoint = no_endpoint,
      br_server = False, br_conns = []\<rparr>"

definition demo_ipc :: "hub ipc" where
  "demo_ipc = ipc_init demo_bridge \<lparr>files = [([''s''], Dir)], umask = 0, faults = [], undo_faults = []\<rparr>
     (new_hub None True [] None None None 0
        \<lparr>files = [([''s''], Dir)], umask = 0, faults = [], undo_faults = []\<rparr>)"

definition demo_frame :: ide_message where
  "demo_frame = \<lparr>im_type = ''x'', im_id = [], im_data = None\<rparr>"

definition demo_register :: string where
  "demo_register = ''{\"type\":\"ide.register\",\"data\":{\"ide\":\"v\"}}''"

definition demo_upgrade :: http_request where
  "demo_upgrade = \<lparr>rq_method = ''GET'', rq_origin = [], rq_authorization = ''Bearer 07ff'', rq_query = []\<rparr>"

definition demo_ipc_events :: "hub ipc_event list" where
  "demo_ipc_events =
     [Ipc_set_handler (Some hub_frames), Ipc_start (Inr (Some (replicate 15 0 @ [1]), 4000)),
      Ipc_request 1 demo_upgrade, Ipc_read 1 (Some demo_register) (Some [2]) True,
      Ipc_write 1 True, Ipc_read 1 (Some ''{\"type\":\"x\"}'') None True]"

lemma demo_new_bridge: "new_bridge (Some [7, 0xFF]) demo_options None = Inr demo_bridge"
proof -
  have "validate_bind ''127.0.0.1'' = None" "hex_encode [7, 0xFF] = ''07ff''" by code_simp+
  then show ?thesis by (simp add: new_bridge_def demo_options_def demo_bridge_def new_token_def)
qed

lemma demo_frames:
  "read_frame (Some demo_register) = Some \<lparr>im_type = ''ide.register'', im_id = [], im_data = Some [(''ide'', JStr ''v'')]\<rparr>"
  "read_frame (Some ''{\"type\":\"x\"}'') = Some demo_frame"
proof -
  have p: "parse_value (skip_ws demo_register)
      = Some (JObj [(''type'', JStr ''ide.register''), (''data'', JObj [(''ide'', JStr ''v'')])], [])"
    "parse_value (skip_ws ''{\"type\":\"x\"}'') = Some (JObj [(''type'', JStr ''x'')], [])"
    by code_simp+
  have d: "dec_message (JObj [(''type'', JStr ''ide.register''), (''data'', JObj [(''ide'', JStr ''v'')])])
      = Some \<lparr>im_type = ''ide.register'', im_id = [], im_data = Some [(''ide'', JStr ''v'')]\<rparr>"
    "dec_message (JObj [(''type'', JStr ''x'')]) = Some demo_frame"
    by code_simp+
  show "read_frame (Some demo_register) = Some \<lparr>im_type = ''ide.register'', im_id = [], im_data = Some [(''ide'', JStr ''v'')]\<rparr>"
    using p(1) d(1) by (simp add: read_frame_def max_message_bytes_def) (simp add: demo_register_def)
  show "read_frame (Some ''{\"type\":\"x\"}'') = Some demo_frame"
    using p(2) d(2) by (simp add: read_frame_def max_message_bytes_def del: skip_ws_simps)
qed

lemma demo_started:
  "\<exists>os. start_bridge (Inr (Some (replicate 15 0 @ [1]), 4000)) (ipc_os demo_ipc) (demo_bridge\<lparr>br_handler := h\<rparr>)
    = ((demo_bridge\<lparr>br_handler := h, br_started := True, br_server := True,
        br_endpoint := \<lparr>ep_bind = ''127.0.0.1'', ep_port = 4000, ep_path = ''/ipc'', ep_token = ''07ff''\<rparr>\<rparr>, os), None)"
proof -
  have p: "endpoint_path ''/s'' = [''s'', ''ide-ipc.json'']" "is_loopback (replicate 15 0 @ [1])" by code_simp+
  have "\<exists>os. write_endpoint (ipc_os demo_ipc) ''/s'' ep = (os, None)" for ep
    by (simp add: write_endpoint_def p(1) write_file_def next_fault_def demo_ipc_def ipc_init_def has_nul_def node_at_def)
  then obtain os where "write_endpoint (ipc_os demo_ipc) ''/s''
      \<lparr>ep_bind = ''127.0.0.1'', ep_port = 4000, ep_path = ''/ipc'', ep_token = ''07ff''\<rparr> = (os, None)" by blast
  then show ?thesis using p(2) by (simp add: start_bridge_def demo_bridge_def Let_def)
qed

lemma demo_admitted: "br_token b = ''07ff'' \<Longrightarrow> handle_ipc (\<lambda>_. True) b demo_upgrade = Upgraded"
proof -
  have "extract_token demo_upgrade = ''07ff''" "origin_allowed []" by code_simp+
  then show "br_token b = ''07ff'' \<Longrightarrow> handle_ipc (\<lambda>_. True) b demo_upgrade = Upgraded"
    by (simp add: handle_ipc_def token_matches_def) (simp add: demo_upgrade_def)
qed

theorem handler_needs_admission_witness:
  "(1, ''ide-02'', demo_frame) \<in> set (ipc_calls (ipc_run (\<lambda>_. True) demo_ipc_events demo_ipc))
    \<and> happened [admits (\<lambda>_. True) ''07ff'' 1, registers 1 ''ide-02'', writes 1, reads 1 demo_frame] demo_ipc_events"
proof -
  have c: "(1, ''ide-02'', demo_frame) \<in> set (ipc_calls (ipc_run (\<lambda>_. True) demo_ipc_events demo_ipc))"
  proof -
    obtain os where st: "start_bridge (Inr (Some (replicate 15 0 @ [1]), 4000)) (ipc_os demo_ipc)
        (demo_bridge\<lparr>br_handler := Some hub_frames\<rparr>)
      = ((demo_bridge\<lparr>br_handler := Some hub_frames, br_started := True, br_server := True,
          br_endpoint := \<lparr>ep_bind = ''127.0.0.1'', ep_port = 4000, ep_path = ''/ipc'', ep_token = ''07ff''\<rparr>\<rparr>, os), None)"
      using demo_started by blast
    have "hex_encode [2] = ''02''" "trim_space ''v'' = ''v''" "br_token demo_bridge = ''07ff''" by code_simp+
    with st show ?thesis
      by (simp add: ipc_run_def demo_ipc_events_def set_handler_def demo_ipc_def ipc_init_def accept_request_def
          demo_admitted set_sock_def serve_conn_def register_client_def demo_frames new_ide_client_id_def get_str_def clone_map_def
          track_client_def write_pending_def wrote_def serve_frame_def hub_frames_def Let_def split: prod.splits option.splits)
  qed
  from handler_needs_admission [OF demo_new_bridge refl,
      of "\<lambda>_. True" demo_ipc_events "ipc_os demo_ipc" "ipc_world demo_ipc"] c
  have "happened [admits (\<lambda>_. True) (br_token demo_bridge) 1, registers 1 ''ide-02'', writes 1, reads 1 demo_frame] demo_ipc_events"
    by (auto simp: demo_ipc_def ipc_init_def)
  with c show ?thesis by (simp add: demo_bridge_def)
qed

section \<open>What the comments say otherwise\<close>

text \<open>A handler set later does serve the connections that are open.\<close>

lemma set_handler_is_retroactive:
  assumes "map_of (ipc_socks st) c = Some (Serving cid)" "read_frame raw = Some m"
  shows "ipc_calls (ipc_run hs [Ipc_set_handler (Some h), Ipc_read c raw rnd writable] st)
    = ipc_calls st @ [(c, cid, m)]"
  using assms
  by (auto simp: ipc_run_def set_handler_def serve_conn_def serve_frame_def Let_def set_sock_def
      split: prod.split option.split)

text \<open>\<open>Close\<close> leaves a connection alone that has not registered yet: it can register and be served later.\<close>

lemma close_misses_waiting:
  assumes "map_of (ipc_socks st) c = Some Waiting" "c \<notin> fst ` set (br_conns (ipc_bridge st))"
    and "registers c cid (Ipc_read c raw rnd True)"
  shows "map_of (ipc_socks (ipc_run hs [Ipc_close, Ipc_read c raw rnd True, Ipc_write c True] st)) c
    = Some (Serving cid)"
proof -
  have "map_of (ipc_socks (fold (\<lambda>c. set_sock c Gone) cs st)) c = map_of (ipc_socks st) c" if "c \<notin> set cs" for cs
    using that by (induction cs arbitrary: st) (auto simp: set_sock_def update_conv')
  from this [of "map fst (br_conns (ipc_bridge st))"] assms have
    "map_of (ipc_socks (close_bridge st)) c = Some Waiting"
    by (simp add: close_bridge_def Let_def)
  with assms(3) show ?thesis
    by (auto simp: ipc_run_def serve_conn_def register_client_def write_pending_def set_sock_def update_conv'
        track_client_def wrote_def split: option.splits)
qed

text \<open>A bridge started again after \<open>Close\<close> uses the token it had.\<close>

lemma restart_keeps_token:
  "start_bridge lis (ipc_os st') (ipc_bridge (close_bridge st)) = ((b, os), None) \<Longrightarrow>
    get_endpoint b = Inr ep \<Longrightarrow> ep_token ep = br_token (ipc_bridge st)"
  by (auto simp: start_bridge_def close_bridge_def get_endpoint_def Let_def
      split: sum.splits option.splits if_splits prod.splits)

end
