(* ===== verification/Agent_Main.thy ===== *)
theory Agent_Main
  imports Agent_Core Ide_Bridge Transport_Grpc
begin

text \<open>
  \<open>local-agent/cmd/oncode-agent/main.go\<close>: how the parts of the program are put together. The
  configuration, the agent, the hub and the bridge are made in this order, and with a workspace on the
  command line the hub works on the registry and the proposals of the agent. The program's state keeps
  the shared registry, proposals and files once; the agent and the hub see them through a view. A
  request of the server, an event of the server and a frame of the IDE are one step each: the claim on
  a proposal, which keeps two applies apart that run at the same time, is in \<open>Proposal_Lifecycle\<close>.
\<close>

section \<open>Starting\<close>

text \<open>What the process finds when it starts, and what its random source, listener and server answer.\<close>

record launch =
  la_getenv :: "string \<Rightarrow> string"
  la_cwd :: path
  la_workspace :: string
  la_machine :: machine
  la_platform :: platform
  la_stamp :: "int \<Rightarrow> string"
  la_agent_random :: "u8 list option"
  la_ws_random :: "u8 list option"
  la_now :: int
  la_dial :: "string option"
  la_open :: "string option"
  la_send :: "string \<Rightarrow> json \<Rightarrow> string option"
  la_token_random :: "u8 list option"
  la_listen :: "string + nat list option \<times> int"

datatype exit_error =
    Exit_config config_error
  | Exit_agent string
  | Exit_register go_error
  | Exit_bridge bridge_error
  | Exit_listen bridge_error

record program =
  pg_agent :: agent
  pg_registry :: registry
  pg_proposals :: proposal_store
  pg_os :: os
  pg_log :: "tool_event list"
  pg_hub :: hub
  pg_bridge :: "hub bridge"

text \<open>The workspace of the command line: the registry and the identifier of the hub.\<close>

definition register_flag :: "launch \<Rightarrow> fs \<Rightarrow> go_error + registry \<times> string" where
  "register_flag la fs =
     (if la_workspace la = [] then Inr (new_registry, ''ws-local'')
      else case register fs (la_cwd la) (la_ws_random la) (la_now la) [] (la_workspace la) new_registry of
        Inl e \<Rightarrow> Inl e
      | Inr (ws, reg) \<Rightarrow> Inr (reg, ws_id ws))"

text \<open>The stream is there when an address is configured and both steps of \<open>Connect\<close> succeed.\<close>

definition stream_connects :: "launch \<Rightarrow> agent_config \<Rightarrow> bool" where
  "stream_connects la cfg \<longleftrightarrow>
     cfg_grpc_addr cfg \<noteq> [] \<and> snd (connect_stream (la_dial la) (la_open la) (new_stream (cfg_agent_id cfg) ())) = None"

definition main_bridge_options :: "agent_config \<Rightarrow> bridge_options" where
  "main_bridge_options cfg =
     \<lparr>opt_bind = cfg_ide_bind cfg, opt_port = cfg_ide_port cfg, opt_state_dir = cfg_state_dir cfg,
      opt_agent_id = cfg_agent_id cfg\<rparr>"

definition main_hub :: "launch \<Rightarrow> agent_config \<Rightarrow> registry \<Rightarrow> string \<Rightarrow> os \<Rightarrow> hub" where
  "main_hub la cfg reg wid os =
     (let shared = la_workspace la \<noteq> [] in
      new_hub (if stream_connects la cfg then Some (la_send la) else None) True wid None
        (if shared then Some reg else None) (if shared then Some [] else None)
        (if shared then cfg_max_file_bytes cfg else 0) os)"

definition start_program :: "launch \<Rightarrow> os \<Rightarrow> exit_error \<times> os + program" where
  "start_program la os =
     (case load_config (la_getenv la) (Inr (la_cwd la)) os of
        (os1, Inl e) \<Rightarrow> Inl (Exit_config e, os1)
      | (os1, Inr cfg0) \<Rightarrow>
     (case new_agent (la_machine la) (la_platform la) (la_stamp la) (la_agent_random la) cfg0 of
        Inl e \<Rightarrow> Inl (Exit_agent e, os1)
      | Inr a \<Rightarrow>
     (case register_flag la (files os1) of
        Inl e \<Rightarrow> Inl (Exit_register e, os1)
      | Inr (reg, wid) \<Rightarrow>
     (case new_bridge (la_token_random la) (main_bridge_options (ag_config a)) None of
        Inl e \<Rightarrow> Inl (Exit_bridge e, os1)
      | Inr b \<Rightarrow>
     (case start_bridge (la_listen la) os1 (set_handler (Some hub_frames) b) of
        ((_, os2), Some e) \<Rightarrow> Inl (Exit_listen e, os2)
      | ((b1, os2), None) \<Rightarrow>
          Inr \<lparr>pg_agent = a, pg_registry = reg, pg_proposals = [], pg_os = os2, pg_log = [],
               pg_hub = main_hub la (ag_config a) reg wid os2, pg_bridge = b1\<rparr>)))))"

section \<open>Running\<close>

text \<open>The shared state as the agent and the hub see it, and what they leave of it.\<close>

definition tool_view :: "u8 list option \<Rightarrow> int \<Rightarrow> program \<Rightarrow> tool_world" where
  "tool_view rnd now pg =
     \<lparr>tw_registry = pg_registry pg, tw_proposals = Some (pg_proposals pg), tw_os = pg_os pg,
      tw_now = now, tw_random = rnd\<rparr>"

definition put_tools :: "tool_world \<Rightarrow> program \<Rightarrow> program" where
  "put_tools w pg =
     pg\<lparr>pg_registry := tw_registry w, pg_os := tw_os w,
        pg_proposals := (case tw_proposals w of Some st \<Rightarrow> st | None \<Rightarrow> pg_proposals pg)\<rparr>"

definition hub_view :: "program \<Rightarrow> hub" where
  "hub_view pg =
     (let h = pg_hub pg in
      h\<lparr>hub_registry := map_option (\<lambda>_. pg_registry pg) (hub_registry h),
        hub_proposals := map_option (\<lambda>_. pg_proposals pg) (hub_proposals h), hub_os := pg_os pg\<rparr>)"

definition put_hub :: "hub \<Rightarrow> program \<Rightarrow> program" where
  "put_hub h pg =
     pg\<lparr>pg_hub := h, pg_os := hub_os h,
        pg_registry := (case hub_registry h of Some reg \<Rightarrow> reg | None \<Rightarrow> pg_registry pg),
        pg_proposals := (case hub_proposals h of Some st \<Rightarrow> st | None \<Rightarrow> pg_proposals pg)\<rparr>"

text \<open>
  A request of the server with its random bytes and its moments, an event of the server, a frame of
  the IDE that the bridge admitted, and anything else that happens to the files. \<open>None\<close> is a panic.
\<close>

datatype program_event =
    Tool_request "u8 list option" int moment envelope
  | Server_event "u8 list option" int "envelope option"
  | Ide_frame string ide_message
  | Files_change os

fun program_step :: "program_event \<Rightarrow> program \<Rightarrow> program option" where
  "program_step (Tool_request rnd now mo env) pg =
     (case handle_envelope (pg_agent pg) mo (Some env) (tool_view rnd now pg, pg_log pg) of
        None \<Rightarrow> None
      | Some ((w, log), _) \<Rightarrow> Some ((put_tools w pg)\<lparr>pg_log := log\<rparr>))"
| "program_step (Server_event rnd now env) pg =
     (case listen [(rnd, now, env)] (hub_view pg) of
        None \<Rightarrow> None
      | Some h \<Rightarrow> Some (put_hub h pg))"
| "program_step (Ide_frame cid m) pg =
     (case br_handler (pg_bridge pg) of
        None \<Rightarrow> Some pg
      | Some f \<Rightarrow> Some (put_hub (fst (f (hub_view pg) cid m)) pg))"
| "program_step (Files_change os) pg = Some (pg\<lparr>pg_os := os\<rparr>)"

end
