(* ===== verification/Ide_Hub_Properties.thy ===== *)
theory Ide_Hub_Properties
  imports Ide_Hub
begin

text \<open>
  What the hub guarantees: frames of the IDE never touch files; an event of the server does
  only when it carries the stage \<open>APPLYING_CHANGE\<close> and a reviewed proposal is pending, at most
  once per proposal; and in every reachable state what is applied is what was shown.
\<close>

section \<open>What each operation leaves alone\<close>

lemma push_ide_frame [simp]:
  "hub_os (push_ide m h) = hub_os h" "hub_pending (push_ide m h) = hub_pending h"
  "hub_out (push_ide m h) = hub_out h @ [PushIde m]"
  "hub_registry (push_ide m h) = hub_registry h" "hub_proposals (push_ide m h) = hub_proposals h"
  "hub_max_bytes (push_ide m h) = hub_max_bytes h"
  by (simp_all add: push_ide_def)

lemma push_error_frame [simp]:
  "hub_os (push_error c m h) = hub_os h" "hub_pending (push_error c m h) = hub_pending h"
  by (simp_all add: push_error_def)

lemma push_apply_result_frame [simp]:
  "hub_os (push_apply_result d h) = hub_os h" "hub_pending (push_apply_result d h) = hub_pending h"
  by (simp_all add: push_apply_result_def)

lemma notify_frame [simp]:
  "hub_os (notify_apply_completed w s c u h) = hub_os h"
  "hub_pending (notify_apply_completed w s c u h) = hub_pending h"
  by (simp_all add: notify_apply_completed_def send_event_def split: option.split)

lemma send_bind_frame [simp]:
  "hub_os (send_bind v r h) = hub_os h" "hub_pending (send_bind v r h) = hub_pending h"
  "hub_registry (send_bind v r h) = hub_registry h" "hub_proposals (send_bind v r h) = hub_proposals h"
  by (simp_all add: send_bind_def send_event_def split: option.split)

lemma remember_bind_frame [simp]:
  "hub_os (remember_bind d w h) = hub_os h" "hub_pending (remember_bind d w h) = hub_pending h"
  "hub_registry (remember_bind d w h) = hub_registry h" "hub_proposals (remember_bind d w h) = hub_proposals h"
  "hub_out (remember_bind d w h) = hub_out h"
  by (simp_all add: remember_bind_def Let_def)

lemma remember_apply_frame [simp]:
  "hub_os (remember_apply c w a i d u h) = hub_os h" "hub_out (remember_apply c w a i d u h) = hub_out h"
  by (simp_all add: remember_apply_def)

lemma run_pending_frame:
  "run_pending now p h = (h', r) \<Longrightarrow> hub_pending h' = hub_pending h \<and> hub_out h' = hub_out h"
  by (auto simp: run_pending_def split: prod.splits)

lemma prepare_frame:
  "prepare_stored_proposal rnd now i chs h = Some (h', r) \<Longrightarrow>
     hub_os h' = hub_os h \<and> hub_pending h' = hub_pending h \<and> hub_out h' = hub_out h"
  by (auto simp: prepare_stored_proposal_def Let_def split: option.splits sum.splits if_splits)

lemma review_frame:
  "review_result rnd now i w chs h = Some (h', r) \<Longrightarrow>
     hub_os h' = hub_os h \<and> hub_pending h' = hub_pending h \<and> hub_out h' = hub_out h"
  by (auto simp: review_result_def split: if_splits option.splits prod.splits sum.splits dest: prepare_frame)

lemma push_diff_review_os: "push_diff_review rnd now data h = Some h' \<Longrightarrow> hub_os h' = hub_os h"
  by (auto simp: push_diff_review_def publish_review_def Let_def
      split: sum.splits prod.splits option.splits if_splits dest: review_frame)

section \<open>Applying\<close>

lemma apply_pending_frame [simp]: "hub_pending (apply_pending now w p h) = hub_pending h"
  by (auto simp: apply_pending_def split: prod.splits sum.splits dest: run_pending_frame)

lemma apply_pending_os:
  "hub_os (apply_pending now w p h) \<noteq> hub_os h \<Longrightarrow>
     \<not> pa_unchanged p \<and> hub_os (apply_pending now w p h) = hub_os (fst (run_pending now p h))"
  by (auto simp: apply_pending_def split: prod.splits sum.splits if_splits)

lemma authorized_cases:
  obtains "apply_if_authorized now d h = h"
  | "apply_if_authorized now d h = clear_pending h"
  | w where "text_of (get_any d ''stage'') = ''APPLYING_CHANGE''" "pa_change_set (hub_pending h) \<noteq> []"
      "apply_if_authorized now d h = apply_pending now w (hub_pending h) (clear_pending h)"
proof -
  let ?stage = "text_of (get_any d ''stage'')"
  consider "?stage = ''REJECTED''" | "?stage \<noteq> ''REJECTED''" "?stage \<noteq> ''APPLYING_CHANGE''"
    | "?stage = ''APPLYING_CHANGE''" "pa_change_set (hub_pending h) = []"
    | "?stage = ''APPLYING_CHANGE''" "pa_change_set (hub_pending h) \<noteq> []" by blast
  then show thesis
    by cases (auto simp: apply_if_authorized_def take_pending_def clear_pending_def intro: that)
qed

lemma clear_pending_frame [simp]:
  "hub_os (clear_pending h) = hub_os h" "hub_pending (clear_pending h) = no_pending"
  "hub_registry (clear_pending h) = hub_registry h" "hub_proposals (clear_pending h) = hub_proposals h"
  "hub_max_bytes (clear_pending h) = hub_max_bytes h" "hub_out (clear_pending h) = hub_out h"
  by (simp_all add: clear_pending_def)

lemma after_progress_pending:
  "hub_pending (after_progress now data h) = hub_pending h \<or> hub_pending (after_progress now data h) = no_pending"
  by (cases rule: authorized_cases [of now "clone_map data" h]) (auto simp: after_progress_def Let_def)

lemma after_progress_os:
  assumes "hub_os (after_progress now data h) \<noteq> hub_os h"
  shows "text_of (get_any (clone_map data) ''stage'') = ''APPLYING_CHANGE'' \<and> pa_change_set (hub_pending h) \<noteq> []
    \<and> \<not> pa_unchanged (hub_pending h) \<and> hub_pending (after_progress now data h) = no_pending
    \<and> hub_os (after_progress now data h) = hub_os (fst (run_pending now (hub_pending h) (clear_pending h)))"
proof (cases rule: authorized_cases [of now "clone_map data" h])
  case (3 w)
  with assms have "hub_os (apply_pending now w (hub_pending h) (clear_pending h)) \<noteq> hub_os (clear_pending h)"
    by (auto simp: after_progress_def Let_def split: if_splits)
  from apply_pending_os [OF this] 3 show ?thesis
    by (auto simp: after_progress_def Let_def split: if_splits)
qed (use assms in \<open>auto simp: after_progress_def Let_def split: if_splits\<close>)

section \<open>Events\<close>

text \<open>What an event carries: its name and its data with the identifiers of the envelope.\<close>

definition event_view :: "envelope option \<Rightarrow> (string \<times> jmap option) option" where
  "event_view enve =
     (case enve of
        None \<Rightarrow> None
      | Some env \<Rightarrow>
          (case decode_event (env_payload env) of
             None \<Rightarrow> None
           | Some (ev, raw) \<Rightarrow> map_option (Pair ev) (event_context env (event_map raw))))"

definition is_proposal :: "envelope option \<Rightarrow> bool" where
  "is_proposal enve = (case event_view enve of Some (ev, _) \<Rightarrow> ev = event_change_proposed | None \<Rightarrow> False)"

lemma forward_cases:
  assumes "forward_server_event rnd now env h = Some h'"
  obtains "h' = h"
  | ev data h1 where "event_view env = Some (ev, data)" "hub_push h"
      "h1 = h \<or> (\<exists>w. h1 = h\<lparr>hub_last_work_item := w\<rparr>)" "forward_event rnd now ev data h1 = Some h'"
  using assms that
  by (cases env) (auto simp: forward_server_event_def event_view_def split: if_splits option.splits prod.splits)

lemma event_names: "event_workflow_progress \<noteq> event_design_review" "event_workflow_progress \<noteq> event_change_proposed"
  by (simp_all add: event_defs)

lemma forward_event_os:
  assumes "forward_event rnd now ev data h = Some h'" "hub_os h' \<noteq> hub_os h"
  shows "ev = event_workflow_progress \<and> text_of (get_any (clone_map data) ''stage'') = ''APPLYING_CHANGE''
    \<and> pa_change_set (hub_pending h) \<noteq> [] \<and> \<not> pa_unchanged (hub_pending h) \<and> hub_pending h' = no_pending
    \<and> (\<exists>m. hub_os h' = hub_os (fst (run_pending now (hub_pending h) (clear_pending (push_ide m h)))))"
proof -
  from assms push_diff_review_os have "ev = event_workflow_progress"
    and h': "\<exists>m. h' = after_progress now data (push_ide m h)"
    by (auto simp: forward_event_def Let_def split: if_splits option.splits)
  then obtain m where m: "h' = after_progress now data (push_ide m h)" by blast
  with assms(2) have "hub_os (after_progress now data (push_ide m h)) \<noteq> hub_os (push_ide m h)" by simp
  from after_progress_os [OF this] m \<open>ev = _\<close> show ?thesis by auto
qed

lemma forward_event_pending:
  assumes "forward_event rnd now ev data h = Some h'" "ev \<noteq> event_change_proposed"
  shows "hub_pending h' = hub_pending h \<or> hub_pending h' = no_pending"
  using assms after_progress_pending [of now data "push_ide m h" for m]
  by (auto simp: forward_event_def Let_def split: if_splits option.splits)

text \<open>
  C5. The hub writes files only on the server's word and only once: if handling an event
  changes the file system, the event is \<open>workflow.progress\<close> with stage \<open>APPLYING_CHANGE\<close>, a
  proposal with a content change was pending, and none is pending afterwards.
\<close>

theorem hub_writes_only_when_told:
  assumes "forward_server_event rnd now env h = Some h'" "hub_os h' \<noteq> hub_os h"
  shows "(\<exists>data. event_view env = Some (event_workflow_progress, data)
      \<and> text_of (get_any (clone_map data) ''stage'') = ''APPLYING_CHANGE'')
    \<and> pa_change_set (hub_pending h) \<noteq> [] \<and> \<not> pa_unchanged (hub_pending h) \<and> hub_pending h' = no_pending"
  using assms(1)
proof (cases rule: forward_cases)
  case 1
  with assms(2) show ?thesis by simp
next
  case (2 ev data h1)
  have "hub_os h' \<noteq> hub_os h1" "hub_pending h1 = hub_pending h" using 2(3) assms(2) by auto
  with forward_event_os [OF 2(4)] 2(1) show ?thesis by auto
qed

section \<open>At most one apply per proposal\<close>

text \<open>The steps of a run of \<open>Listen\<close> that change files, and the proposals it receives.\<close>

fun count_writes :: "(u8 list option \<times> int \<times> envelope option) list \<Rightarrow> hub \<Rightarrow> nat" where
  "count_writes [] h = 0"
| "count_writes ((rnd, now, env) # evs) h =
     (case forward_server_event rnd now env h of
        None \<Rightarrow> 0
      | Some h1 \<Rightarrow> (if hub_os h1 \<noteq> hub_os h then 1 else 0) + count_writes evs h1)"

definition count_proposals :: "(u8 list option \<times> int \<times> envelope option) list \<Rightarrow> nat" where
  "count_proposals evs = length (filter (\<lambda>(_, _, env). is_proposal env) evs)"

definition pending_count :: "hub \<Rightarrow> nat" where
  "pending_count h = (if pa_change_set (hub_pending h) = [] then 0 else 1)"

lemma pending_count_step:
  assumes "forward_server_event rnd now env h = Some h'"
  shows "(if hub_os h' \<noteq> hub_os h then 1 else 0) + pending_count h'
    \<le> (if is_proposal env then 1 else 0) + pending_count h"
  using assms
proof (cases rule: forward_cases)
  case (2 ev data h1)
  have same: "hub_os h1 = hub_os h" "hub_pending h1 = hub_pending h" using 2(3) by auto
  show ?thesis
  proof (cases "hub_os h' = hub_os h")
    case False
    with same forward_event_os [OF 2(4)] show ?thesis by (simp add: pending_count_def no_pending_def)
  next
    case True
    show ?thesis
    proof (cases "ev = event_change_proposed")
      case True
      with 2(1) \<open>hub_os h' = hub_os h\<close> show ?thesis by (simp add: is_proposal_def pending_count_def)
    next
      case False
      from forward_event_pending [OF 2(4) False] same True show ?thesis
        by (auto simp: pending_count_def no_pending_def)
    qed
  qed
qed simp

text \<open>
  C6. No retries: however the events of the server are ordered or repeated, a run of the event
  loop changes files at most once per proposal it received (and once more for a proposal
  already pending at its start).
\<close>

theorem hub_applies_once_per_proposal:
  "count_writes evs h \<le> count_proposals evs + pending_count h"
proof (induction evs h rule: count_writes.induct)
  case (2 rnd now env evs h)
  show ?case
  proof (cases "forward_server_event rnd now env h")
    case (Some h1)
    have "count_proposals ((rnd, now, env) # evs) = (if is_proposal env then 1 else 0) + count_proposals evs"
      by (simp add: count_proposals_def)
    with 2 [OF Some] pending_count_step [OF Some] Some show ?thesis by simp
  qed simp
qed simp


section \<open>Reachable states\<close>

text \<open>
  The steps of the hub: a frame of the IDE, an event on a connected stream, and anything the
  rest of the agent or the user does to the shared registry, proposals and files.
\<close>

inductive hub_step :: "hub \<Rightarrow> hub \<Rightarrow> bool" where
  frame: "handle_frame h msg = (h', r) \<Longrightarrow> hub_step h h'"
| event: "hub_stream h \<noteq> None \<Longrightarrow> forward_server_event rnd now env h = Some h' \<Longrightarrow> hub_step h h'"
| others: "hub_step h (h\<lparr>hub_registry := reg, hub_proposals := st, hub_os := os\<rparr>)"

inductive hub_reachable :: "hub \<Rightarrow> bool" where
  start: "hub_reachable (new_hub stream push ws old reg props max_bytes os)"
| step: "hub_reachable h \<Longrightarrow> hub_step h h' \<Longrightarrow> hub_reachable h'"

text \<open>The pending apply is one the IDE was shown.\<close>

definition shown_view :: "pending_apply \<Rightarrow> hub_output list \<Rightarrow> jmap \<Rightarrow> string \<Rightarrow> bool" where
  "shown_view p out view diff \<longleftrightarrow>
     PushIde \<lparr>im_type = ''diff.review'', im_id = [], im_data = Some view\<rparr> \<in> set out
     \<and> get_any view ''change_set_id'' = JStr (pa_change_set p)
     \<and> get_any view ''workspace_id'' = JStr (pa_workspace p)
     \<and> get_any view ''approval_id'' = JStr (pa_approval p)
     \<and> get_any view ''diff_hash'' = JStr (pa_hash p)
     \<and> get_any view ''actual_diff'' = JStr diff \<and> pa_hash p = hash_bytes diff
     \<and> pa_unchanged p = (\<not> diff_has_content_change diff)"

definition pending_shown :: "hub \<Rightarrow> bool" where
  "pending_shown h \<longleftrightarrow>
     pa_change_set (hub_pending h) = [] \<or> (\<exists>view diff. shown_view (hub_pending h) (hub_out h) view diff)"

lemma shown_view_mono: "shown_view p out view diff \<Longrightarrow> set out \<subseteq> set out' \<Longrightarrow> shown_view p out' view diff"
  by (auto simp: shown_view_def)

lemma pending_shown_keep:
  assumes "pending_shown h" "hub_pending h' = hub_pending h \<or> hub_pending h' = no_pending"
    "set (hub_out h) \<subseteq> set (hub_out h')"
  shows "pending_shown h'"
  using assms shown_view_mono unfolding pending_shown_def by (metis no_pending_def pending_apply.select_convs(1))

lemma relay_frame:
  "relay ev j msg reply stream h = (h', r) \<Longrightarrow> h' = h\<lparr>hub_out := hub_out h @ [SendServer ev j]\<rparr>"
  by (auto simp: relay_def send_event_def split: option.splits)

lemma frame_sends:
  assumes "handle_frame h msg = (h', r)"
  shows "h' = h \<or> (\<exists>ev j. h' = h\<lparr>hub_out := hub_out h @ [SendServer ev j]\<rparr>)"
  using assms by (auto simp: handle_frame_def submit_chat_def forward_answer_def forward_decide_def
      restore_session_def Let_def split: if_splits option.splits dest: relay_frame)

lemma out_grows:
  "set (hub_out h) \<subseteq> set (hub_out (push_error c m h))"
  "set (hub_out h) \<subseteq> set (hub_out (push_apply_result d h))"
  "set (hub_out h) \<subseteq> set (hub_out (notify_apply_completed w s c u h))"
  "set (hub_out h) \<subseteq> set (hub_out (send_bind v r h))"
  by (auto simp: push_error_def push_apply_result_def notify_apply_completed_def send_bind_def send_event_def
      split: option.split)

lemma apply_pending_out: "set (hub_out h) \<subseteq> set (hub_out (apply_pending now w p h))"
proof -
  obtain h1 r where run: "run_pending now p h = (h1, r)" by fastforce
  then have "hub_out h1 = hub_out h" using run_pending_frame by blast
  with run show ?thesis
    by (cases r) (auto simp: apply_pending_def intro!: subsetD [OF out_grows(1)] subsetD [OF out_grows(2)]
      subsetD [OF out_grows(3)])
qed

lemma after_progress_out: "set (hub_out h) \<subseteq> set (hub_out (after_progress now data h))"
proof -
  have "set (hub_out h) \<subseteq> set (hub_out (apply_if_authorized now (clone_map data) h))"
    using apply_pending_out [of "clear_pending h"]
    by (cases rule: authorized_cases [of now "clone_map data" h]) auto
  then show ?thesis by (simp add: after_progress_def Let_def)
qed

lemma propose_hash: "propose fs now w cs m = Inr p \<Longrightarrow> ad_hash (prop_diff p) = hash_bytes (ad_diff (prop_diff p))"
  using propose_Inr(8) [of fs now w cs m p] by (simp add: Let_def)

lemma prepare_hash:
  "prepare_stored_proposal rnd now i chs h = Some (h', Inr r) \<Longrightarrow> result_hash r = hash_bytes (result_diff r)"
  unfolding prepare_stored_proposal_def Let_def
  by (auto split: option.split_asm sum.split_asm dest: propose_hash)

lemma review_hash:
  "review_result rnd now i w chs h = Some (h', Inr r) \<Longrightarrow> result_hash r = hash_bytes (result_diff r)"
  by (auto simp: review_result_def from_proposed_def Let_def prepare_hash
      split: if_splits option.splits sum.splits prod.splits)

lemma remember_apply_pending:
  "hub_pending (remember_apply c w a i d u h) =
     (if c = [] \<or> w = [] \<or> a = [] \<or> d = [] then hub_pending h
      else \<lparr>pa_change_set = c, pa_workspace = w, pa_approval = a, pa_hash = d, pa_work_item = i, pa_unchanged = u\<rparr>)"
  by (simp add: remember_apply_def)

lemma text_of_JStr: "text_of j = s \<Longrightarrow> s \<noteq> [] \<Longrightarrow> j = JStr s"
  by (cases j) auto

lemma publish_shown:
  assumes "pending_shown h" "result_hash r = hash_bytes (result_diff r)"
  shows "pending_shown (publish_review data r h)"
proof -
  let ?v = "review_view data r" and ?h = "publish_review data r h"
  have view: "get_any ?v ''change_set_id'' = JStr (result_change_set r)"
    "get_any ?v ''workspace_id'' = JStr (result_workspace r)"
    "get_any ?v ''diff_hash'' = JStr (result_hash r)" "get_any ?v ''actual_diff'' = JStr (result_diff r)"
    by (simp_all add: review_view_def Let_def get_any_put)
  have out: "PushIde \<lparr>im_type = ''diff.review'', im_id = [], im_data = Some ?v\<rparr> \<in> set (hub_out ?h)"
    "set (hub_out h) \<subseteq> set (hub_out ?h)"
    using out_grows(4) [of "remember_bind ?v True h" ?v r] by (auto simp: publish_review_def Let_def)
  show ?thesis
  proof (cases "hub_pending ?h = hub_pending h")
    case True
    with assms(1) out(2) pending_shown_keep show ?thesis by blast
  next
    case False
    then have "hub_pending ?h = \<lparr>pa_change_set = result_change_set r, pa_workspace = result_workspace r,
        pa_approval = text_of (get_any ?v ''approval_id''), pa_hash = result_hash r,
        pa_work_item = text_of (get_any ?v ''work_item_id''),
        pa_unchanged = (\<not> diff_has_content_change (result_diff r))\<rparr>"
      and "text_of (get_any ?v ''approval_id'') \<noteq> []"
      by (auto simp: publish_review_def Let_def remember_apply_pending split: if_splits)
    with view out(1) assms(2) text_of_JStr [of "get_any ?v ''approval_id''"]
    have "shown_view (hub_pending ?h) (hub_out ?h) ?v (result_diff r)"
      by (simp add: shown_view_def)
    then show ?thesis unfolding pending_shown_def by blast
  qed
qed

lemma review_shown:
  assumes "push_diff_review rnd now data h = Some h'" "pending_shown h"
  shows "pending_shown h'"
proof -
  have keep: "pending_shown h1" if "review_result rnd now i w chs h = Some (h1, x)" for i w chs h1 x
    using review_frame [OF that] assms(2) by (simp add: pending_shown_def)
  have err: "pending_shown (push_error c m g)" if "pending_shown g" for c m g
    using pending_shown_keep [OF that] out_grows(1) by simp
  show ?thesis using assms keep err publish_shown review_hash
    by (auto simp: push_diff_review_def Let_def split: sum.splits prod.splits option.splits)
qed

lemma step_shown:
  assumes "hub_step h h'" "pending_shown h"
  shows "pending_shown h'"
  using assms(1)
proof (cases rule: hub_step.cases)
  case (frame msg r)
  from frame_sends [OF this] show ?thesis by (auto intro!: pending_shown_keep [OF assms(2)])
next
  case (event rnd now env)
  from event(2) show ?thesis
  proof (cases rule: forward_cases)
    case (2 ev data h1)
    have h1: "pending_shown h1" using 2(3) assms(2) by (auto simp: pending_shown_def)
    have push: "pending_shown (push_ide m g)" if "pending_shown g" for m g
      by (rule pending_shown_keep [OF that]) auto
    have bind: "pending_shown (remember_bind d w h1)" for d w
      using h1 by (simp add: pending_shown_def)
    have prog: "pending_shown (after_progress now data g)" if "pending_shown g" for g
      using pending_shown_keep [OF that after_progress_pending after_progress_out] .
    show ?thesis using 2(4) h1 push bind prog review_shown
      by (auto simp: forward_event_def Let_def split: if_splits option.splits)
  qed (use assms(2) in simp)
next
  case (others reg st os)
  with assms(2) show ?thesis by (simp add: pending_shown_def)
qed

lemma reachable_shown: "hub_reachable h \<Longrightarrow> pending_shown h"
proof (induction rule: hub_reachable.induct)
  case (start stream push ws old reg props max_bytes os)
  show ?case by (simp add: pending_shown_def new_hub_def no_pending_def)
qed (rule step_shown)

lemma apply_claimed_changed:
  assumes run: "apply_claimed now reg st req opts os = (reg', st', os', r)" and os: "os' \<noteq> os"
  shows "\<exists>ws p fresh. map_of reg (ar_workspace req) = Some ws \<and> map_of st (ar_change_set req) = Some p
    \<and> \<not> prop_applied p \<and> \<not> prop_applying p \<and> ar_diff_hash req = ad_hash (prop_diff p)
    \<and> propose (files os) now ws (prop_change_set p) (opt_max_bytes opts) = Inr fresh
    \<and> ad_hash (prop_diff fresh) = ad_hash (prop_diff p)"
proof -
  let ?i = "ar_change_set req"
  obtain st1 c where cl: "claim_for_apply st ?i = (st1, c)" by fastforce
  with run os have "\<exists>p. c = Inr p" by (cases c) (auto simp: apply_claimed_def Let_def)
  with claim_cases [OF cl] obtain p where p: "map_of st ?i = Some p" "\<not> prop_applied p" "\<not> prop_applying p"
    and c: "c = Inr (p\<lparr>prop_applying := True\<rparr>)" by auto
  let ?p = "p\<lparr>prop_applying := True\<rparr>"
  obtain reg1 os1 res e where mu:
    "mutate reg (ar_workspace req) (apply_locked now ?p req opts) (os, None) = (reg1, (os1, res), e)"
    by (metis prod_cases3 surj_pair)
  have h: "ar_diff_hash req = ad_hash (prop_diff p)" and os1: "os1 = os'"
    using run os cl c mu by (auto simp: apply_claimed_def Let_def split: if_splits option.splits prod.splits)
  from mutate_cases [OF mu] os os1 obtain ws ws' where ws: "map_of reg (ar_workspace req) = Some ws"
    "apply_locked now ?p req opts ws (os, None) = (ws', (os', res), e)" by auto
  with os have "\<exists>fresh. propose (files os) now ws (prop_change_set p) (opt_max_bytes opts) = Inr fresh
      \<and> ad_hash (prop_diff fresh) = ad_hash (prop_diff p)"
    by (auto simp: apply_locked_def Let_def split: sum.splits if_splits)
  with ws(1) p h show ?thesis by blast
qed

text \<open>A run of the pending apply that changes files passed every check of \<open>ApplyChanges\<close>.\<close>

lemma run_pending_os:
  assumes "hub_os (fst (run_pending now p h)) \<noteq> hub_os h"
  obtains reg st ws pr fresh where "hub_registry h = Some reg" "hub_proposals h = Some st"
    "map_of reg (pa_workspace p) = Some ws" "map_of st (pa_change_set p) = Some pr"
    "\<not> prop_applied pr" "\<not> prop_applying pr" "ad_hash (prop_diff pr) = pa_hash p"
    "propose (files (hub_os h)) now ws (prop_change_set pr) (hub_max_bytes h) = Inr fresh"
    "ad_hash (prop_diff fresh) = pa_hash p"
proof -
  let ?req = "pending_request p" and ?opts = "\<lparr>opt_max_bytes = hub_max_bytes h, opt_fail_after = 0\<rparr>"
  obtain rego sto os' r where run: "apply_changes now (hub_registry h) (hub_proposals h)
      (Some (pending_validator p)) ?req ?opts (hub_os h) = (rego, sto, os', r)" by (metis prod_cases4)
  with assms have os: "os' \<noteq> hub_os h" by (simp add: run_pending_def)
  with run obtain reg st where rs: "hub_registry h = Some reg" "hub_proposals h = Some st"
    by (auto simp: apply_changes_def split: option.splits)
  with apply_changes_claimed run os obtain reg' st' where
    c: "apply_claimed now reg st ?req ?opts (hub_os h) = (reg', st', os', r)" by fastforce
  from apply_claimed_changed [OF this os] rs that show thesis
    by (auto simp: pending_request_def)
qed


section \<open>A concrete session\<close>

text \<open>
  A hub on the workspace of the other examples, a proposal of the server creating the file
  \<open>b\<close>, and the order to apply it.
\<close>

definition demo_hub :: hub where
  "demo_hub = new_hub (Some (\<lambda>_ _. None)) True (ws_id demo_ws) None
     (Some [(ws_id demo_ws, demo_ws)]) (Some []) 100 (demo_os [])"

definition server_event :: "string \<Rightarrow> jmap \<Rightarrow> envelope option" where
  "server_event ev data =
     Some (empty_envelope\<lparr>env_payload := Some (JObj [(''event'', JStr ev), (''data'', JObj data)])\<rparr>)"

definition demo_json :: string where
  "demo_json = map (\<lambda>c. if c = CHR 0x27 then CHR 0x22 else c)
     (''{'' @ [CHR 0x27] @ ''change_set_id'' @ [CHR 0x27] @ '':'' @ [CHR 0x27] @ demo_id @ [CHR 0x27] @
      '','' @ [CHR 0x27] @ ''changes'' @ [CHR 0x27] @ '':[{'' @ [CHR 0x27] @ ''path'' @ [CHR 0x27] @ '':'' @
      [CHR 0x27] @ ''b'' @ [CHR 0x27] @ '','' @ [CHR 0x27] @ ''operation'' @ [CHR 0x27] @ '':'' @ [CHR 0x27] @
      ''create'' @ [CHR 0x27] @ '','' @ [CHR 0x27] @ ''content'' @ [CHR 0x27] @ '':'' @ [CHR 0x27] @ ''new'' @
      [CHR 0x27] @ ''}]}'')"

definition demo_proposal_event :: "envelope option" where
  "demo_proposal_event = server_event event_change_proposed
     [(''approval_id'', JStr ''APR-1''), (''proposed_changes_json'', JStr demo_json)]"

definition demo_apply_event :: "envelope option" where
  "demo_apply_event = server_event event_workflow_progress [(''stage'', JStr ''APPLYING_CHANGE'')]"

definition demo_create_set :: change_set where
  "demo_create_set = \<lparr>cs_id = demo_id, cs_workspace = ws_id demo_ws, cs_base_revision = [],
     cs_changes = [\<lparr>fc_path = ''b'', fc_operation = op_create, fc_base_hash = [], fc_content = ''new'',
                    fc_target = []\<rparr>]\<rparr>"

definition demo_diff :: string where
  "demo_diff = unified_join [unified_file ''b'' [] ''new'']"

definition demo_create_proposal :: proposal where
  "demo_create_proposal =
     \<lparr>prop_change_set = demo_create_set,
      prop_diff = \<lparr>ad_change_set = demo_id, ad_diff = demo_diff, ad_hash = hash_bytes demo_diff,
                   ad_workspace = ws_id demo_ws\<rparr>,
      prop_base_revision = 0, prop_created_at = 1, prop_planned = [(''b'', Planned False ''new'')],
      prop_applied = False, prop_applying = False\<rparr>"

lemma demo_create_propose: "propose demo_fs 1 demo_ws demo_create_set 100 = Inr demo_create_proposal"
proof -
  have "validate_change_set demo_create_set = None"
    "check_base_revision demo_ws (cs_base_revision demo_create_set) = None"
    "validate_change_conflicts (cs_changes demo_create_set) = None"
    "propose_changes demo_fs demo_ws 100 (cs_changes demo_create_set) ([], []) =
       Inr ([(''b'', unified_file ''b'' [] ''new'')], [(''b'', Planned False ''new'')])"
    by code_simp+
  then show ?thesis
    by (simp add: propose_def demo_create_set_def demo_create_proposal_def demo_diff_def demo_ws_def Let_def)
qed

lemma demo_parse: "parse_proposed_json demo_json =
    Inr (demo_id, [\<lparr>change_path = ''b'', change_operation = ''create'', change_content = ''new'', change_target = []\<rparr>])"
  by code_simp

definition demo_reviewed :: hub where
  "demo_reviewed =
     publish_review (Some [(''approval_id'', JStr ''APR-1''), (''proposed_changes_json'', JStr demo_json)])
       \<lparr>result_change_set = demo_id, result_workspace = ws_id demo_ws, result_diff = demo_diff,
        result_hash = hash_bytes demo_diff\<rparr>
       (demo_hub\<lparr>hub_proposals := Some [(demo_id, demo_create_proposal)]\<rparr>)"

lemma event_view_server: "event_view (server_event ev data) = Some (ev, Some (to_map data))"
proof -
  have "decode_event (Some (JObj [(''event'', JStr ev), (''data'', JObj data)])) = Some (ev, Some (JObj data))"
    by (simp add: decode_event_def dec_event_def struct_fields_def string_field_def raw_field_def)
  then show ?thesis
    by (simp add: event_view_def server_event_def event_context_def event_map_def assign_nonempty_def
        empty_envelope_def)
qed

lemma forward_server:
  "hub_push h \<Longrightarrow> forward_server_event rnd now (server_event ev data) h = forward_event rnd now ev (Some (to_map data)) h"
  using event_view_server [of ev data]
  by (auto simp: forward_server_event_def event_view_def server_event_def empty_envelope_def
      split: option.splits)

lemma demo_ids: "validate_id KChangeSet demo_id = None" "validate_id KWorkspace (ws_id demo_ws) = None"
  "demo_id \<noteq> []" "ws_id demo_ws \<noteq> []"
  by code_simp+

lemma demo_prepare: "prepare_stored_proposal None 1 demo_id
    [\<lparr>change_path = ''b'', change_operation = ''create'', change_content = ''new'', change_target = []\<rparr>] demo_hub =
  Some (demo_hub\<lparr>hub_proposals := Some [(demo_id, demo_create_proposal)]\<rparr>,
    Inr \<lparr>result_change_set = demo_id, result_workspace = ws_id demo_ws, result_diff = demo_diff,
         result_hash = hash_bytes demo_diff\<rparr>)"
proof -
  have fcs: "change_set_from_proposed demo_fs demo_ws 100
      [\<lparr>change_path = ''b'', change_operation = ''create'', change_content = ''new'', change_target = []\<rparr>]
    = Inr (cs_changes demo_create_set)" by code_simp
  have "get_workspace [(ws_id demo_ws, demo_ws)] (ws_id demo_ws) = Inr demo_ws" by code_simp
  moreover have "\<lparr>cs_id = demo_id, cs_workspace = ws_id demo_ws, cs_base_revision = [],
      cs_changes = cs_changes demo_create_set\<rparr> = demo_create_set" by (simp add: demo_create_set_def)
  moreover have "demo_hub\<lparr>hub_proposals := Some (put_proposal demo_create_proposal [])\<rparr>
      = demo_hub\<lparr>hub_proposals := Some [(demo_id, demo_create_proposal)]\<rparr>"
    by (simp add: put_proposal_def demo_create_proposal_def demo_create_set_def)
  ultimately show ?thesis using demo_ids demo_create_propose fcs
    by (simp add: prepare_stored_proposal_def demo_hub_def new_hub_def demo_os_def demo_create_proposal_def
        demo_create_set_def Let_def)
qed

lemma demo_review: "forward_server_event None 1 demo_proposal_event demo_hub = Some demo_reviewed"
proof -
  have push: "hub_push demo_hub" "hub_registry demo_hub \<noteq> None" "hub_proposals demo_hub \<noteq> None"
    by (simp_all add: demo_hub_def new_hub_def)
  have "event_change_proposed \<noteq> event_design_review" by (simp add: event_defs)
  then show ?thesis
    unfolding demo_proposal_event_def forward_server [OF push(1)]
    using demo_parse demo_prepare push demo_ids(3)
    by (simp add: forward_event_def push_diff_review_def review_result_def demo_reviewed_def to_map_def
        clone_map_def get_any_def put_def Let_def)
qed

lemma demo_has_change: "diff_has_content_change demo_diff"
  by code_simp

lemma demo_reviewed_state:
  "hub_pending demo_reviewed = \<lparr>pa_change_set = demo_id, pa_workspace = ws_id demo_ws, pa_approval = ''APR-1'',
     pa_hash = hash_bytes demo_diff, pa_work_item = [], pa_unchanged = False\<rparr>"
  "hub_push demo_reviewed" "hub_stream demo_reviewed \<noteq> None" "hub_os demo_reviewed = demo_os []"
  "hub_registry demo_reviewed = Some [(ws_id demo_ws, demo_ws)]"
  "hub_proposals demo_reviewed = Some [(demo_id, demo_create_proposal)]"
  "hub_max_bytes demo_reviewed = 100"
  using demo_has_change demo_ids
  by (simp_all add: demo_reviewed_def publish_review_def remember_apply_def review_view_def get_any_def
      map_of_put map_of_remove_key clone_map_def demo_hub_def new_hub_def send_bind_def send_event_def
      remember_bind_def push_ide_def Let_def)

lemma demo_claimed_run:
  assumes loop: "apply_paths demo_ws [(''b'', Planned False ''new'')] 0 [''b''] (demo_os [], [], 0) = (os', None)"
    and h: "hub_os h = demo_os []" "hub_max_bytes h = 100"
      "hub_registry h = Some [(ws_id demo_ws, demo_ws)]" "hub_proposals h = Some [(demo_id, demo_create_proposal)]"
  shows "hub_os (fst (run_pending 1 (hub_pending demo_reviewed) h)) = os'"
proof -
  let ?p = "demo_create_proposal" and ?q = "demo_create_proposal\<lparr>prop_applying := True\<rparr>"
  have P: "prop_change_set ?p = demo_create_set" "cs_workspace demo_create_set = ws_id demo_ws"
    "ad_hash (prop_diff ?p) = hash_bytes demo_diff" "\<not> prop_applied ?p" "\<not> prop_applying ?p"
    "prop_planned ?p = [(''b'', Planned False ''new'')]" "sort [''b''] = [''b'']"
    by (simp_all add: demo_create_proposal_def demo_create_set_def)
  have fs: "files (demo_os []) = demo_fs" by (simp add: demo_os_def)
  have "\<exists>ws' res'. apply_locked 1 ?q (pending_request (hub_pending demo_reviewed))
      \<lparr>opt_max_bytes = 100, opt_fail_after = 0\<rparr> demo_ws (demo_os [], None) = (ws', (os', Some res'), None)"
    using demo_create_propose loop P by (simp add: apply_locked_def fs Let_def)
  then obtain ws' res' where "apply_locked 1 ?q (pending_request (hub_pending demo_reviewed))
      \<lparr>opt_max_bytes = 100, opt_fail_after = 0\<rparr> demo_ws (demo_os [], None) = (ws', (os', Some res'), None)" by blast
  then show ?thesis
    using demo_ids P demo_reviewed_state(1) finish_after_claim [OF P(4), of demo_id "[(demo_id, ?p)]"]
    by (simp add: run_pending_def h apply_changes_def apply_claimed_def claim_for_apply_def mutate_def
        pending_request_def pending_validator_def bound_validate_def Let_def)
qed

lemma apply_pending_runs:
  "\<not> pa_unchanged p \<Longrightarrow> hub_registry h \<noteq> None \<Longrightarrow> hub_proposals h \<noteq> None \<Longrightarrow>
    hub_os (apply_pending now w p h) = hub_os (fst (run_pending now p h))"
  by (auto simp: apply_pending_def split: prod.split sum.split)

lemma demo_applied:
  obtains h' where "forward_server_event None 1 demo_apply_event demo_reviewed = Some h'"
    "content_at (files (hub_os h')) [''w'', ''b''] = Some (Inl ''new'')" "hub_os h' \<noteq> hub_os demo_reviewed"
proof -
  let ?r = "apply_paths demo_ws [(''b'', Planned False ''new'')] 0 [''b''] (demo_os [], [], 0)"
  have run: "snd ?r = None" "content_at (files (fst ?r)) [''w'', ''b''] = Some (Inl ''new'')"
    "content_at (files (demo_os [])) [''w'', ''b''] = None" by code_simp+
  define d where "d = [(''stage'', JStr ''APPLYING_CHANGE'')]"
  define h where "h = clear_pending (push_ide \<lparr>im_type = event_workflow_progress, im_id = [], im_data = Some d\<rparr> demo_reviewed)"
  obtain w where eq: "forward_server_event None 1 demo_apply_event demo_reviewed
      = Some (apply_pending 1 w (hub_pending demo_reviewed) h)"
    unfolding demo_apply_event_def forward_server [OF demo_reviewed_state(2)]
    using demo_ids demo_reviewed_state(1)
    by (simp add: forward_event_def event_names after_progress_def apply_if_authorized_def take_pending_def
        to_map_def clone_map_def get_any_def d_def h_def clear_pending_def Let_def)
  have loop: "?r = (fst ?r, None)" using run(1) by (metis prod.collapse)
  let ?h = "push_ide \<lparr>im_type = event_workflow_progress, im_id = [], im_data = Some d\<rparr> demo_reviewed"
  have "hub_os (apply_pending 1 w (hub_pending demo_reviewed) h) = hub_os (fst (run_pending 1 (hub_pending demo_reviewed) h))"
    by (rule apply_pending_runs) (simp_all add: h_def demo_reviewed_state)
  also have "\<dots> = fst ?r"
    by (rule demo_claimed_run [OF loop]) (simp_all add: h_def demo_reviewed_state)
  finally have "hub_os (apply_pending 1 w (hub_pending demo_reviewed) h) = fst ?r" .
  then show thesis using that [OF eq] run(2,3) demo_reviewed_state(4) by force
qed

text \<open>The witnesses of the two properties above.\<close>

theorem hub_writes_only_when_told_witness:
  "\<exists>h'. forward_server_event None 1 demo_apply_event demo_reviewed = Some h'
    \<and> content_at (files (hub_os h')) [''w'', ''b''] = Some (Inl ''new'') \<and> hub_pending h' = no_pending"
  by (rule demo_applied) (use hub_writes_only_when_told in blast)

lemma demo_reachable: "hub_reachable demo_reviewed"
proof -
  have "hub_reachable demo_hub" unfolding demo_hub_def by (rule hub_reachable.start)
  moreover have "hub_step demo_hub demo_reviewed"
    by (rule hub_step.event [OF _ demo_review]) (simp add: demo_hub_def new_hub_def)
  ultimately show ?thesis by (rule hub_reachable.step)
qed

text \<open>
  C4. What is applied is what was shown. In every reachable state, if an event changes files, a
  \<open>diff.review\<close> had been pushed to the IDE with the change set, the approval and the hash of
  the pending apply; that hash is the hash of the diff text shown; the stored proposal of the
  change set has that hash and is not yet applied; and recomputing the diff on the files as
  they are when the event arrives gives that hash again.
\<close>

theorem hub_applies_what_was_shown:
  assumes "hub_reachable h" "forward_server_event rnd now env h = Some h'" "hub_os h' \<noteq> hub_os h"
  shows "\<exists>view diff reg st ws p fresh. shown_view (hub_pending h) (hub_out h) view diff
    \<and> diff_has_content_change diff
    \<and> hub_registry h = Some reg \<and> map_of reg (pa_workspace (hub_pending h)) = Some ws
    \<and> hub_proposals h = Some st \<and> map_of st (pa_change_set (hub_pending h)) = Some p
    \<and> \<not> prop_applied p \<and> ad_hash (prop_diff p) = hash_bytes diff
    \<and> propose (files (hub_os h)) now ws (prop_change_set p) (hub_max_bytes h) = Inr fresh
    \<and> ad_hash (prop_diff fresh) = hash_bytes diff"
  using assms(2)
proof (cases rule: forward_cases)
  case (2 ev data h1)
  have same: "hub_os h1 = hub_os h" "hub_pending h1 = hub_pending h" "hub_registry h1 = hub_registry h"
    "hub_proposals h1 = hub_proposals h" "hub_max_bytes h1 = hub_max_bytes h" using 2(3) by auto
  with assms(3) have "hub_os h' \<noteq> hub_os h1" by simp
  from forward_event_os [OF 2(4) this] obtain m where
    pend: "pa_change_set (hub_pending h) \<noteq> []" "\<not> pa_unchanged (hub_pending h)"
    and os: "hub_os h' = hub_os (fst (run_pending now (hub_pending h) (clear_pending (push_ide m h1))))"
    using same by auto
  obtain view diff where view: "shown_view (hub_pending h) (hub_out h) view diff"
    using reachable_shown [OF assms(1)] pend(1) unfolding pending_shown_def by blast
  then have "pa_hash (hub_pending h) = hash_bytes diff" "diff_has_content_change diff"
    using pend(2) by (auto simp: shown_view_def)
  moreover have "hub_os (fst (run_pending now (hub_pending h) (clear_pending (push_ide m h1))))
      \<noteq> hub_os (clear_pending (push_ide m h1))" using os assms(3) same by simp
  ultimately show ?thesis
    by (elim run_pending_os) (use view same in \<open>simp; blast\<close>)
qed (use assms(3) in simp)

theorem hub_applies_what_was_shown_witness:
  "\<exists>h' view diff. forward_server_event None 1 demo_apply_event demo_reviewed = Some h'
    \<and> content_at (files (hub_os h')) [''w'', ''b''] = Some (Inl ''new'')
    \<and> shown_view (hub_pending demo_reviewed) (hub_out demo_reviewed) view diff"
  by (rule demo_applied) (use hub_applies_what_was_shown [OF demo_reachable] in blast)


section \<open>What counts as a change\<close>





















text \<open>
  The test of the hub is blind to some changes: deleting a line that begins with two dashes
  (a comment of SQL, Lua or Haskell) and adding a line that begins with two plus signs give
  a diff that counts as unchanged, as does creating an empty file, so the approved proposal
  is reported applied and not applied.
\<close>

lemma content_change_missed:
  "\<not> diff_has_content_change (unified_file ''q.sql'' (''-- note'' @ newline # ''x'') ''x'')
   \<and> \<not> diff_has_content_change (unified_file ''c.c'' ''x'' (''++i;'' @ newline # ''x''))
   \<and> \<not> diff_has_content_change (unified_file ''e'' [] [])
   \<and> \<not> diff_has_content_change (unified_file ''f'' ''x'' (''x'' @ [newline]))"
  by code_simp

section \<open>Frames and panics\<close>

text \<open>
  C27. A frame of the IDE touches nothing but the stream: whatever the frame, the hub keeps its
  files, registry, proposals and pending apply, and sends at most one event; a chat
  submission is sent only if it passes the context rules.
\<close>

theorem frames_only_send:
  assumes "handle_frame h msg = (h', r)"
  shows "(h' = h \<or> (\<exists>ev j. h' = h\<lparr>hub_out := hub_out h @ [SendServer ev j]\<rparr>))
    \<and> (im_type msg = ''chat.submit'' \<longrightarrow> h' \<noteq> h \<longrightarrow> validate_submit (im_data msg) = None)"
proof -
  have "im_type msg = ''chat.submit'' \<longrightarrow> h' \<noteq> h \<longrightarrow> validate_submit (im_data msg) = None"
    using assms by (auto simp: handle_frame_def submit_chat_def split: option.splits)
  with frame_sends [OF assms] show ?thesis by blast
qed

theorem frames_only_send_witness:
  "\<exists>h' r. handle_frame demo_hub \<lparr>im_type = ''approval.decide'', im_id = ''1'', im_data = None\<rparr> = (h', r)
    \<and> (h' = demo_hub \<or> (\<exists>ev j. h' = demo_hub\<lparr>hub_out := hub_out demo_hub @ [SendServer ev j]\<rparr>))"
  using frames_only_send by (metis surj_pair)

text \<open>
  A decision carries what it decides: the event sent for an \<open>approval.decide\<close> frame holds the
  approval, work item, workspace, resource and diff hash of the last review for every field
  the frame leaves out, and the frame's own value for every field it gives.
\<close>

lemma decision_carries_bind:
  assumes "hub_stream h = Some stream" "distinct (map fst (hub_last_bind h))" "map_of (hub_last_bind h) k = Some v"
  shows "\<exists>d r. forward_decide h msg
      = (h\<lparr>hub_out := hub_out h @ [SendServer event_approval_decide (JObj d)]\<rparr>, r)
    \<and> get_any d k = (if has_key (clone_map (im_data msg)) k then get_any (clone_map (im_data msg)) k else v)"
proof -
  let ?m = "clone_map (im_data msg)"
  define add where "add = (\<lambda>(k, v) d. if has_key d k then d else put k v d)"
  have fill: "map_of (fold add b m) k = (if has_key m k then map_of m k else map_of b k)"
    if "distinct (map fst b)" for b m k
    using that
  proof (induction b arbitrary: m)
    case (Cons p b)
    obtain k1 v1 where p: "p = (k1, v1)" by (cases p)
    have "map_of b k1 = None" using Cons.prems p by (simp add: map_of_None_iff)
    with Cons show ?case by (auto simp: p add_def has_key_def map_of_put)
  qed (simp add: has_key_def)
  define d where "d = default_workspace h (fold add (hub_last_bind h) ?m)"
  have "map_of d k = (if has_key ?m k then map_of ?m k else Some v)"
    using fill [OF assms(2), of ?m k] assms(3)
    by (auto simp: d_def default_workspace_def map_of_put has_key_def)
  then have "get_any d k = (if has_key ?m k then get_any ?m k else v)"
    by (simp add: get_any_def)
  moreover have "\<exists>r. forward_decide h msg
      = (h\<lparr>hub_out := hub_out h @ [SendServer event_approval_decide (JObj d)]\<rparr>, r)"
    using assms(1) by (auto simp: forward_decide_def relay_def send_event_def d_def add_def Let_def split: option.split)
  ultimately show ?thesis by blast
qed

theorem decision_carries_bind_witness:
  "\<exists>d r. forward_decide (demo_hub\<lparr>hub_last_bind := [(''approval_id'', JStr ''APR-1'')]\<rparr>)
        \<lparr>im_type = ''approval.decide'', im_id = [], im_data = None\<rparr>
      = (demo_hub\<lparr>hub_last_bind := [(''approval_id'', JStr ''APR-1'')],
           hub_out := [SendServer event_approval_decide (JObj d)]\<rparr>, r)
    \<and> get_any d ''approval_id'' = JStr ''APR-1''"
  using decision_carries_bind [of "demo_hub\<lparr>hub_last_bind := [(''approval_id'', JStr ''APR-1'')]\<rparr>"
      "\<lambda>_ _. None" "''approval_id''" "JStr ''APR-1''" "\<lparr>im_type = ''approval.decide'', im_id = [], im_data = None\<rparr>"]
  by (simp add: demo_hub_def new_hub_def clone_map_def has_key_def)

text \<open>
  C28. An event whose data is JSON \<open>null\<close> panics the agent as soon as its envelope names a work
  item, for every event and every hub with an IDE.
\<close>

theorem null_data_panics:
  assumes "hub_push h" "env_work_item env \<noteq> []"
    "env_payload env = Some (JObj [(''event'', JStr ev), (''data'', JNull)])"
  shows "forward_server_event rnd now (Some env) h = None"
proof -
  have "decode_event (env_payload env) = Some (ev, Some JNull)"
    by (simp add: assms(3) decode_event_def dec_event_def struct_fields_def string_field_def raw_field_def)
  with assms(1,2) show ?thesis
    by (simp add: forward_server_event_def event_map_def event_context_def assign_nonempty_def)
qed

theorem null_data_panics_witness:
  "forward_server_event None 1 (Some (empty_envelope\<lparr>env_work_item := ''WI-1'',
     env_payload := Some (JObj [(''event'', JStr ''workflow.progress''), (''data'', JNull)])\<rparr>)) demo_hub = None"
  by (rule null_data_panics) (simp_all add: demo_hub_def new_hub_def)

end
