(* ===== verification/Audit_Log.thy ===== *)
theory Audit_Log
  imports Tool_Dispatch
begin

text \<open>
  \<open>local-agent/internal/audit/logger.go\<close>: the attributes of the line that \<open>Tool\<close> hands to the
  structured logger, latest last, and what of a call they can depend on. A logger that is not there
  writes nothing. How \<open>slog\<close> prints a line is not modelled.
\<close>

definition log_attrs :: "string \<Rightarrow> tool_event \<Rightarrow> (string \<times> json) list" where
  "log_attrs stamp ev =
     (let attrs = [(''event'', JStr ''tool''), (''tool'', JStr (te_tool ev)), (''status'', JStr (te_status ev)),
                   (''duration_ms'', JNum (itoa (te_duration ev))), (''ts'', JStr stamp)];
          attrs = (if te_call_id ev \<noteq> [] then attrs @ [(''call_id'', JStr (te_call_id ev))] else attrs);
          attrs = (if te_workspace ev \<noteq> [] then attrs @ [(''workspace_id'', JStr (te_workspace ev))] else attrs)
      in if te_error_code ev \<noteq> [] then attrs @ [(''error_code'', JStr (te_error_code ev))] else attrs)"

definition log_tool :: "bool \<Rightarrow> string \<Rightarrow> tool_event \<Rightarrow> (string \<times> json) list list \<Rightarrow> (string \<times> json) list list" where
  "log_tool present stamp ev written = (if present then written @ [log_attrs stamp ev] else written)"

text \<open>
  Every call of the dispatcher with a request adds one event, and none without an audit logger.
\<close>

lemma dispatch_logs_once:
  assumes "dispatch reg audit elapsed (Some req) (w, events) = Some ((w', events'), resp)"
  shows "events' = (if audit then events @ [log_event (fst (validate_request req)) resp elapsed] else events)"
  using assms by (auto simp: dispatch_def Let_def split: prod.splits option.splits)

text \<open>
  The line is discreet: it is made of the call's identifier and tool, the status and the error code of
  the answer and the time it took. Two calls that agree on these write the same line, whatever their
  arguments, the result and the message of the error.
\<close>

lemma log_discreet:
  assumes "req_call_id r = req_call_id r'" "req_tool r = req_tool r'" "resp_status a = resp_status a'"
    and "map_option err_code (resp_error a) = map_option err_code (resp_error a')"
  shows "log_attrs stamp (log_event r a elapsed) = log_attrs stamp (log_event r' a' elapsed)"
  using assms by (cases "resp_error a"; cases "resp_error a'") (simp_all add: log_event_def)

text \<open>No event of the dispatcher names a workspace, so the attribute for it is never written.\<close>

lemma log_names_no_workspace: "map_of (log_attrs stamp (log_event r a elapsed)) ''workspace_id'' = None"
  by (simp add: log_attrs_def log_event_def Let_def)

end
