(* ===== verification/Agent_Main_Properties.thy ===== *)
theory Agent_Main_Properties
  imports Agent_Main Ide_Hub_Properties Audit_Log
begin

text \<open>
  What the assembled program guarantees: however tool calls of the server, its events, frames of the
  IDE and changes of the files interleave, a workspace moves at most once per proposal that was
  accepted and stored, whichever of the agent and the hub stored it and applied it; and the discovery file that a start leaves lets its
  reader in.
\<close>

section \<open>Proposals not applied\<close>

text \<open>The entries of the store that are still open: each apply closes one, each proposal opens one at most.\<close>

definition unapplied :: "proposal_store \<Rightarrow> nat" where
  "unapplied st = length (filter (\<lambda>(i, p). \<not> prop_applied p) st)"

lemma unapplied_update:
  "unapplied (AList.update i q st) + (case map_of st i of Some p \<Rightarrow> of_bool (\<not> prop_applied p) | None \<Rightarrow> 0)
    = unapplied st + of_bool (\<not> prop_applied q)"
  by (induction st) (auto simp: unapplied_def split: option.split)

lemma unapplied_same:
  "map_of st i = Some p \<Longrightarrow> prop_applied q = prop_applied p \<Longrightarrow> unapplied (AList.update i q st) = unapplied st"
  using unapplied_update [of i q st] by simp

lemma unapplied_put: "unapplied (put_proposal p st) \<le> Suc (unapplied st)"
  using unapplied_update [of "cs_id (prop_change_set p)" p st]
  by (cases "prop_applied p") (auto simp: put_proposal_def split: option.splits)

lemma unapplied_claim: "claim_for_apply st i = (st', r) \<Longrightarrow> unapplied st' = unapplied st"
  by (auto simp: claim_for_apply_def Let_def unapplied_same split: option.splits if_splits)

lemma unapplied_abort: "unapplied (abort_apply st i) = unapplied st"
  by (auto simp: abort_apply_def unapplied_same split: option.splits)

lemma unapplied_finish:
  assumes "finish_apply st i = (st', e)"
  shows "unapplied st' + (if e = None then 1 else 0) = unapplied st"
proof (cases "map_of st i")
  case (Some p)
  with unapplied_update [of i "p\<lparr>prop_applied := True, prop_applying := False\<rparr>" st] assms show ?thesis
    by (auto simp: finish_apply_def mark_applied_def split: if_splits)
qed (use assms in \<open>auto simp: finish_apply_def mark_applied_def\<close>)

text \<open>From one shared state to the next, with at most \<open>n\<close> proposals stored.\<close>

definition accounts :: "nat \<Rightarrow> registry \<times> proposal_store \<Rightarrow> registry \<times> proposal_store \<Rightarrow> bool" where
  "accounts n s s' \<longleftrightarrow> of_bool (fst s' \<noteq> fst s) + unapplied (snd s') \<le> n + unapplied (snd s)"

lemma accounts_refl [simp]: "accounts n s s"
  by (simp add: accounts_def)

lemma accounts_put: "accounts 1 (reg, st) (reg, put_proposal p st)"
  using unapplied_put [of p st] by (simp add: accounts_def)

lemma mutate_failed:
  assumes "mutate reg wid fn s = (reg', s', Some e)" "\<And>ws ws' s' e. fn ws s = (ws', s', Some e) \<Longrightarrow> ws' = ws"
  shows "reg' = reg"
  using assms by (fastforce simp: mutate_def store_workspace_def update_triv split: if_splits option.splits prod.splits)

lemma apply_locked_failed: "apply_locked now p req opts ws s = (ws', s', Some e) \<Longrightarrow> ws' = ws"
  by (cases s) (auto simp: apply_locked_def Let_def split: sum.splits if_splits prod.splits option.splits)

lemma apply_claimed_accounts:
  assumes "apply_claimed now reg st req opts os = (reg', st', os', r)"
  shows "accounts 0 (reg, st) (reg', st')"
proof -
  let ?i = "ar_change_set req"
  obtain st1 c where c: "claim_for_apply st ?i = (st1, c)" by fastforce
  note u1 = unapplied_claim [OF c]
  show ?thesis
  proof (cases c)
    case (Inl e)
    with assms c u1 show ?thesis by (auto simp: apply_claimed_def Let_def accounts_def)
  next
    case (Inr p)
    obtain reg1 os1 res e where m: "mutate reg (ar_workspace req) (apply_locked now p req opts) (os, None) = (reg1, (os1, res), e)"
      by (metis prod_cases3 surj_pair)
    obtain st2 e2 where f: "finish_apply st1 ?i = (st2, e2)" by fastforce
    have "e \<noteq> None \<Longrightarrow> reg1 = reg" using mutate_failed m apply_locked_failed by (metis option.exhaust)
    moreover have "e2 = None"
      using c f Inr unfolding finish_apply_def mark_applied_def claim_for_apply_def
      by (auto simp: Let_def update_conv' split: option.splits if_splits)
    ultimately show ?thesis
      using assms c m f Inr u1 unapplied_finish [OF f]
      by (auto simp: apply_claimed_def Let_def accounts_def unapplied_abort split: if_splits option.splits)
  qed
qed

lemma apply_changes_accounts:
  assumes "apply_changes now (Some reg) (Some st) v req opts os = (rego, sto, os', r)"
  shows "\<exists>reg' st'. rego = Some reg' \<and> sto = Some st' \<and> accounts 0 (reg, st) (reg', st')"
  using assms
  by (auto simp: apply_changes_def Let_def dest: apply_claimed_accounts split: if_splits option.splits prod.splits)

section \<open>Calls of the tools\<close>

text \<open>
  A call leaves the open proposals as they are or closes some, unless \<open>b\<close> holds and the call changed
  the store and is answered with success: then it opens at most one.
\<close>

definition tool_accounts :: "bool \<Rightarrow> tool_world handler \<Rightarrow> bool" where
  "tool_accounts b h \<longleftrightarrow> (\<forall>w req w' out st. tw_proposals w = Some st \<longrightarrow> h w req = Some (w', out) \<longrightarrow>
     (\<exists>st'. tw_proposals w' = Some st'
       \<and> (accounts 0 (tw_registry w, st) (tw_registry w', st')
          \<or> b \<and> st' \<noteq> st \<and> accounts 1 (tw_registry w, st) (tw_registry w', st')
            \<and> (\<forall>i el. resp_status (settle i el out) = ''SUCCESS''))))"

lemma tool_accountsI:
  "(\<And>w req w' out st. tw_proposals w = Some st \<Longrightarrow> h w req = Some (w', out) \<Longrightarrow>
     (\<exists>st'. tw_proposals w' = Some st' \<and> accounts 0 (tw_registry w, st) (tw_registry w', st'))) \<Longrightarrow> tool_accounts b h"
  unfolding tool_accounts_def by blast

lemma quiet_tools_account:
  "tool_accounts b (read_file_tool deps)" "tool_accounts b (read_files_tool deps)" "tool_accounts b (search_tool deps)"
  "tool_accounts b (git_status_tool mc)" "tool_accounts b (git_diff_tool mc)"
  "tool_accounts b (ping_tool sys stamp)" "tool_accounts b (capabilities_tool sys names)"
  by (rule tool_accountsI; auto simp: read_file_tool_def read_files_tool_def search_tool_def
      git_status_tool_def git_diff_tool_def ping_tool_def capabilities_tool_def handler_cases
      split: handler_splits)+

lemma run_tools_account: "tool_accounts b (build_tool mc as)" "tool_accounts b (test_tool mc bs)"
  by (rule tool_accountsI; auto simp: build_tool_def test_tool_def handler_cases split: handler_splits)+

lemma settled_success: "resp_status (settle i el (Some (success c (Some j)), None)) = ''SUCCESS''"
  by (simp add: settle_def success_def)

lemma propose_tool_accounts: "tool_accounts True (propose_tool deps)"
  unfolding tool_accounts_def
proof (intro allI impI)
  fix w req w' out st
  assume w: "tw_proposals w = Some st" and run: "propose_tool deps w req = Some (w', out)"
  consider "w' = w"
    | p where "w' = w\<lparr>tw_proposals := Some (put_proposal p st)\<rparr>" "out = (Some (success (req_call_id req) (Some (enc_proposal p))), None)"
    using run w by (auto simp: propose_tool_def handler_cases split: handler_splits go_error.splits)
  then show "\<exists>st'. tw_proposals w' = Some st'
       \<and> (accounts 0 (tw_registry w, st) (tw_registry w', st')
          \<or> True \<and> st' \<noteq> st \<and> accounts 1 (tw_registry w, st) (tw_registry w', st')
            \<and> (\<forall>i el. resp_status (settle i el out) = ''SUCCESS''))"
  proof cases
    case (2 p)
    then show ?thesis using accounts_put [of "tw_registry w" st p] settled_success
      by (cases "put_proposal p st = st") simp_all
  qed (use w in simp)
qed

lemma apply_tool_accounts: "tool_accounts b (apply_tool deps)"
  by (rule tool_accountsI)
    (auto simp: apply_tool_def handler_cases split: handler_splits dest!: apply_changes_accounts)

lemma suite_accounts:
  assumes "get_tool (agent_suite mc pf stamp cfg names) n = Some h"
  shows "tool_accounts (n = ''workspace.propose_changes'') h"
  using assms unfolding agent_suite_def register_workspace_tools_def Let_def tool_store.look_ins
  by (auto simp: get_tool_def new_tool_registry_def quiet_tools_account run_tools_account
      apply_tool_accounts propose_tool_accounts split: if_splits)

text \<open>The audit log grew by a call of the proposing tool that was answered with success.\<close>

definition propose_logged :: "tool_event list \<Rightarrow> tool_event list \<Rightarrow> bool" where
  "propose_logged log log' \<longleftrightarrow> log' \<noteq> [] \<and> butlast log' = log
     \<and> te_tool (last log') = ''workspace.propose_changes'' \<and> te_status (last log') = ''SUCCESS''"

text \<open>What a request does to the shared state: nothing opened, or an accepted proposal stored.\<close>

definition request_opens :: "registry \<times> proposal_store \<Rightarrow> tool_event list \<Rightarrow> registry \<times> proposal_store \<Rightarrow> tool_event list \<Rightarrow> bool" where
  "request_opens s log s' log' \<longleftrightarrow> accounts 0 s s' \<or> snd s' \<noteq> snd s \<and> accounts 1 s s' \<and> propose_logged log log'"

lemma dispatch_accounts:
  assumes run: "dispatch (agent_suite mc pf stamp cfg names) True el (Some req) (w, log) = Some ((w', log'), resp)"
    and w: "tw_proposals w = Some st"
  shows "\<exists>st'. tw_proposals w' = Some st' \<and> request_opens (tw_registry w, st) log (tw_registry w', st') log'"
proof -
  obtain req1 e where v: "validate_request req = (req1, e)" by fastforce
  consider "w' = w" | h out where "get_tool (agent_suite mc pf stamp cfg names) (req_tool req1) = Some h"
      "h w req1 = Some (w', out)" "resp = settle (req_call_id req1) el out"
    using run v by (auto simp: dispatch_def Let_def split: option.splits prod.splits)
  then show ?thesis
  proof cases
    case 1
    with w show ?thesis by (simp add: request_opens_def)
  next
    case 2
    have "log' = log @ [log_event req1 resp el]" using dispatch_logs_once [OF run] v by simp
    then have "propose_logged log log'"
      if "req_tool req1 = ''workspace.propose_changes''" "\<forall>i el. resp_status (settle i el out) = ''SUCCESS''"
      using that 2(3) by (simp add: propose_logged_def log_event_def)
    with suite_accounts [OF 2(1)] 2(2) w show ?thesis
      unfolding tool_accounts_def request_opens_def by fastforce
  qed
qed

lemma request_accounts:
  assumes "handle_envelope a mo (Some env) (w, log) = Some ((w', log'), out)" "tw_proposals w = Some st"
    and "ag_tools a = agent_suite mc pf stamp cfg names"
  shows "\<exists>st'. tw_proposals w' = Some st' \<and> request_opens (tw_registry w, st) log (tw_registry w', st') log'"
proof -
  consider "w' = w" | j req resp where "env_payload env = Some j" "dec_request j = Some req"
      "dispatch (ag_tools a) True (mo_elapsed mo) (Some req) (w, log) = Some ((w', log'), resp)"
    using assms(1) by (auto simp: handle_envelope_def split: option.splits sum.splits if_splits prod.splits)
  then show ?thesis
  proof cases
    case 2
    with dispatch_accounts [OF 2(3) [unfolded assms(3)] assms(2)] show ?thesis by simp
  qed (use assms(2) in \<open>simp add: request_opens_def\<close>)
qed

text \<open>What is logged as an accepted proposal was a request for the tool that stores proposals.\<close>

definition proposing_call :: "envelope \<Rightarrow> bool" where
  "proposing_call env \<longleftrightarrow>
     (case env_payload env of
        None \<Rightarrow> False
      | Some j \<Rightarrow>
          (case dec_request j of None \<Rightarrow> False | Some req \<Rightarrow> req_tool req = ''workspace.propose_changes''))"

lemma logged_was_asked:
  assumes "handle_envelope a mo (Some env) (w, log) = Some ((w', log'), out)" "propose_logged log log'"
  shows "proposing_call env"
proof -
  consider "log' = log" | j req resp where "env_payload env = Some j" "dec_request j = Some req"
      "dispatch (ag_tools a) True (mo_elapsed mo) (Some req) (w, log) = Some ((w', log'), resp)"
    using assms(1) by (auto simp: handle_envelope_def split: option.splits sum.splits if_splits prod.splits)
  then show ?thesis
  proof cases
    case 1
    with assms(2) show ?thesis by (cases log rule: rev_cases) (auto simp: propose_logged_def)
  next
    case (2 j req resp)
    have "req_tool (fst (validate_request req)) = req_tool req"
      by (auto simp: validate_request_def split: option.splits if_splits)
    with 2 assms(2) dispatch_logs_once [OF 2(3)] show ?thesis
      by (simp add: propose_logged_def log_event_def proposing_call_def)
  qed
qed

section \<open>Steps of the hub\<close>

text \<open>The registry and the proposals of the hub: both or neither, and what becomes of them.\<close>

fun hub_accounts :: "nat \<Rightarrow> registry option \<times> proposal_store option \<Rightarrow> registry option \<times> proposal_store option \<Rightarrow> bool" where
  "hub_accounts n (Some reg, Some st) s' =
     (\<exists>reg' st'. s' = (Some reg', Some st') \<and> accounts n (reg, st) (reg', st'))"
| "hub_accounts n (None, None) s' \<longleftrightarrow> s' = (None, None)"
| "hub_accounts n _ s' \<longleftrightarrow> True"

definition hub_shared :: "hub \<Rightarrow> registry option \<times> proposal_store option" where
  "hub_shared h = (hub_registry h, hub_proposals h)"

lemma hub_accounts_refl [simp]: "hub_accounts n s s"
  by (cases "(n, s, s)" rule: hub_accounts.cases) auto

lemma hub_accounts_more: "hub_accounts n s s' \<Longrightarrow> n \<le> m \<Longrightarrow> hub_accounts m s s'"
  by (cases "(n, s, s')" rule: hub_accounts.cases) (fastforce simp: accounts_def)+

lemma shared_frames [simp]:
  "hub_shared (push_ide m h) = hub_shared h" "hub_shared (push_error c t h) = hub_shared h"
  "hub_shared (push_apply_result d h) = hub_shared h" "hub_shared (clear_pending h) = hub_shared h"
  "hub_shared (notify_apply_completed w s i u h) = hub_shared h" "hub_shared (send_bind v r h) = hub_shared h"
  "hub_shared (remember_bind d b h) = hub_shared h" "hub_shared (remember_apply i w a t x u h) = hub_shared h"
  "hub_shared (h\<lparr>hub_last_work_item := wi\<rparr>) = hub_shared h" "hub_shared (h\<lparr>hub_last_bind := bd\<rparr>) = hub_shared h"
  "hub_shared (h\<lparr>hub_out := out\<rparr>) = hub_shared h"
  by (simp_all add: hub_shared_def push_error_def push_apply_result_def notify_apply_completed_def send_event_def
      remember_apply_def split: option.split)

lemma run_pending_accounts:
  assumes "run_pending now p h = (h', r)"
  shows "hub_accounts 0 (hub_shared h) (hub_shared h')"
proof (cases "(0 :: nat, hub_shared h, hub_shared h')" rule: hub_accounts.cases)
  case (1 n reg st s')
  then have s: "hub_registry h = Some reg" "hub_proposals h = Some st" by (simp_all add: hub_shared_def)
  obtain rego sto os r' where a: "apply_changes now (Some reg) (Some st) (Some (pending_validator p)) (pending_request p)
      \<lparr>opt_max_bytes = hub_max_bytes h, opt_fail_after = 0\<rparr> (hub_os h) = (rego, sto, os, r')" by (metis prod_cases4)
  with apply_changes_accounts [OF a] assms s show ?thesis by (auto simp: run_pending_def hub_shared_def)
next
  case (2 n s')
  then have s: "hub_registry h = None" "hub_proposals h = None" by (simp_all add: hub_shared_def)
  with assms show ?thesis by (auto simp: run_pending_def apply_changes_def hub_shared_def)
qed simp_all

lemma apply_pending_accounts: "hub_accounts 0 (hub_shared h) (hub_shared (apply_pending now w p h))"
  by (auto simp: apply_pending_def split: prod.split sum.split dest: run_pending_accounts)

lemma authorized_accounts: "hub_accounts 0 (hub_shared h) (hub_shared (apply_if_authorized now d h))"
  using apply_pending_accounts [of "clear_pending h"]
  by (cases rule: authorized_cases [of now d h]) auto

lemma progress_accounts: "hub_accounts 0 (hub_shared h) (hub_shared (after_progress now data h))"
  using authorized_accounts [of h now "clone_map data"] by (simp add: after_progress_def Let_def)

lemma prepare_accounts:
  "prepare_stored_proposal rnd now i chs h = Some (h', r) \<Longrightarrow> hub_accounts 1 (hub_shared h) (hub_shared h')"
  by (auto simp: prepare_stored_proposal_def Let_def hub_shared_def accounts_put [unfolded One_nat_def]
      split: option.splits sum.splits if_splits)

lemma review_accounts:
  "review_result rnd now i w chs h = Some (h', r) \<Longrightarrow> hub_accounts 1 (hub_shared h) (hub_shared h')"
  by (auto simp: review_result_def split: if_splits option.splits prod.splits sum.splits dest: prepare_accounts)

text \<open>The output grew and ends with the review of a diff.\<close>

definition review_shown :: "hub_output list \<Rightarrow> hub_output list \<Rightarrow> bool" where
  "review_shown out out' \<longleftrightarrow> length out < length out'
     \<and> (case last out' of PushIde m \<Rightarrow> im_type m = ''diff.review'' | SendServer ev j \<Rightarrow> False)"

definition event_opens :: "hub \<Rightarrow> hub \<Rightarrow> bool" where
  "event_opens h h' \<longleftrightarrow> hub_accounts 0 (hub_shared h) (hub_shared h')
     \<or> hub_accounts 1 (hub_shared h) (hub_shared h') \<and> hub_registry h' = hub_registry h
       \<and> review_shown (hub_out h) (hub_out h')"

lemma send_bind_out: "\<exists>out. hub_out (send_bind v r h) = hub_out h @ out"
  by (auto simp: send_bind_def send_event_def split: option.split)

lemma publish_shows: "review_shown (hub_out h) (hub_out (publish_review data r h))"
proof -
  obtain out where "hub_out (send_bind (review_view data r) r (remember_bind (review_view data r) True h)) = hub_out h @ out"
    using send_bind_out [of "review_view data r" r "remember_bind (review_view data r) True h"] by auto
  then show ?thesis by (simp add: publish_review_def Let_def review_shown_def)
qed

lemma review_refused_accounts:
  "review_result rnd now i w chs h = Some (h', Inl e) \<Longrightarrow> hub_shared h' = hub_shared h"
  by (auto simp: review_result_def prepare_stored_proposal_def Let_def split: if_splits option.splits prod.splits sum.splits)

lemma review_keeps_registry: "review_result rnd now i w chs h = Some (h', r) \<Longrightarrow> hub_registry h' = hub_registry h"
  by (auto simp: review_result_def prepare_stored_proposal_def Let_def split: if_splits option.splits prod.splits sum.splits)

lemma push_review_opens:
  assumes "push_diff_review rnd now data h = Some h'"
  shows "event_opens h h'"
proof -
  consider "hub_shared h' = hub_shared h"
    | i w chs h1 r where "review_result rnd now i w chs h = Some (h1, Inr r)" "h' = publish_review data r h1"
    using assms by (auto simp: push_diff_review_def Let_def
        split: sum.splits prod.splits option.splits if_splits dest: review_refused_accounts)
  then show ?thesis
  proof cases
    case (2 i w chs h1 r)
    moreover have "hub_shared h' = hub_shared h1" using 2(2) by (simp add: publish_review_def Let_def)
    moreover from this have "hub_registry h' = hub_registry h"
      using review_keeps_registry [OF 2(1)] by (simp add: hub_shared_def)
    ultimately show ?thesis
      using review_accounts [OF 2(1)] review_frame [OF 2(1)] publish_shows [of h1 data r] by (simp add: event_opens_def)
  qed (simp add: event_opens_def)
qed

lemma forward_opens:
  assumes "forward_server_event rnd now env h = Some h'"
  shows "event_opens h h'"
  using assms
proof (cases rule: forward_cases)
  case (2 ev data h1)
  have h1: "hub_shared h1 = hub_shared h" "hub_out h1 = hub_out h" "hub_registry h1 = hub_registry h" using 2(3) by auto
  show ?thesis
  proof (cases "ev = event_change_proposed")
    case True
    with 2(4) h1 push_review_opens [of rnd now data h1 h'] show ?thesis
      by (simp add: event_opens_def forward_event_def event_names event_defs)
  next
    case False
    with 2(4) h1 progress_accounts [of "push_ide m h1" for m] have "hub_accounts 0 (hub_shared h) (hub_shared h')"
      by (auto simp: forward_event_def Let_def split: if_splits option.splits)
    then show ?thesis by (simp add: event_opens_def)
  qed
qed (simp add: event_opens_def)

section \<open>Runs of the program\<close>

text \<open>The hub shares the registry and the proposals or neither.\<close>

definition hub_joined :: "program \<Rightarrow> bool" where
  "hub_joined pg \<longleftrightarrow> (hub_registry (pg_hub pg) = None \<longleftrightarrow> hub_proposals (pg_hub pg) = None)"

definition suite_agent :: "program \<Rightarrow> bool" where
  "suite_agent pg \<longleftrightarrow> (\<exists>mc pf stamp cfg names. ag_tools (pg_agent pg) = agent_suite mc pf stamp cfg names)"

definition main_ok :: "program \<Rightarrow> bool" where
  "main_ok pg \<longleftrightarrow> hub_joined pg \<and> suite_agent pg \<and> br_handler (pg_bridge pg) = Some hub_frames"

text \<open>
  A step that stored a proposal: it changed the store, and it is a tool call that was answered with
  success or an event whose diff was pushed to the IDE for review. A refused call or event is none,
  and neither is one that leaves the store as it is.
\<close>

definition stores_proposal :: "program_event \<Rightarrow> program \<Rightarrow> program \<Rightarrow> bool" where
  "stores_proposal ev pg pg' \<longleftrightarrow> pg_proposals pg' \<noteq> pg_proposals pg \<and>
     (case ev of
        Tool_request _ _ _ _ \<Rightarrow> propose_logged (pg_log pg) (pg_log pg')
      | Server_event _ _ _ \<Rightarrow> review_shown (hub_out (pg_hub pg)) (hub_out (pg_hub pg'))
      | Ide_frame _ _ \<Rightarrow> False
      | Files_change _ \<Rightarrow> False)"

definition pg_shared :: "program \<Rightarrow> registry \<times> proposal_store" where
  "pg_shared pg = (pg_registry pg, pg_proposals pg)"

lemma put_hub_accounts:
  assumes "hub_accounts n (hub_shared (hub_view pg)) (hub_shared h)" "hub_joined pg"
  shows "accounts n (pg_shared pg) (pg_shared (put_hub h pg)) \<and> hub_joined (put_hub h pg)"
  using assms by (cases "hub_registry (pg_hub pg)"; cases "hub_proposals (pg_hub pg)")
    (auto simp: hub_shared_def hub_view_def put_hub_def pg_shared_def hub_joined_def Let_def)

lemma put_hub_ok: "main_ok pg \<Longrightarrow> hub_joined (put_hub h pg) \<Longrightarrow> main_ok (put_hub h pg)"
  by (simp add: main_ok_def suite_agent_def put_hub_def)

lemma program_step_accounts:
  assumes "program_step ev pg = Some pg'" "main_ok pg"
  shows "accounts (of_bool (stores_proposal ev pg pg')) (pg_shared pg) (pg_shared pg') \<and> main_ok pg'"
proof (cases ev)
  case (Tool_request rnd now mo env)
  then obtain w log out
    where h: "handle_envelope (pg_agent pg) mo (Some env) (tool_view rnd now pg, pg_log pg) = Some ((w, log), out)"
      "pg' = (put_tools w pg)\<lparr>pg_log := log\<rparr>"
    using assms(1) by (auto split: option.splits prod.splits)
  obtain mc pf stamp cfg names where "ag_tools (pg_agent pg) = agent_suite mc pf stamp cfg names"
    using assms(2) by (auto simp: main_ok_def suite_agent_def)
  from request_accounts [OF h(1) _ this] obtain st' where "tw_proposals w = Some st'"
    "request_opens (pg_shared pg) (pg_log pg) (tw_registry w, st') log"
    by (auto simp: tool_view_def pg_shared_def)
  with h(2) Tool_request assms(2) show ?thesis
    by (auto simp: put_tools_def pg_shared_def main_ok_def hub_joined_def suite_agent_def request_opens_def
        stores_proposal_def accounts_def)
next
  case (Server_event rnd now env)
  then obtain h where h: "listen [(rnd, now, env)] (hub_view pg) = Some h" "pg' = put_hub h pg"
    using assms(1) by (auto split: option.splits)
  then have opens: "event_opens (hub_view pg) h"
    using forward_opens [of rnd now env "hub_view pg"]
    by (auto simp: listen_def event_opens_def split: if_splits option.splits)
  have joined: "hub_joined pg" using assms(2) by (simp add: main_ok_def)
  have out: "hub_out (pg_hub pg') = hub_out h" "hub_out (hub_view pg) = hub_out (pg_hub pg)"
    using h(2) by (simp_all add: put_hub_def hub_view_def Let_def)
  consider "hub_accounts 0 (hub_shared (hub_view pg)) (hub_shared h)"
    | "hub_accounts 1 (hub_shared (hub_view pg)) (hub_shared h)" "stores_proposal ev pg pg'"
    | "hub_registry h = hub_registry (hub_view pg)" "pg_proposals pg' = pg_proposals pg"
    using opens out Server_event unfolding event_opens_def stores_proposal_def by auto
  then show ?thesis
  proof cases
    case 1
    with put_hub_accounts [OF 1 joined] put_hub_ok [OF assms(2)] h(2) show ?thesis by (simp add: accounts_def)
  next
    case 2
    with put_hub_accounts [OF 2(1) joined] put_hub_ok [OF assms(2)] h(2) show ?thesis by simp
  next
    case 3
    have "pg_registry pg' = pg_registry pg"
      using 3(1) h(2) by (simp add: put_hub_def hub_view_def Let_def split: option.split)
    moreover have "hub_joined (put_hub h pg)"
      using put_hub_accounts [of 1 pg h] opens joined unfolding event_opens_def
      by (auto dest: hub_accounts_more [of 0 _ _ 1])
    ultimately show ?thesis using 3(2) put_hub_ok [OF assms(2)] h(2) by (simp add: pg_shared_def)
  qed
next
  case (Ide_frame cid m)
  obtain h r where f: "handle_frame (hub_view pg) m = (h, r)" by fastforce
  then have "hub_shared h = hub_shared (hub_view pg)" using frame_sends by fastforce
  then have "hub_accounts 0 (hub_shared (hub_view pg)) (hub_shared h)" by simp
  moreover have "pg' = put_hub h pg" "hub_joined pg"
    using assms Ide_frame f by (simp_all add: main_ok_def hub_frames_def)
  ultimately show ?thesis using put_hub_accounts put_hub_ok [OF assms(2)] Ide_frame by (simp add: stores_proposal_def)
next
  case (Files_change os)
  with assms(1) have "pg' = pg\<lparr>pg_os := os\<rparr>" by simp
  with assms(2) show ?thesis by (simp add: main_ok_def suite_agent_def hub_joined_def pg_shared_def)
qed

text \<open>The steps of a run that moved a workspace, and those that stored a proposal.\<close>

fun count_applies :: "program_event list \<Rightarrow> program \<Rightarrow> nat" where
  "count_applies [] pg = 0"
| "count_applies (ev # evs) pg =
     (case program_step ev pg of
        None \<Rightarrow> 0
      | Some pg' \<Rightarrow> of_bool (pg_registry pg' \<noteq> pg_registry pg) + count_applies evs pg')"

fun count_stored :: "program_event list \<Rightarrow> program \<Rightarrow> nat" where
  "count_stored [] pg = 0"
| "count_stored (ev # evs) pg =
     (case program_step ev pg of
        None \<Rightarrow> 0
      | Some pg' \<Rightarrow> of_bool (stores_proposal ev pg pg') + count_stored evs pg')"

lemma applies_bounded:
  "main_ok pg \<Longrightarrow> count_applies evs pg \<le> count_stored evs pg + unapplied (pg_proposals pg)"
proof (induction evs pg rule: count_applies.induct)
  case (2 ev evs pg)
  show ?case
  proof (cases "program_step ev pg")
    case (Some pg')
    note step = program_step_accounts [OF Some 2(2)]
    with 2(1) [OF Some] have "count_applies evs pg' \<le> count_stored evs pg' + unapplied (pg_proposals pg')"
      by simp
    moreover have "of_bool (pg_registry pg' \<noteq> pg_registry pg) + unapplied (pg_proposals pg')
        \<le> of_bool (stores_proposal ev pg pg') + unapplied (pg_proposals pg)"
      using step by (simp only: accounts_def pg_shared_def fst_conv snd_conv)
    ultimately show ?thesis using Some by simp
  qed simp
qed simp

lemma start_cases:
  assumes "start_program la os = Inr pg"
  obtains os1 cfg a reg wid b b1 os2
    where "load_config (la_getenv la) (Inr (la_cwd la)) os = (os1, Inr cfg)"
      "new_agent (la_machine la) (la_platform la) (la_stamp la) (la_agent_random la) cfg = Inr a"
      "register_flag la (files os1) = Inr (reg, wid)"
      "new_bridge (la_token_random la) (main_bridge_options (ag_config a)) None = Inr b"
      "start_bridge (la_listen la) os1 (set_handler (Some hub_frames) b) = ((b1, os2), None)"
      "pg = \<lparr>pg_agent = a, pg_registry = reg, pg_proposals = [], pg_os = os2, pg_log = [],
              pg_hub = main_hub la (ag_config a) reg wid os2, pg_bridge = b1\<rparr>"
  using assms unfolding start_program_def
  by (auto split: prod.splits sum.splits option.splits)

lemma started_bridge:
  assumes "start_bridge lis os b = ((b1, os1), None)"
  obtains ip port where "lis = Inr (Some ip, port)" "is_loopback ip"
    "b1 = b\<lparr>br_started := True, br_server := True,
             br_endpoint := \<lparr>ep_bind = br_bind b, ep_port = port, ep_path = ''/ipc'', ep_token = br_token b\<rparr>\<rparr>"
    "write_endpoint os (br_state_dir b) (br_endpoint b1) = (os1, None)"
  using assms unfolding start_bridge_def
  by (auto simp: Let_def split: if_splits sum.splits option.splits prod.splits)

lemma agent_has_suite:
  "new_agent mc pf stamp rnd cfg = Inr a \<Longrightarrow> \<exists>cfg names. ag_tools a = agent_suite mc pf stamp cfg names"
  by (simp add: new_agent_def Let_def split: sum.splits) (metis agent.select_convs(2))

lemma start_main_ok:
  assumes "start_program la os = Inr pg"
  shows "main_ok pg" "pg_proposals pg = []"
proof -
  from start_cases [OF assms] obtain os1 cfg a reg wid b b1 os2
    where s: "new_agent (la_machine la) (la_platform la) (la_stamp la) (la_agent_random la) cfg = Inr a"
      "start_bridge (la_listen la) os1 (set_handler (Some hub_frames) b) = ((b1, os2), None)"
      "pg = \<lparr>pg_agent = a, pg_registry = reg, pg_proposals = [], pg_os = os2, pg_log = [],
              pg_hub = main_hub la (ag_config a) reg wid os2, pg_bridge = b1\<rparr>" by metis
  have "suite_agent pg" using agent_has_suite [OF s(1)] s(3) by (fastforce simp: suite_agent_def)
  moreover have "br_handler b1 = Some hub_frames" by (rule started_bridge [OF s(2)]) (simp add: set_handler_def)
  ultimately show "main_ok pg" "pg_proposals pg = []"
    using s(3) by (simp_all add: main_ok_def hub_joined_def main_hub_def new_hub_def Let_def)
qed

text \<open>
  C7. One proposal, one apply, in the whole program: from a start on, however requests of the server,
  its events, frames of the IDE and changes of the files follow each other, the steps that move a
  workspace (count its revision up after an apply) are at most as many as the steps that stored a
  proposal. Such a step changed the store of proposals, and it is a call of
  \<open>workspace.propose_changes\<close> that the audit log has as a success, or an event whose diff the hub
  pushed to the IDE for review; refused calls and events do not count. It makes no difference which of
  the agent and the hub stored a proposal and which of them is told to apply it, or how often.
\<close>

theorem program_applies_once_per_proposal:
  assumes "start_program la os = Inr pg"
  shows "count_applies evs pg \<le> count_stored evs pg"
  using applies_bounded [OF start_main_ok(1) [OF assms], of evs] start_main_ok(2) [OF assms]
  by (simp add: unapplied_def)

section \<open>A start\<close>

definition demo_env :: "string \<Rightarrow> string" where
  "demo_env k =
     (if k = ''ONCODE_AGENT_STATE_DIR'' then ''/s'' else if k = ''ONCODE_AGENT_ID'' then ''a1'' else [])"

definition demo_launch :: launch where
  "demo_launch =
     \<lparr>la_getenv = demo_env, la_cwd = [], la_workspace = ''/s'', la_machine = demo_machine,
      la_platform = \<lparr>pf_os = ''linux'', pf_arch = ''amd64''\<rparr>, la_stamp = (\<lambda>_. ''t''), la_agent_random = None,
      la_ws_random = Some (replicate 16 0), la_now = 1, la_dial = None, la_open = None,
      la_send = (\<lambda>_ _. None), la_token_random = Some [7, 0xFF],
      la_listen = Inr (Some (replicate 15 0 @ [1]), 4000)\<rparr>"

definition demo_start_os :: os where
  "demo_start_os = \<lparr>files = [([''s''], Dir)], umask = 0, faults = [], undo_faults = []\<rparr>"

definition demo_start_config :: agent_config where
  "demo_start_config = default_config\<lparr>cfg_agent_id := ''a1'', cfg_state_dir := ''/s''\<rparr>"

lemma demo_load: "load_config demo_env (Inr []) demo_start_os = (demo_start_os, Inr demo_start_config)"
proof -
  have "abs_dir (Inr []) (state_dir demo_env) = Inr [''s'']" "path_string [''s''] = ''/s''" by code_simp+
  moreover have "mkdir_all demo_start_os [''s''] = (demo_start_os, None)"
  proof -
    have "stat (files demo_start_os) [''s''] = Inr Dir" by code_simp
    then show ?thesis by (simp add: mkdir_all.simps)
  qed
  ultimately show ?thesis
    by (simp add: load_config_def demo_env_def ide_port_def or_default_def demo_start_config_def default_config_def Let_def)
qed

lemma demo_register_flag: "\<exists>reg wid. register_flag demo_launch (files demo_start_os) = Inr (reg, wid)"
proof -
  have "abs_path [] ''/s'' = [''s'']" "stat (files demo_start_os) [''s''] = Inr Dir"
    "eval_symlinks (files demo_start_os) [''s''] = Inr [''s'']" by code_simp+
  moreover obtain i where "new_id KWorkspace (Some (replicate 16 0)) 1 = Inr i"
    using new_id_random [of KWorkspace "Some (replicate 16 0)" 1] by (auto simp: known_kind_cases kind_prefixes_def)
  ultimately show ?thesis by (simp add: register_flag_def demo_launch_def register_def Let_def)
qed

lemma demo_starts: "\<exists>pg. start_program demo_launch demo_start_os = Inr pg"
proof -
  obtain reg wid where r: "register_flag demo_launch (files demo_start_os) = Inr (reg, wid)"
    using demo_register_flag by blast
  obtain a where a: "new_agent demo_machine \<lparr>pf_os = ''linux'', pf_arch = ''amd64''\<rparr> (\<lambda>_. ''t'') None demo_start_config = Inr a"
    "ag_config a = demo_start_config"
    by (simp add: new_agent_def demo_start_config_def Let_def)
  have "main_bridge_options demo_start_config = demo_options"
    by (simp add: main_bridge_options_def demo_start_config_def default_config_def demo_options_def)
  with demo_new_bridge have b: "new_bridge (Some [7, 0xFF]) (main_bridge_options demo_start_config) None = Inr demo_bridge"
    by simp
  have "demo_start_os = ipc_os demo_ipc" by (simp add: demo_start_os_def demo_ipc_def ipc_init_def)
  with demo_started [of "Some hub_frames"] obtain b1 os
    where "start_bridge (Inr (Some (replicate 15 0 @ [1]), 4000)) demo_start_os (set_handler (Some hub_frames) demo_bridge) = ((b1, os), None)"
    by (auto simp: set_handler_def)
  with r a b demo_load show ?thesis by (simp add: start_program_def demo_launch_def)
qed

theorem program_applies_once_per_proposal_witness:
  "\<exists>pg. start_program demo_launch demo_start_os = Inr pg
    \<and> count_applies [Tool_request (Some (replicate 16 0)) 1 demo_moment demo_envelope, Ide_frame ''c'' demo_frame] pg = 0"
proof -
  obtain pg where pg: "start_program demo_launch demo_start_os = Inr pg" using demo_starts by blast
  let ?evs = "[Tool_request (Some (replicate 16 0)) 1 demo_moment demo_envelope, Ide_frame ''c'' demo_frame]"
  have "dec_request (enc_request demo_call) = Some demo_call"
    by (rule request_codec.dec_enc) (simp add: good_request_def demo_call_def)
  then have "\<not> proposing_call demo_envelope" by (simp add: proposing_call_def demo_envelope_def demo_call_def)
  then have "count_stored ?evs pg = 0"
    by (auto simp: stores_proposal_def dest: logged_was_asked split: option.split)
  with program_applies_once_per_proposal [OF pg, of ?evs] pg show ?thesis by auto
qed

section \<open>The discovery file\<close>

text \<open>What a client sends that has read an endpoint.\<close>

definition bearer_request :: "string \<Rightarrow> http_request" where
  "bearer_request t = \<lparr>rq_method = ''GET'', rq_origin = [], rq_authorization = ''Bearer '' @ t, rq_query = []\<rparr>"

lemma hex_digit_ascii:
  "n < 16 \<Longrightarrow> plain_byte (hex_digit n) \<and> 0x20 \<le> byte (hex_digit n) \<and> byte (hex_digit n) < (0x7F :: nat)"
proof -
  assume n: "n < 16"
  then have "byte (hex_digit n) = (if n < 10 then 48 + n else 87 + n)" by (simp add: hex_digit_def)
  with n hex_digit_plain(1) [OF n] show ?thesis by (auto split: if_splits)
qed

lemma hex_plain: "c \<in> set (hex_encode bs) \<Longrightarrow> plain_byte c \<and> 0x20 \<le> byte c \<and> byte c < (0x7F :: nat)"
  using set_hex_encode hex_digit_ascii by blast

lemma hex_printable: "printable (hex_encode bs)"
  using hex_plain by (auto simp: printable_def list_all_iff)

lemma hex_trim: "trim_space (hex_encode bs) = hex_encode bs"
proof (cases "hex_encode bs = []")
  case False
  then show ?thesis using hex_plain [OF hd_in_set] hex_plain [OF last_in_set] by (intro trim_space_plain) simp_all
qed simp

lemma join_path_string: "proper_path p \<Longrightarrow> join_path [] (path_string p) = p"
proof (cases "p = []")
  case False
  assume p: "proper_path p"
  have "split_on slash (path_string p) = [] # p"
    using proper_path_split_join [OF p False] by (simp add: path_string_def)
  with clean_names_append_proper [OF p, of True "[]"] show ?thesis by (simp add: join_path_def)
qed (simp add: path_string_def join_path_def)

lemma endpoint_path_string: "proper_path p \<Longrightarrow> endpoint_path (path_string p) = p @ [''ide-ipc.json'']"
  by (simp add: endpoint_path_def join_path_string join_path_def [of _ "''ide-ipc.json''"] slash_def)

lemma bearer_token: "trim_space t = t \<Longrightarrow> extract_token (bearer_request t) = t"
  by (simp add: extract_token_def bearer_request_def query_get_def map_filter_def query_part_def has_prefix_def
      trim_prefix_def Let_def)

text \<open>
  C10. A start publishes how to reach the bridge: if the program is up, the listener has a port and the
  bind address is printable, then the discovery file in the state directory reads back to the port the
  bridge listens on and to its token, the listener is a loopback address, and an HTTP request with the
  token of the file is upgraded, while one with any other token without blanks around it is answered 401.
\<close>

theorem start_publishes_endpoint:
  assumes "start_program la os = Inr pg" "fs_wf (files os)"
    and "abs_dir (Inr (la_cwd la)) (state_dir (la_getenv la)) = Inr dir"
    and "safe_path (files os) (dir @ [''ide-ipc.json''])"
    and "la_token_random la = Some u" "u \<noteq> []" "la_listen la = Inr (lip, port)" "0 < port" "port \<le> 65535"
    and "printable (cfg_ide_bind (ag_config (pg_agent pg)))"
  shows "\<exists>ep ip. read_endpoint (files (pg_os pg)) (cfg_state_dir (ag_config (pg_agent pg))) = Inr ep
    \<and> ep_port ep = port \<and> ep_token ep = hex_encode u \<and> lip = Some ip \<and> is_loopback ip
    \<and> (\<forall>hs. hs (bearer_request (ep_token ep)) \<longrightarrow>
          handle_ipc hs (pg_bridge pg) (bearer_request (ep_token ep)) = Upgraded)
    \<and> (\<forall>hs t. trim_space t = t \<and> t \<noteq> ep_token ep \<longrightarrow>
          handle_ipc hs (pg_bridge pg) (bearer_request t) = Http_error 401 ''unauthorized'')"
proof -
  from start_cases [OF assms(1)] obtain os1 cfg a reg wid b b1 os2
    where s: "load_config (la_getenv la) (Inr (la_cwd la)) os = (os1, Inr cfg)"
      "new_agent (la_machine la) (la_platform la) (la_stamp la) (la_agent_random la) cfg = Inr a"
      "new_bridge (la_token_random la) (main_bridge_options (ag_config a)) None = Inr b"
      "start_bridge (la_listen la) os1 (set_handler (Some hub_frames) b) = ((b1, os2), None)"
      "pg_agent pg = a" "pg_os pg = os2" "pg_bridge pg = b1" by (metis program.select_convs)
  have cfg: "cfg_state_dir (ag_config a) = cfg_state_dir cfg"
    using s(2) by (auto simp: new_agent_def Let_def split: sum.splits)
  have dsafe: "safe_path (files os) dir" by (rule safe_path_prefix [OF assms(4)]) simp
  note L = load_config_ok [OF s(1) assms(2,3) dsafe]
  have "cfg_agent_id (ag_config a) \<noteq> []" "br_bind b = cfg_ide_bind (ag_config a)" "br_state_dir b = cfg_state_dir cfg"
      "br_token b = hex_encode u" "validate_bind (cfg_ide_bind (ag_config a)) = None"
    using s(3) assms(5) cfg
    by (auto simp: new_bridge_def main_bridge_options_def new_token_def split: if_splits option.splits)
  note b = this
  obtain ip port' where st: "la_listen la = Inr (Some ip, port')" "is_loopback ip"
    "b1 = (set_handler (Some hub_frames) b)\<lparr>br_started := True, br_server := True,
            br_endpoint := \<lparr>ep_bind = br_bind (set_handler (Some hub_frames) b), ep_port = port', ep_path = ''/ipc'',
                            ep_token = br_token (set_handler (Some hub_frames) b)\<rparr>\<rparr>"
    "write_endpoint os1 (br_state_dir (set_handler (Some hub_frames) b)) (br_endpoint b1) = (os2, None)"
    by (rule started_bridge [OF s(4)])
  then have l: "lip = Some ip" "is_loopback ip"
      "br_endpoint b1 = \<lparr>ep_bind = br_bind b, ep_port = port, ep_path = ''/ipc'', ep_token = br_token b\<rparr>"
      "br_token b1 = br_token b" "write_endpoint os1 (br_state_dir b) (br_endpoint b1) = (os2, None)"
    using assms(7) by (simp_all add: set_handler_def)
  have "proper_path dir" using dsafe by (simp add: safe_path_def)
  then have path: "endpoint_path (cfg_state_dir cfg) = dir @ [''ide-ipc.json'']"
    using L(1) endpoint_path_string by simp
  have safe: "safe_path (files os1) (endpoint_path (cfg_state_dir cfg))"
    unfolding path by (rule more_dirs_safe [OF L(7) assms(4)])
  have "hex_encode u \<noteq> []" using assms(6) by (cases u) (simp_all add: hex_encode_def hex_byte_def)
  moreover have "cfg_ide_bind (ag_config a) \<noteq> []" using b(5) by (auto simp: validate_bind_def)
  ultimately have whole: "whole_endpoint (br_endpoint b1)"
    using l(3) b(2,4) assms(8-10) s(5) hex_printable [of u] by (simp add: whole_endpoint_def printable_def)
  have "read_endpoint (files os2) (cfg_state_dir cfg) = Inr (br_endpoint b1)"
    using endpoint_roundtrip [OF L(3) safe whole] l(5) b(3) by simp
  moreover have "handle_ipc hs b1 (bearer_request (hex_encode u)) = Upgraded"
    if "hs (bearer_request (hex_encode u))" for hs
    using that b(4) l(4) \<open>hex_encode u \<noteq> []\<close> bearer_token [OF hex_trim]
    by (simp add: handle_ipc_def token_matches_def origin_allowed_def bearer_request_def)
  moreover have "handle_ipc hs b1 (bearer_request t) = Http_error 401 ''unauthorized''"
    if "trim_space t = t" "t \<noteq> hex_encode u" for hs t
    using that b(4) l(4) bearer_token [OF that(1)]
    by (simp add: handle_ipc_def token_matches_def origin_allowed_def bearer_request_def)
  ultimately show ?thesis
    unfolding s(5-7) cfg using l(1-3) b(4) by (intro exI [of _ "br_endpoint b1"] exI [of _ ip]) simp
qed

theorem start_publishes_endpoint_witness:
  "\<exists>pg ep. start_program demo_launch demo_start_os = Inr pg
    \<and> read_endpoint (files (pg_os pg)) (cfg_state_dir (ag_config (pg_agent pg))) = Inr ep
    \<and> ep_port ep = 4000 \<and> ep_token ep = ''07ff''"
proof -
  obtain pg where pg: "start_program demo_launch demo_start_os = Inr pg" using demo_starts by blast
  have bind: "printable (cfg_ide_bind (ag_config (pg_agent pg)))"
  proof -
    have "cfg_ide_bind (ag_config (pg_agent pg)) = ''127.0.0.1''"
      using pg demo_load
      by (auto simp: start_program_def demo_launch_def new_agent_def demo_start_config_def default_config_def Let_def
          split: sum.splits prod.splits option.splits)
    then show ?thesis by (simp add: printable_def)
  qed
  have dir: "abs_dir (Inr (la_cwd demo_launch)) (state_dir (la_getenv demo_launch)) = Inr [''s'']" by code_simp
  have wf: "fs_wf (files demo_start_os)" by (simp add: fs_wf_def demo_start_os_def node_at_def proper_def slash_def has_nul_def)
  have safe: "safe_path (files demo_start_os) ([''s''] @ [''ide-ipc.json''])"
    by (auto simp: safe_path_def plain_path_def no_link_def demo_start_os_def node_at_def proper_def slash_def
        has_nul_def strict_prefix_def prefix_Cons)
  have hex: "hex_encode [7, 0xFF] = ''07ff''" by code_simp
  have "la_token_random demo_launch = Some [7, 0xFF]" "la_listen demo_launch = Inr (Some (replicate 15 0 @ [1]), 4000)"
    by (simp_all add: demo_launch_def)
  from start_publishes_endpoint [OF pg wf dir safe this(1) _ this(2) _ _ bind] pg hex show ?thesis by auto
qed

end
