(* ===== verification/Contract.thy ===== *)
theory Contract
  imports Go_Files Go_Json Maven
begin

text \<open>
  \<open>protocol/contract\<close>: the reader of the protobuf text and the validator of JSON schemas with which the
  protocol is checked. Schemas lie at absolute paths. A schema that refers to itself is followed for ever
  by the code, so the validator has fuel and answers \<open>None\<close> when it runs out; \<open>sprint\<close> is how \<open>fmt.Sprint\<close>
  prints a decoded JSON value. The fields of an object are visited in the order of their list, where Go
  visits them in any order: which of several errors is answered may differ, whether there is one does not.
\<close>

datatype contract_error =
    Unreadable errno
  | Unparsed
  | Null_instance
  | Missing_required string
  | Not_in_enum string json
  | Inside string contract_error
  | No_names
  | Missing_field string

section \<open>Schemas\<close>

definition load_json :: "fs \<Rightarrow> path \<Rightarrow> contract_error + jmap" where
  "load_json fs p =
     (case read_content fs p of
        Inl e \<Rightarrow> Inl (Unreadable e)
      | Inr raw \<Rightarrow>
          (case json_parse raw of
             Some (JObj m) \<Rightarrow> Inr (to_map m)
           | Some JNull \<Rightarrow> Inr []
           | _ \<Rightarrow> Inl Unparsed))"

definition ref_of :: "jmap \<Rightarrow> string option" where
  "ref_of schema = (case map_of schema ''$ref'' of Some (JStr ref) \<Rightarrow> Some ref | _ \<Rightarrow> None)"

definition ref_path :: "path \<Rightarrow> string \<Rightarrow> path" where
  "ref_path p ref = join_path (dir_path p) ref"

text \<open>The first required name that the object lacks; a name that is no string counts as the empty one.\<close>

definition name_of :: "json \<Rightarrow> string" where
  "name_of r = (case r of JStr s \<Rightarrow> s | _ \<Rightarrow> [])"

definition required_names :: "jmap \<Rightarrow> string list" where
  "required_names schema = (case map_of schema ''required'' of Some (JArr rs) \<Rightarrow> map name_of rs | _ \<Rightarrow> [])"

definition missing_required :: "jmap \<Rightarrow> jmap \<Rightarrow> string option" where
  "missing_required schema obj = find (\<lambda>n. map_of obj n = None) (required_names schema)"

definition properties_of :: "jmap \<Rightarrow> jmap" where
  "properties_of schema = (case map_of schema ''properties'' of Some (JObj ps) \<Rightarrow> ps | _ \<Rightarrow> [])"

definition in_enum :: "(json \<Rightarrow> string) \<Rightarrow> json \<Rightarrow> json list \<Rightarrow> bool" where
  "in_enum sprint v enum = list_ex (\<lambda>e. sprint e = sprint v) enum"

definition enum_refuses :: "(json \<Rightarrow> string) \<Rightarrow> jmap \<Rightarrow> json \<Rightarrow> bool" where
  "enum_refuses sprint ps v =
     (case map_of ps ''enum'' of Some (JArr enum) \<Rightarrow> \<not> in_enum sprint v enum | _ \<Rightarrow> False)"

definition has_nested :: "jmap \<Rightarrow> bool" where
  "has_nested ps = (case map_of ps ''properties'' of None \<Rightarrow> False | Some j \<Rightarrow> j \<noteq> JNull)"

text \<open>The error of a nested value, with the name of its field.\<close>

definition inside :: "string \<Rightarrow> contract_error option option \<Rightarrow> contract_error option option" where
  "inside k r = map_option (map_option (Inside k)) r"

text \<open>One check after another: the first error or the end of the fuel decides.\<close>

definition and_then :: "contract_error option option \<Rightarrow> contract_error option option \<Rightarrow> contract_error option option" where
  "and_then r s = (case r of Some None \<Rightarrow> s | _ \<Rightarrow> r)"

function validate :: "nat \<Rightarrow> fs \<Rightarrow> (json \<Rightarrow> string) \<Rightarrow> path \<Rightarrow> jmap \<Rightarrow> json \<Rightarrow> contract_error option option"
  and check_fields :: "nat \<Rightarrow> fs \<Rightarrow> (json \<Rightarrow> string) \<Rightarrow> path \<Rightarrow> jmap \<Rightarrow> jmap \<Rightarrow> contract_error option option" where
  "validate 0 fs sprint p schema v = None"
| "validate (Suc n) fs sprint p schema v =
     (case ref_of schema of
        Some ref \<Rightarrow>
          (case load_json fs (ref_path p ref) of
             Inl e \<Rightarrow> Some (Some e)
           | Inr schema' \<Rightarrow> validate n fs sprint (ref_path p ref) schema' v)
      | None \<Rightarrow>
          (case v of
             JObj obj \<Rightarrow>
               (case missing_required schema obj of
                  Some k \<Rightarrow> Some (Some (Missing_required k))
                | None \<Rightarrow> check_fields n fs sprint p (properties_of schema) obj)
           | JNull \<Rightarrow> Some (Some Null_instance)
           | _ \<Rightarrow> Some None))"
| "check_fields n fs sprint p props [] = Some None"
| "check_fields n fs sprint p props ((k, v) # obj) =
     and_then
       (case map_of props k of
          Some (JObj ps) \<Rightarrow>
            if enum_refuses sprint ps v then Some (Some (Not_in_enum k v))
            else and_then
              (if has_nested ps then inside k (validate n fs sprint p ps v) else Some None)
              (case ref_of ps of
                 Some ref \<Rightarrow>
                   inside k (validate n fs sprint (dir_path p @ [''placeholder'']) [(''$ref'', JStr ref)] v)
               | None \<Rightarrow> Some None)
        | _ \<Rightarrow> Some None)
       (check_fields n fs sprint p props obj)"
  by pat_completeness auto
termination
  by (relation "measures [\<lambda>x. case x of Inl (n, _) \<Rightarrow> n | Inr (n, _) \<Rightarrow> n,
      \<lambda>x. case x of Inl _ \<Rightarrow> 0 | Inr (_, _, _, _, _, obj) \<Rightarrow> Suc (length obj)]") auto

definition validate_required :: "nat \<Rightarrow> fs \<Rightarrow> (json \<Rightarrow> string) \<Rightarrow> path \<Rightarrow> json \<Rightarrow> contract_error option option" where
  "validate_required n fs sprint p v =
     (case load_json fs p of
        Inl e \<Rightarrow> Some (Some e)
      | Inr schema \<Rightarrow> validate n fs sprint p schema v)"

section \<open>What a schema accepts\<close>

text \<open>
  The rules of a schema, without fuel and without order: a reference stands for the file it names; an
  object has the required names and each of its fields that the schema describes is in the enumeration,
  conforms to the nested description and to the file that its description names; other values conform,
  null does not.
\<close>

inductive conforms :: "fs \<Rightarrow> (json \<Rightarrow> string) \<Rightarrow> path \<Rightarrow> jmap \<Rightarrow> json \<Rightarrow> bool" for fs sprint where
  by_ref: "ref_of schema = Some ref \<Longrightarrow> load_json fs (ref_path p ref) = Inr schema' \<Longrightarrow>
    conforms fs sprint (ref_path p ref) schema' v \<Longrightarrow> conforms fs sprint p schema v"
| plain: "ref_of schema = None \<Longrightarrow> v \<noteq> JNull \<Longrightarrow> (\<And>obj. v \<noteq> JObj obj) \<Longrightarrow> conforms fs sprint p schema v"
| object: "ref_of schema = None \<Longrightarrow> set (required_names schema) \<subseteq> fst ` set obj \<Longrightarrow>
    (\<And>k v ps. (k, v) \<in> set obj \<Longrightarrow> map_of (properties_of schema) k = Some (JObj ps) \<Longrightarrow>
       \<not> enum_refuses sprint ps v \<and> (has_nested ps \<longrightarrow> conforms fs sprint p ps v)
       \<and> (\<forall>ref. ref_of ps = Some ref \<longrightarrow> conforms fs sprint (dir_path p @ [''placeholder'']) [(''$ref'', JStr ref)] v)) \<Longrightarrow>
    conforms fs sprint p schema (JObj obj)"

text \<open>More fuel does not change an answer.\<close>

lemma and_then_None [simp]: "and_then r s = Some None \<longleftrightarrow> r = Some None \<and> s = Some None"
  by (auto simp: and_then_def split: option.splits)

lemma inside_None [simp]: "inside k r = Some None \<longleftrightarrow> r = Some None"
  by (auto simp: inside_def)

lemma and_then_mono:
  "(\<And>e. r = Some e \<Longrightarrow> r' = Some e) \<Longrightarrow> (\<And>e. s = Some e \<Longrightarrow> s' = Some e) \<Longrightarrow>
    and_then r s = Some x \<Longrightarrow> and_then r' s' = Some x"
  by (auto simp: and_then_def split: option.splits)

lemma inside_mono: "(\<And>e. r = Some e \<Longrightarrow> r' = Some e) \<Longrightarrow> inside k r = Some x \<Longrightarrow> inside k r' = Some x"
  by (auto simp: inside_def)

lemma more_fuel:
  "validate n fs sprint p schema v = Some r \<Longrightarrow> n \<le> m \<Longrightarrow> validate m fs sprint p schema v = Some r"
  "check_fields n fs sprint p props obj = Some r \<Longrightarrow> n \<le> m \<Longrightarrow> check_fields m fs sprint p props obj = Some r"
proof (induction n fs sprint p schema v and n fs sprint p props obj arbitrary: m r and m r rule: validate_check_fields.induct)
  case (2 n fs sprint p schema v)
  obtain m' where m: "m = Suc m'" "n \<le> m'" using "2.prems"(2) by (cases m) auto
  show ?case
  proof (cases "ref_of schema")
    case (Some ref)
    with "2.prems"(1) "2.IH"(2) [OF Some _ _ m(2)] m(1) show ?thesis by (cases "load_json fs (ref_path p ref)") auto
  next
    case None
    with "2.prems"(1) "2.IH"(1) [OF None _ _ _ m(2)] m(1) show ?thesis
      by (cases v) (auto split: option.splits)
  qed
next
  case (4 n fs sprint p props k v obj)
  let ?field = "\<lambda>n. case map_of props k of
      Some (JObj ps) \<Rightarrow>
        if enum_refuses sprint ps v then Some (Some (Not_in_enum k v))
        else and_then
          (if has_nested ps then inside k (validate n fs sprint p ps v) else Some None)
          (case ref_of ps of
             Some ref \<Rightarrow> inside k (validate n fs sprint (dir_path p @ [''placeholder'']) [(''$ref'', JStr ref)] v)
           | None \<Rightarrow> Some None)
    | _ \<Rightarrow> Some None"
  have field: "?field m = Some e" if e: "?field n = Some e" for e
  proof (cases "\<exists>ps. map_of props k = Some (JObj ps) \<and> \<not> enum_refuses sprint ps v")
    case True
    then obtain ps where ps: "map_of props k = Some (JObj ps)" "\<not> enum_refuses sprint ps v" by blast
    note IH = "4.IH"(1) [OF ps(1) refl ps(2) _ _ "4.prems"(2)] "4.IH"(2) [OF ps(1) refl ps(2) _ _ "4.prems"(2)]
    from e ps have "and_then
          (if has_nested ps then inside k (validate n fs sprint p ps v) else Some None)
          (case ref_of ps of
             Some ref \<Rightarrow> inside k (validate n fs sprint (dir_path p @ [''placeholder'']) [(''$ref'', JStr ref)] v)
           | None \<Rightarrow> Some None) = Some e" by simp
    then have "and_then
          (if has_nested ps then inside k (validate m fs sprint p ps v) else Some None)
          (case ref_of ps of
             Some ref \<Rightarrow> inside k (validate m fs sprint (dir_path p @ [''placeholder'']) [(''$ref'', JStr ref)] v)
           | None \<Rightarrow> Some None) = Some e"
      by (rule and_then_mono [rotated 2]) (auto intro: inside_mono IH split: if_splits option.splits)
    with ps show ?thesis by simp
  qed (use e in \<open>auto split: option.splits json.splits if_splits\<close>)
  show ?case using 4(4) unfolding check_fields.simps
    by (rule and_then_mono [rotated 2, OF _ field]) (use "4.IH"(3) "4.prems"(2) in blast)+
qed simp_all

definition field_conforms :: "fs \<Rightarrow> (json \<Rightarrow> string) \<Rightarrow> path \<Rightarrow> jmap \<Rightarrow> string \<Rightarrow> json \<Rightarrow> bool" where
  "field_conforms fs sprint p props k v \<longleftrightarrow>
     (\<forall>ps. map_of props k = Some (JObj ps) \<longrightarrow>
        \<not> enum_refuses sprint ps v \<and> (has_nested ps \<longrightarrow> conforms fs sprint p ps v)
        \<and> (\<forall>ref. ref_of ps = Some ref \<longrightarrow> conforms fs sprint (dir_path p @ [''placeholder'']) [(''$ref'', JStr ref)] v))"

lemma missing_None: "missing_required schema obj = None \<longleftrightarrow> set (required_names schema) \<subseteq> fst ` set obj"
  by (auto simp: missing_required_def find_None_iff map_of_eq_None_iff)

lemma accepted_conforms:
  "validate n fs sprint p schema v = Some None \<Longrightarrow> conforms fs sprint p schema v"
  "check_fields n fs sprint p props obj = Some None \<Longrightarrow> \<forall>(k, v)\<in>set obj. field_conforms fs sprint p props k v"
proof (induction n fs sprint p schema v and n fs sprint p props obj rule: validate_check_fields.induct)
  case (2 n fs sprint p schema v)
  show ?case
  proof (cases "ref_of schema")
    case (Some ref)
    with 2 show ?thesis by (cases "load_json fs (ref_path p ref)") (auto intro: by_ref)
  next
    case None
    show ?thesis
    proof (cases "\<exists>obj. v = JObj obj")
      case True
      then obtain obj where v: "v = JObj obj" by blast
      with "2.prems" None have m: "missing_required schema obj = None"
        "check_fields n fs sprint p (properties_of schema) obj = Some None" by (auto split: option.splits)
      from "2.IH"(1) [OF None v m] have f: "\<forall>(k, w)\<in>set obj. field_conforms fs sprint p (properties_of schema) k w" .
      show ?thesis unfolding v
      proof (rule object [OF None])
        show "set (required_names schema) \<subseteq> fst ` set obj" using m(1) by (simp add: missing_None)
      qed (use f in \<open>unfold field_conforms_def, blast\<close>)
    next
      case False
      then have "\<And>obj. v \<noteq> JObj obj" by blast
      moreover have "v \<noteq> JNull" using "2.prems" None by auto
      ultimately show ?thesis by (intro plain [OF None])
    qed
  qed
next
  case (4 n fs sprint p props k v obj)
  have "field_conforms fs sprint p props k v" unfolding field_conforms_def
  proof (intro allI impI)
    fix ps
    assume ps: "map_of props k = Some (JObj ps)"
    with "4.prems" have e: "\<not> enum_refuses sprint ps v" by (auto split: if_splits)
    note IH = "4.IH"(1) [OF ps refl e] "4.IH"(2) [OF ps refl e]
    from "4.prems" ps e IH show "\<not> enum_refuses sprint ps v \<and> (has_nested ps \<longrightarrow> conforms fs sprint p ps v)
        \<and> (\<forall>ref. ref_of ps = Some ref \<longrightarrow> conforms fs sprint (dir_path p @ [''placeholder'']) [(''$ref'', JStr ref)] v)"
      by (auto split: if_splits option.splits)
  qed
  with 4(3) "4.prems" show ?case by simp
qed simp_all

definition field_accepted :: "nat \<Rightarrow> fs \<Rightarrow> (json \<Rightarrow> string) \<Rightarrow> path \<Rightarrow> jmap \<Rightarrow> string \<Rightarrow> json \<Rightarrow> bool" where
  "field_accepted n fs sprint p props k v \<longleftrightarrow>
     (\<forall>ps. map_of props k = Some (JObj ps) \<longrightarrow>
        \<not> enum_refuses sprint ps v \<and> (has_nested ps \<longrightarrow> validate n fs sprint p ps v = Some None)
        \<and> (\<forall>ref. ref_of ps = Some ref \<longrightarrow>
             validate n fs sprint (dir_path p @ [''placeholder'']) [(''$ref'', JStr ref)] v = Some None))"

lemma field_more: "field_accepted n fs sprint p props k v \<Longrightarrow> n \<le> m \<Longrightarrow> field_accepted m fs sprint p props k v"
  unfolding field_accepted_def using more_fuel(1) by blast

lemma fields_accepted:
  "(\<forall>(k, v)\<in>set obj. field_accepted n fs sprint p props k v) \<Longrightarrow> check_fields n fs sprint p props obj = Some None"
proof (induction obj)
  case (Cons kv obj)
  obtain k v where kv: "kv = (k, v)" by fastforce
  with Cons have "field_accepted n fs sprint p props k v" "check_fields n fs sprint p props obj = Some None" by auto
  then show ?case unfolding kv check_fields.simps and_then_None
    by (cases "map_of props k") (auto simp: field_accepted_def split: json.split option.split)
qed simp

lemma common_fuel:
  "(\<forall>(k, v)\<in>set obj. \<exists>n. field_accepted n fs sprint p props k v) \<Longrightarrow>
    \<exists>n. \<forall>(k, v)\<in>set obj. field_accepted n fs sprint p props k v"
proof (induction obj)
  case (Cons kv obj)
  obtain k v where kv: "kv = (k, v)" by fastforce
  with Cons obtain n m where "\<forall>(k, v)\<in>set obj. field_accepted n fs sprint p props k v" "field_accepted m fs sprint p props k v"
    by auto
  then have "\<forall>(k, v)\<in>set (kv # obj). field_accepted (max n m) fs sprint p props k v"
    using field_more kv by (auto simp: le_max_iff_disj)
  then show ?case by blast
qed simp

lemma conforms_accepted: "conforms fs sprint p schema v \<Longrightarrow> \<exists>n. validate n fs sprint p schema v = Some None"
proof (induction rule: conforms.induct)
  case (by_ref schema ref p schema' v)
  then obtain n where "validate n fs sprint (ref_path p ref) schema' v = Some None" by blast
  with by_ref have "validate (Suc n) fs sprint p schema v = Some None" by simp
  then show ?case by blast
next
  case (plain schema v p)
  then have "validate (Suc 0) fs sprint p schema v = Some None" by (cases v) auto
  then show ?case by blast
next
  case (object schema obj p)
  have "\<exists>n. field_accepted n fs sprint p (properties_of schema) k v" if "(k, v) \<in> set obj" for k v
  proof (cases "\<exists>ps. map_of (properties_of schema) k = Some (JObj ps)")
    case True
    then obtain ps where ps: "map_of (properties_of schema) k = Some (JObj ps)" by blast
    note IH = object(3) [OF that ps]
    obtain n where n: "has_nested ps \<Longrightarrow> validate n fs sprint p ps v = Some None" using IH by blast
    obtain m where m: "\<And>ref. ref_of ps = Some ref \<Longrightarrow>
        validate m fs sprint (dir_path p @ [''placeholder'']) [(''$ref'', JStr ref)] v = Some None"
      using IH by (cases "ref_of ps") auto
    have "field_accepted (max n m) fs sprint p (properties_of schema) k v"
      using IH ps more_fuel(1) [OF n, of "max n m"] more_fuel(1) [OF m, of _ "max n m"]
      by (simp add: field_accepted_def)
    then show ?thesis by blast
  qed (simp add: field_accepted_def)
  then obtain n where "\<forall>(k, v)\<in>set obj. field_accepted n fs sprint p (properties_of schema) k v"
    using common_fuel by fast
  with object(1,2) have "validate (Suc n) fs sprint p schema (JObj obj) = Some None"
    by (simp add: fields_accepted missing_None [symmetric])
  then show ?case by blast
qed

text \<open>The validator accepts, with fuel enough, exactly what conforms to the schema.\<close>

lemma validate_iff_conforms:
  "(\<exists>n. validate n fs sprint p schema v = Some None) \<longleftrightarrow> conforms fs sprint p schema v"
  using accepted_conforms(1) conforms_accepted by blast

text \<open>A schema that is only a reference to itself is never done with.\<close>

lemma self_reference_diverges:
  assumes "load_json fs p = Inr [(''$ref'', JStr ref)]" "ref_path p ref = p"
  shows "validate n fs sprint p [(''$ref'', JStr ref)] v = None"
  using assms by (induction n) (simp_all add: ref_of_def)

section \<open>The protobuf text\<close>

text \<open>The match of \<open>json_name\<close> at the beginning of a text, and the first one in it.\<close>

definition json_name_at :: "string \<Rightarrow> string option" where
  "json_name_at s =
     (if \<not> has_prefix s ''json_name'' then None
      else case dropWhile re_space (drop 9 s) of
        CHR ''='' # r \<Rightarrow>
          (case dropWhile re_space r of
             CHR 0x22 # q \<Rightarrow>
               (let name = takeWhile (\<lambda>c. c \<noteq> CHR 0x22) q in
                if name = [] \<or> length name = length q then None else Some name)
           | _ \<Rightarrow> None)
      | _ \<Rightarrow> None)"

fun find_json_name :: "string \<Rightarrow> string option" where
  "find_json_name [] = None"
| "find_json_name (c # s) =
     (case json_name_at (c # s) of Some name \<Rightarrow> Some name | None \<Rightarrow> find_json_name s)"

definition trim_suffix :: "string \<Rightarrow> string \<Rightarrow> string" where
  "trim_suffix s e = (if has_suffix s e then take (length s - length e) s else s)"

definition add_name :: "string \<Rightarrow> string \<Rightarrow> (string \<times> string list) list \<Rightarrow> (string \<times> string list) list" where
  "add_name k name out =
     AList.update k ((case map_of out k of Some ns \<Rightarrow> ns | None \<Rightarrow> []) @ [name]) out"

text \<open>One line: the message it is in and the names found so far.\<close>

definition proto_line ::
  "string \<Rightarrow> string \<times> (string \<times> string list) list \<Rightarrow> string \<times> (string \<times> string list) list" where
  "proto_line line st =
     (case st of (current, out) \<Rightarrow>
      let t = trim_space line in
      if has_prefix t ''message '' then
        (trim_space (trim_suffix (trim_space (trim_prefix t ''message '')) ''{''), out)
      else if current = [] then st
      else if t = ''}'' then ([], out)
      else case find_json_name t of
        Some name \<Rightarrow> (current, add_name current name out)
      | None \<Rightarrow> st)"

definition proto_json_names :: "string \<Rightarrow> (string \<times> string list) list" where
  "proto_json_names src = snd (fold proto_line (split_on newline src) ([], []))"

definition load_proto_json_names :: "fs \<Rightarrow> path \<Rightarrow> contract_error + (string \<times> string list) list" where
  "load_proto_json_names fs p =
     (case read_content fs p of
        Inl e \<Rightarrow> Inl (Unreadable e)
      | Inr b \<Rightarrow> let names = proto_json_names b in if names = [] then Inl No_names else Inr names)"

definition contains_all :: "string list \<Rightarrow> string list \<Rightarrow> contract_error option" where
  "contains_all have_names want =
     (case find (\<lambda>w. w \<notin> set have_names) want of Some w \<Rightarrow> Some (Missing_field w) | None \<Rightarrow> None)"

lemma contains_all_iff: "contains_all hv want = None \<longleftrightarrow> set want \<subseteq> set hv"
  by (auto simp: contains_all_def find_None_iff find_Some_iff split: option.splits dest: nth_mem)

text \<open>
  A nested message hides the rest of the message around it: its closing brace ends both, so the names
  that follow it are lost.
\<close>

lemma nested_message_hides:
  "proto_json_names
     (join_with newline
       [''message A {'', ''  message B {'', ''    json_name = \"b\"'', ''  }'', ''  json_name = \"a\"'', ''}''])
   = [(''B'', [''b''])]"
  by code_simp

end
