(* ===== verification/Spec2Isabelle.thy ===== *)
theory Spec2Isabelle
  imports Path_Stability Agent_Over_Grpc Agent_Main_Properties Audit_Log Contract
begin

text \<open>
  The local agent of onCode and the protocol it speaks.

  The program. A central server (not Go, not modelled) drives an agent that runs beside the developer's
  work tree. The agent keeps a registry of workspaces, answers tool calls (read, search, propose, apply,
  build, test, git) that reach it as envelopes over a gRPC stream, and serves a WebSocket on the loopback
  interface for the IDE, whose hub forwards chat and approvals to the server and applies what the developer
  has approved. Its central promise is that files change only by a proposal whose diff somebody has seen
  and approved, inside the workspace, as a whole or not at all, and once.

  Layers, from the bottom up; each theory names the source it translates.

  \<^item> The language and its library. \<open>Go_Strings\<close> (strings, strconv, utf8, hex), \<open>Go_Json\<close> (parsing and
    dynamic values), \<open>Go_Sha256\<close>, \<open>Go_Net\<close> (ParseIP, url.Parse, queries), \<open>Go_Files\<close> (path/filepath, and
    a file system with symbolic links on which the calls of package os may fail), \<open>File_Calls\<close> (what each
    call can do on a path without links). \<open>Prelude\<close> holds the contract of keyed stores (a locale) and the
    collections of rewrite rules.
  \<^item> The protocol, \<open>src/protocol\<close>. \<open>Protocol_Errors\<close> (errors.go), \<open>Protocol_Ids\<close> (ids.go),
    \<open>Protocol_Versioning\<close> (version.go), \<open>Protocol_Messages\<close> (messages.go, events.go), \<open>Protocol_Codec\<close>
    (the JSON form of the messages, locale \<open>codec\<close>), \<open>Grpc_Adapt\<close> (adapt.go), \<open>Contract\<close> (the validator of
    JSON schemas and the reader of the protobuf text).
  \<^item> Workspaces, \<open>local-agent/internal/workspace\<close>. \<open>Workspace_Registry\<close> (workspace.go), \<open>Workspace_Path\<close>
    (path.go, locale \<open>path_resolver\<close>), \<open>Workspace_Read\<close> (read.go, read_files.go), \<open>Workspace_Search\<close>
    (search.go, locale \<open>walker\<close>), \<open>Workspace_Propose\<close> (propose.go), \<open>Workspace_Apply\<close> (apply.go), with
    \<open>Diff_Unified\<close> (diff/unified.go), \<open>Actual_Diff\<close> (actualdiff.go) and \<open>Policy\<close> (policy/approval.go, locale
    \<open>approval_validator\<close>). \<open>Path_Stability\<close>, \<open>Proposal_Lifecycle\<close>, \<open>Apply_Atomic\<close> and \<open>Apply_Properties\<close>
    hold what is proved of them.
  \<^item> Tools, \<open>local-agent/internal/tools\<close>. \<open>Tool_Dispatch\<close> (dispatcher.go, locale \<open>tool_contract\<close>),
    \<open>Audit_Log\<close> (audit/logger.go), \<open>Workspace_Tools\<close>, \<open>Process_Runner\<close> (process/runner.go), \<open>Maven\<close>,
    \<open>Git_Ops\<close>, \<open>Tool_Suite\<close>; \<open>Tool_Contracts\<close> interprets the contract for every handler.
  \<^item> The agent. \<open>Config\<close> (config.go), \<open>Agent_Core\<close> (agent.go), \<open>Transport_Memory\<close> (memory.go and the loop
    of transport.go), \<open>Transport_Grpc\<close> (grpc.go), \<open>Agent_Over_Grpc\<close> (all of it together).
  \<^item> The IDE. \<open>Chat_Context\<close> (chatctx/validate.go), \<open>Ide_Hub\<close> and \<open>Ide_Hub_Properties\<close> (idesession),
    \<open>Ide_Endpoint\<close> and \<open>Ide_Bridge\<close> (idebridge).
  \<^item> The program, \<open>cmd/oncode-agent/main.go\<close>: \<open>Agent_Main\<close> and \<open>Agent_Main_Properties\<close>.

  How the code is modelled.

  \<^item> Strings are lists of bytes. A Go \<open>int64\<close> is an \<open>int\<close> with its wrap-around or its range written where
    the code can leave it; the words of SHA-256 and of identifiers are machine words.
  \<^item> A pair of value and error is a sum, \<open>Inl\<close> the error; where a function can panic, or a handler can, the
    result is an option and \<open>None\<close> is the panic. Errors are the protocol's records or plain texts.
  \<^item> A Go map is an association list, looked up by its first entry. Where the code depends on the order of
    a map, it sorts, and so does the model; where it does not, the order of the list stands for any order.
  \<^item> A mutex is the atomicity of the step it guards. Where goroutines interleave, the component is a step
    relation: the claims on a proposal (\<open>store_step\<close>), the two transports (\<open>net_step\<close>, \<open>stream_step\<close>), the
    hub (\<open>hub_step\<close>), the connections of the bridge (\<open>ipc_step\<close>) and the program (\<open>program_step\<close>).
  \<^item> Files are a map from absolute paths to files with permission bits, directories and links. Every call
    that changes them consumes one entry of a schedule of faults, so a theorem for all schedules is one for
    every point of failure; the calls of a rollback have a schedule of their own.
  \<^item> The clock, random bytes, the environment, the answers of \<open>net.Listen\<close> and of the gRPC client, child
    processes and the handshake of the WebSocket library are arguments or choices of a step.

  What is proved.

  \<^item> Applying (C1 to C7, and the lifecycle): a failed apply leaves contents, revisions and proposals as they
    were, whatever call failed; a successful one was approved for the stored hash, recomputes to it on the
    current files, and writes exactly the plan. Both hold where nothing of the user is in the way of the
    staging files (\<open>staging_free\<close>): the code writes each target under the fixed name with
    \<open>.oncode-tmp\<close> appended first, and \<open>write_takes_staging_name\<close> and \<open>write_follows_staging_link\<close> show
    what becomes of a file or a link that has that name already. The hub applies only what it has shown, only
    when told, once; and in the whole program, in which the agent and the hub share the proposals, a workspace
    moves at most as often as proposals have been stored for it.
  \<^item> The way of a call (\<open>Agent_Over_Grpc\<close>, \<open>Transport_Grpc\<close>, \<open>Transport_Memory\<close>, \<open>Agent_Core\<close>): every
    interleaving refines handling the requests one after another. The stream carries to the server exactly the
    answers of the sequential reference, each once and in order. A proper call is answered by a valid response
    to it, and from every open stream on which no call was given up the agent comes, in boundedly many steps of
    its own, to a state where all calls are answered. The memory transport has answered every injected call
    when no step of its own is left.
  \<^item> Confinement (\<open>Workspace_Path\<close>, \<open>Path_Stability\<close>, \<open>Workspace_Read\<close>): a resolved path lies in the
    workspace without links, and keeps its meaning while files come and go; reading reads such a file.
  \<^item> Proposals and diffs (\<open>Workspace_Propose\<close>, \<open>Diff_Unified\<close>, \<open>Actual_Diff\<close>, \<open>Ide_Hub_Properties\<close>): what
    is shown is the diff from the files to the plan, and its hash is what is approved; the edit script is right
    and minimal, its text determines the lines of both sides; the order of changes to different paths does not
    matter; and the hub sees a content change exactly where texts differ otherwise than in a final newline,
    but for lines that look like the heads of a diff.
  \<^item> The IDE's way in (\<open>Ide_Bridge\<close>, \<open>Ide_Endpoint\<close>, \<open>Agent_Main_Properties\<close>): no frame reaches the hub without
    an allowed origin, the token and a registration, and the discovery file is what lets a client in.
  \<^item> Encodings round-trip (protobuf up to what \<open>wire_losses\<close> and \<open>long_timeout_lost\<close> name, JSON, identifiers,
    git's status). A search finds all and only what is due within its limits on the bytes and lines of a
    file (\<open>due_hits\<close>), up to the number of hits; beyond the first limits it misses silently
    (\<open>search_limits_silent\<close>). The bounded log keeps the first bytes, and the counts of Surefire are those of
    its first line. The lemmas of the library show more: the discretion of the audit line, the schema
    validator against its rules, and the odd cases that the findings of the manifest name.

  Bounds. A walk follows at most 40 links as Linux does and \<open>EvalSymlinks\<close> at most 255; a link past the
  bound is the error of the code, so no theorem depends on the bounds being large enough. The line of a
  search is at most 1 MiB (\<open>bufio.Scanner\<close>), the log of a process 256 KiB, a frame 64 KiB, the channels of the
  stream 16 entries. The schema validator has fuel because a schema may refer to itself;
  \<open>validate_iff_conforms\<close> shows that what conforms is accepted with fuel enough, \<open>more_fuel\<close> that an answer
  stays, and \<open>self_reference_diverges\<close> that no fuel helps a schema that is only a reference to itself. All
  other loops are recursive with a proof of termination.

  Not modelled. The generated code of \<open>protocol/gen/toolv1\<close>: its messages are records of their fields. The
  lines on standard error and how \<open>slog\<close> prints. Windows (volume names, the wrapper \<open>mvnw.cmd\<close>). Letter case
  beyond ASCII in \<open>ToLower\<close> and \<open>EqualFold\<close>, and the escapes of \<open>%q\<close> for unprintable runes beyond ASCII. Permission
  checks of the kernel: a call fails when its schedule says so. Whole handlers of the program are one step
  in \<open>program_step\<close>; that two applies of one proposal that run at the same time exclude each other is the
  lifecycle of the claim. The server, the IDE extensions and the infrastructure are not Go.
\<close>

end
